(* ===== verification/Prelude.thy ===== *)
theory Prelude
  imports Main "HOL-Library.Word" "HOL-Library.Multiset" "HOL-Library.Monad_Syntax"
begin

text \<open>
  The vocabulary the component theories share: machine integer types, results as sums,
  the Rust integer operations the crate relies on, the set-filter idiom
  \<open>filter(|x| seen.insert(key(x)))\<close>, stable sorting by a key, the fallible
  \<open>collect\<close>, and the generic lemmas about them.
\<close>

section \<open>Machine integers\<close>

type_synonym u8 = "8 word"
type_synonym u16 = "16 word"
type_synonym u32 = "32 word"
type_synonym u64 = "64 word"

text \<open>Heights are \<open>u32\<close>; lengths and counts (\<open>usize\<close>) are \<open>nat\<close>, bounded where the
  code saturates.\<close>

type_synonym height = u32

named_theorems machine_int \<open>unfoldings of the checked and saturating machine operations\<close>
named_theorems pool_defs \<open>unfoldings of the peer pool's operations\<close>
named_theorems cache_defs \<open>unfoldings of the light-client cache's operations\<close>
named_theorems claim_defs \<open>unfoldings of chain claims and identities\<close>

definition usize_max :: nat where
  "usize_max = 2 ^ 64 - 1"

text \<open>\<open>usize::saturating_mul\<close> and \<open>usize::saturating_add\<close> on counts.\<close>

definition sat_mul_usize :: "nat \<Rightarrow> nat \<Rightarrow> nat" where
  "sat_mul_usize a b = min (a * b) usize_max"

definition sat_add_usize :: "nat \<Rightarrow> nat \<Rightarrow> nat" where
  "sat_add_usize a b = min (a + b) usize_max"

text \<open>\<open>u32::checked_sub\<close> and \<open>u32::saturating_sub\<close>.\<close>

definition checked_sub :: "'a::len word \<Rightarrow> 'a word \<Rightarrow> 'a word option" where
  [machine_int]: "checked_sub a b = (if b \<le> a then Some (a - b) else None)"

definition saturating_sub :: "'a::len word \<Rightarrow> 'a word \<Rightarrow> 'a word" where
  [machine_int]: "saturating_sub a b = (if b \<le> a then a - b else 0)"

lemma unat_sub_le: "(b::'a::len word) \<le> a \<Longrightarrow> unat (a - b) = unat a - unat b"
  by (rule unat_sub)

lemma unat_saturating_sub: "unat (saturating_sub a b) = unat a - unat b"
  by (auto simp: saturating_sub_def unat_sub_le word_le_nat_alt)

lemma checked_sub_Some:
  "checked_sub a b = Some c \<longleftrightarrow> b \<le> a \<and> c = a - b"
  by (auto simp: checked_sub_def)

lemma checked_sub_None: "checked_sub a b = None \<longleftrightarrow> a < b"
  by (auto simp: checked_sub_def)

lemma unat_checked_sub: "checked_sub a b = Some c \<Longrightarrow> unat c = unat a - unat b \<and> unat b \<le> unat a"
  by (auto simp: checked_sub_def unat_sub_le word_le_nat_alt split: if_splits)

lemma checked_sub_le: "checked_sub a b = Some c \<Longrightarrow> c \<le> a"
  by (auto simp: word_le_nat_alt dest: unat_checked_sub)

lemma checked_sub_mono:
  "a \<le> a' \<Longrightarrow> checked_sub a b = Some c \<Longrightarrow> \<exists>c'. checked_sub a' b = Some c' \<and> c \<le> c'"
  by (auto simp: checked_sub_def word_le_nat_alt unat_sub_le split: if_splits)

section \<open>Results\<close>

text \<open>\<open>Result<T, E>\<close> is a sum, \<open>Inl\<close> the error. \<open>?\<close> is \<open>rbind\<close>, \<open>map_err\<close> acts on the
  left, \<open>is_err\<close> and \<open>ok_or\<close> are as in the standard library.\<close>

definition rbind :: "'e + 'a \<Rightarrow> ('a \<Rightarrow> 'e + 'b) \<Rightarrow> 'e + 'b" where
  "rbind r f = (case r of Inl e \<Rightarrow> Inl e | Inr v \<Rightarrow> f v)"

definition map_ok :: "('a \<Rightarrow> 'b) \<Rightarrow> 'e + 'a \<Rightarrow> 'e + 'b" where
  "map_ok f r = (case r of Inl e \<Rightarrow> Inl e | Inr v \<Rightarrow> Inr (f v))"

definition map_err :: "('e \<Rightarrow> 'f) \<Rightarrow> 'e + 'a \<Rightarrow> 'f + 'a" where
  "map_err f r = (case r of Inl e \<Rightarrow> Inl (f e) | Inr v \<Rightarrow> Inr v)"

definition ok_or :: "'e \<Rightarrow> 'a option \<Rightarrow> 'e + 'a" where
  "ok_or e x = (case x of None \<Rightarrow> Inl e | Some v \<Rightarrow> Inr v)"

definition is_err :: "'e + 'a \<Rightarrow> bool" where
  "is_err r = (case r of Inl _ \<Rightarrow> True | Inr _ \<Rightarrow> False)"

lemma rbind_simps [simp]: "rbind (Inl e) f = Inl e" "rbind (Inr v) f = f v"
  by (simp_all add: rbind_def)

lemma map_ok_simps [simp]: "map_ok f (Inl e) = Inl e" "map_ok f (Inr v) = Inr (f v)"
  by (simp_all add: map_ok_def)

lemma map_err_simps [simp]: "map_err g (Inl e) = Inl (g e)" "map_err g (Inr v) = Inr v"
  by (simp_all add: map_err_def)

lemma ok_or_simps [simp]: "ok_or e None = Inl e" "ok_or e (Some v) = Inr v"
  by (simp_all add: ok_or_def)

lemma is_err_simps [simp]: "is_err (Inl e)" "\<not> is_err (Inr v)"
  by (simp_all add: is_err_def)

lemma rbind_Inr: "rbind r f = Inr v \<longleftrightarrow> (\<exists>x. r = Inr x \<and> f x = Inr v)"
  by (cases r) auto

lemma map_ok_Inr: "map_ok f r = Inr v \<longleftrightarrow> (\<exists>x. r = Inr x \<and> v = f x)"
  by (cases r) auto

lemma map_err_Inr: "map_err f r = Inr v \<longleftrightarrow> r = Inr v"
  by (cases r) auto

lemma ok_or_Inr: "ok_or e x = Inr v \<longleftrightarrow> x = Some v"
  by (cases x) auto

lemmas result_Inr = rbind_Inr map_ok_Inr map_err_Inr ok_or_Inr

text \<open>\<open>iter().map(f).collect::<Result<Vec<_>, _>>()\<close>: the first error wins.\<close>

fun collect_results :: "('a \<Rightarrow> 'e + 'b) \<Rightarrow> 'a list \<Rightarrow> 'e + 'b list" where
  "collect_results f [] = Inr []"
| "collect_results f (x # xs) =
     (case f x of Inl e \<Rightarrow> Inl e
      | Inr y \<Rightarrow> (case collect_results f xs of Inl e \<Rightarrow> Inl e | Inr ys \<Rightarrow> Inr (y # ys)))"

lemma collect_results_Inr:
  "collect_results f xs = Inr ys \<longleftrightarrow> list_all2 (\<lambda>x y. f x = Inr y) xs ys"
proof (induction xs arbitrary: ys)
  case (Cons x xs)
  show ?case
  proof (cases "collect_results f xs")
    case (Inl e)
    then have "\<not> list_all2 (\<lambda>x y. f x = Inr y) xs zs" for zs
      using Cons.IH [of zs] by simp
    with Inl show ?thesis by (auto simp: list_all2_Cons1 split: sum.splits)
  next
    case (Inr zs)
    then have "list_all2 (\<lambda>x y. f x = Inr y) xs us \<longleftrightarrow> us = zs" for us
      using Cons.IH [of us] by auto
    with Inr show ?thesis by (auto simp: list_all2_Cons1 split: sum.splits)
  qed
qed auto

lemma collect_results_length: "collect_results f xs = Inr ys \<Longrightarrow> length ys = length xs"
  by (auto simp: collect_results_Inr dest: list_all2_lengthD)

lemma collect_results_Inl:
  "collect_results f xs = Inl e \<Longrightarrow> \<exists>x \<in> set xs. f x = Inl e"
  by (induction xs) (auto split: sum.splits)

lemma collect_results_map: "(\<And>x. x \<in> set xs \<Longrightarrow> f x = Inr (g x)) \<Longrightarrow> collect_results f xs = Inr (map g xs)"
  by (induction xs) auto

section \<open>Keeping the first element of each key\<close>

text \<open>\<open>let mut seen = HashSet::new(); xs.retain(|x| seen.insert(key(x)))\<close>.\<close>

fun first_per_key :: "('a \<Rightarrow> 'k) \<Rightarrow> 'k list \<Rightarrow> 'a list \<Rightarrow> 'a list" where
  "first_per_key key seen [] = []"
| "first_per_key key seen (x # xs) =
     (if key x \<in> set seen then first_per_key key seen xs
      else x # first_per_key key (key x # seen) xs)"

definition dedup_by :: "('a \<Rightarrow> 'k) \<Rightarrow> 'a list \<Rightarrow> 'a list" where
  "dedup_by key xs = first_per_key key [] xs"

lemma first_per_key_keys:
  "key ` set (first_per_key key seen xs) = key ` set xs - set seen"
  by (induction xs arbitrary: seen) auto

lemma first_per_key_distinct: "distinct (map key (first_per_key key seen xs))"
proof (induction xs arbitrary: seen)
  case (Cons x xs)
  have "key x \<notin> key ` set (first_per_key key (key x # seen) xs)"
    by (simp add: first_per_key_keys)
  with Cons show ?case by auto
qed simp

lemma first_per_key_subset: "set (first_per_key key seen xs) \<subseteq> set xs"
  by (induction xs arbitrary: seen) auto

lemma first_per_key_sublist: "mset (first_per_key key seen xs) \<subseteq># mset xs"
proof (induction xs arbitrary: seen)
  case (Cons x xs)
  have "mset xs \<subseteq># mset (x # xs)" by simp
  with Cons.IH [of seen] Cons.IH [of "key x # seen"] show ?case
    by (auto intro: subset_mset.order_trans)
qed simp

lemma first_per_key_sorted:
  "sorted_wrt P xs \<Longrightarrow> sorted_wrt P (first_per_key key seen xs)"
  by (induction xs arbitrary: seen) (auto dest: first_per_key_subset [THEN subsetD])

lemma first_per_key_id:
  "distinct (map key xs) \<Longrightarrow> key ` set xs \<inter> set seen = {} \<Longrightarrow> first_per_key key seen xs = xs"
  by (induction xs arbitrary: seen) auto


lemma dedup_by_distinct: "distinct (map key (dedup_by key xs))"
  by (simp add: dedup_by_def first_per_key_distinct)

lemma dedup_by_keys [simp]: "key ` set (dedup_by key xs) = key ` set xs"
  by (simp add: dedup_by_def first_per_key_keys)

lemma dedup_by_subset: "set (dedup_by key xs) \<subseteq> set xs"
  by (simp add: dedup_by_def first_per_key_subset)

lemma dedup_by_length: "length (dedup_by key xs) = card (key ` set xs)"
  by (metis dedup_by_distinct dedup_by_keys distinct_card length_map list.set_map)

text \<open>On a list sorted by \<open>f\<close> the survivor of a key is a least one.\<close>

lemma first_per_key_least:
  assumes "sorted_wrt (\<lambda>x y. f x \<le> f y) xs" and "x \<in> set (first_per_key key seen xs)"
    and "y \<in> set xs" and "key x = key y"
  shows "f x \<le> (f y :: 'b::preorder)"
  using assms
proof (induction xs arbitrary: seen)
  case (Cons z xs)
  show ?case
  proof (cases "key z \<in> set seen")
    case True
    then have x: "x \<in> set (first_per_key key seen xs)" using Cons.prems(2) by simp
    have "key x \<notin> set seen" using x first_per_key_keys [of key seen xs] by blast
    with True Cons.prems(4) have "y \<noteq> z" by auto
    with Cons.IH [OF _ x] Cons.prems show ?thesis by simp
  next
    case False
    show ?thesis
    proof (cases "x = z")
      case True
      with Cons.prems(1,3) show ?thesis by auto
    next
      case x: False
      then have x: "x \<in> set (first_per_key key (key z # seen) xs)"
        using False Cons.prems(2) by simp
      then have "key x \<noteq> key z" using first_per_key_keys [of key "key z # seen" xs] by auto
      with Cons.prems(4) have "y \<noteq> z" by auto
      with Cons.IH [OF _ x] Cons.prems show ?thesis by simp
    qed
  qed
qed simp

lemma dedup_by_least:
  "sorted_wrt (\<lambda>x y. f x \<le> f y) xs \<Longrightarrow> x \<in> set (dedup_by key xs) \<Longrightarrow> y \<in> set xs \<Longrightarrow>
   key x = key y \<Longrightarrow> f x \<le> (f y :: 'b::preorder)"
  unfolding dedup_by_def by (rule first_per_key_least)

end
