(* ===== verification/Rust_Strings.thy ===== *)
theory Rust_Strings
  imports Prelude "HOL-Library.Char_ord" "HOL-Library.List_Lexorder"
begin

text \<open>
  The standard-library string operations the crate uses, on \<open>string\<close>. A \<open>char\<close> stands for
  one Unicode scalar value below 256, so that \<open>str::trim\<close>, which removes Unicode white
  space, is the removal of the eight such values that are white space. Third-party
  string code (the \<open>hex\<close> crate) is not here: it is a parameter of the functions that call it.
\<close>

section \<open>Trimming, case, prefixes\<close>

text \<open>\<open>char::is_whitespace\<close> below U+0100.\<close>

definition is_whitespace :: "char \<Rightarrow> bool" where
  "is_whitespace c \<longleftrightarrow>
     (let n = (of_char c :: nat) in (9 \<le> n \<and> n \<le> 13) \<or> n = 32 \<or> n = 133 \<or> n = 160)"

definition trim_start :: "string \<Rightarrow> string" where
  "trim_start s = dropWhile is_whitespace s"

definition trim :: "string \<Rightarrow> string" where
  "trim s = rev (dropWhile is_whitespace (rev (trim_start s)))"

text \<open>\<open>trim_end_matches(c)\<close> for a character.\<close>

definition trim_end_matches :: "char \<Rightarrow> string \<Rightarrow> string" where
  "trim_end_matches c s = rev (dropWhile (\<lambda>x. x = c) (rev s))"

definition to_ascii_lowercase_char :: "char \<Rightarrow> char" where
  "to_ascii_lowercase_char c =
     (let n = (of_char c :: nat) in if 65 \<le> n \<and> n \<le> 90 then char_of (n + 32) else c)"

definition to_ascii_lowercase :: "string \<Rightarrow> string" where
  "to_ascii_lowercase s = map to_ascii_lowercase_char s"

definition eq_ignore_ascii_case :: "string \<Rightarrow> string \<Rightarrow> bool" where
  "eq_ignore_ascii_case s t \<longleftrightarrow> to_ascii_lowercase s = to_ascii_lowercase t"

fun strip_prefix :: "string \<Rightarrow> string \<Rightarrow> string option" where
  "strip_prefix [] s = Some s"
| "strip_prefix (p # ps) [] = None"
| "strip_prefix (p # ps) (c # cs) = (if p = c then strip_prefix ps cs else None)"

fun str_contains :: "string \<Rightarrow> string \<Rightarrow> bool" where
  "str_contains [] pat = (pat = [])"
| "str_contains (c # cs) pat = (take (length pat) (c # cs) = pat \<or> str_contains cs pat)"

lemma strip_prefix_Some: "strip_prefix p s = Some t \<longleftrightarrow> s = p @ t"
  by (induction p s rule: strip_prefix.induct) auto

lemma eq_ignore_ascii_case_refl [simp]: "eq_ignore_ascii_case s s"
  by (simp add: eq_ignore_ascii_case_def)

lemma trim_no_lead: "trim s = c # cs \<Longrightarrow> \<not> is_whitespace c"
proof
  assume eq: "trim s = c # cs" and w: "is_whitespace c"
  let ?t = "dropWhile is_whitespace s"
  let ?d = "dropWhile is_whitespace (rev ?t)"
  have d: "rev ?d = c # cs" using eq by (simp add: trim_def trim_start_def)
  obtain pre where "rev ?t = pre @ ?d" by (metis takeWhile_dropWhile_id)
  then have "?t = rev ?d @ rev pre" by (metis rev_append rev_rev_ident)
  then have "?t = c # cs @ rev pre" using d by simp
  then have "\<not> is_whitespace c" by (metis dropWhile_eq_Cons_conv)
  with w show False by simp
qed

text \<open>What evaluates these functions on a literal.\<close>

lemmas string_eval = trim_def trim_start_def is_whitespace_def to_ascii_lowercase_def
  to_ascii_lowercase_char_def char_of_def bit_Suc_0_iff

section \<open>Decimal rendering\<close>

text \<open>\<open>u32::to_string\<close>, \<open>u64::to_string\<close> and \<open>{}\<close> of an unsigned integer.\<close>

definition digit_char :: "nat \<Rightarrow> char" where
  "digit_char d = char_of (48 + d)"

fun dec :: "nat \<Rightarrow> string" where
  "dec n = (if n < 10 then [digit_char n] else dec (n div 10) @ [digit_char (n mod 10)])"

declare dec.simps [simp del]

abbreviation show_word :: "'a::len word \<Rightarrow> string" where
  "show_word w \<equiv> dec (unat w)"

definition is_digit :: "char \<Rightarrow> bool" where
  "is_digit c \<longleftrightarrow> (48::nat) \<le> of_char c \<and> of_char c \<le> (57::nat)"

lemma of_digit_char: "d < 10 \<Longrightarrow> (of_char (digit_char d) :: nat) = 48 + d"
  by (simp add: digit_char_def)

lemma is_digit_digit_char: "d < 10 \<Longrightarrow> is_digit (digit_char d)"
  by (simp add: is_digit_def of_digit_char)

lemma digit_char_inj: "d < 10 \<Longrightarrow> e < 10 \<Longrightarrow> digit_char d = digit_char e \<longleftrightarrow> d = e"
  by (metis add_left_imp_eq of_digit_char)

lemma dec_nonempty [simp]: "dec n \<noteq> []" "[] \<noteq> dec n"
  by (subst dec.simps, simp)+

lemma dec_digits: "c \<in> set (dec n) \<Longrightarrow> is_digit c"
proof (induction n rule: dec.induct)
  case (1 n)
  then show ?case
    by (cases "n < 10") (auto simp: dec.simps [of n] is_digit_digit_char)
qed

lemma dec_inj: "dec m = dec n \<Longrightarrow> m = n"
proof (induction m arbitrary: n rule: dec.induct)
  case (1 m)
  show ?case
  proof (cases "m < 10")
    case True
    show ?thesis
    proof (cases "n < 10")
      case True
      with \<open>m < 10\<close> "1.prems" show ?thesis by (simp add: dec.simps digit_char_inj)
    next
      case False
      with \<open>m < 10\<close> "1.prems" show ?thesis
        by (simp add: dec.simps [of m] dec.simps [of n])
    qed
  next
    case False
    have "\<not> n < 10"
    proof
      assume "n < 10"
      with False "1.prems" show False
        by (simp add: dec.simps [of m] dec.simps [of n])
    qed
    with False "1.prems" have "dec (m div 10) = dec (n div 10)" "m mod 10 = n mod 10"
      by (simp_all add: dec.simps [of m] dec.simps [of n] digit_char_inj)
    with "1.IH" [OF False] have "m div 10 = n div 10" by simp
    with \<open>m mod 10 = n mod 10\<close> show ?thesis by (metis div_mult_mod_eq)
  qed
qed

lemma dec_eq_iff [simp]: "dec m = dec n \<longleftrightarrow> m = n"
  by (auto dest: dec_inj)

lemma show_word_inj: "show_word (a::'a::len word) = show_word b \<Longrightarrow> a = b"
  by (simp add: word_unat_eq_iff)

section \<open>Delimited fields\<close>

text \<open>
  The format strings of the claims put the fields of a record between delimiters that no
  field contains, so a rendering can be read back from left to right.
\<close>

lemma delim_eq:
  assumes "a @ d # x = b @ d # y" and "d \<notin> set a" and "d \<notin> set b"
  shows "a = b \<and> x = y"
  using assms
proof (induction a arbitrary: b)
  case Nil
  then show ?case by (cases b) auto
next
  case (Cons c cs)
  then show ?case by (cases b) auto
qed

lemma delim_end_eq:
  assumes "a @ [d] = b @ [d]"
  shows "a = b"
  using assms by simp

lemma not_digit [simp]:
  "CHR '','' \<notin> set (dec n)" "CHR '':'' \<notin> set (dec n)" "CHR '')'' \<notin> set (dec n)"
  "CHR '' '' \<notin> set (dec n)" "CHR ''.'' \<notin> set (dec n)" "CHR ''n'' \<notin> set (dec n)"
  by (auto dest: dec_digits simp: is_digit_def)

end
