(* ===== verification/Net_Addr.thy ===== *)
theory Net_Addr
  imports Rust_Strings
begin

text \<open>
  Socket addresses as the standard library has them (octets, segments, IPv4-mapped
  addresses, \<open>Display\<close>), and the two judgements the crate makes of an address:
  \<open>is_host_local\<close> (\<open>src/peer/connect.rs\<close>) and \<open>SubnetKey\<close> (\<open>src/peer/pool.rs\<close>).
\<close>

section \<open>Addresses\<close>

datatype ip_addr = V4 "32 word" | V6 "128 word"

record socket_addr =
  ip :: ip_addr
  port :: u16

definition octets4 :: "32 word \<Rightarrow> u8 list" where
  "octets4 w = map (\<lambda>i. ucast (drop_bit (24 - 8 * i) w)) [0..<4]"

definition octets6 :: "128 word \<Rightarrow> u8 list" where
  "octets6 w = map (\<lambda>i. ucast (drop_bit (120 - 8 * i) w)) [0..<16]"

definition segments :: "128 word \<Rightarrow> u16 list" where
  "segments w = map (\<lambda>i. ucast (drop_bit (112 - 16 * i) w)) [0..<8]"

definition is_ipv6 :: "socket_addr \<Rightarrow> bool" where
  "is_ipv6 a = (case ip a of V6 _ \<Rightarrow> True | V4 _ \<Rightarrow> False)"

text \<open>\<open>::ffff:a.b.c.d\<close>.\<close>

definition to_ipv4_mapped :: "128 word \<Rightarrow> 32 word option" where
  "to_ipv4_mapped w = (if drop_bit 32 w = 0xFFFF then Some (ucast w) else None)"

definition to_ipv6_mapped :: "32 word \<Rightarrow> 128 word" where
  "to_ipv6_mapped v = push_bit 32 0xFFFF + ucast v"

section \<open>Rendering\<close>

definition show_v4 :: "32 word \<Rightarrow> string" where
  "show_v4 w = (case octets4 w of
     [a, b, c, d] \<Rightarrow> show_word a @ ''.'' @ show_word b @ ''.'' @ show_word c @ ''.'' @ show_word d
   | _ \<Rightarrow> [])"

definition hex_digit :: "nat \<Rightarrow> char" where
  "hex_digit d = (if d < 10 then char_of (48 + d) else char_of (87 + d))"

fun hex_nat :: "nat \<Rightarrow> string" where
  "hex_nat n = (if n < 16 then [hex_digit n] else hex_nat (n div 16) @ [hex_digit (n mod 16)])"

declare hex_nat.simps [simp del]

fun sep_by :: "string \<Rightarrow> string list \<Rightarrow> string" where
  "sep_by s [] = []"
| "sep_by s [x] = x"
| "sep_by s (x # y # ys) = x @ s @ sep_by s (y # ys)"

text \<open>The first longest run of zero segments, as (start, length).\<close>

fun zero_run :: "nat \<Rightarrow> u16 list \<Rightarrow> nat \<times> nat \<Rightarrow> nat \<times> nat \<Rightarrow> nat \<times> nat" where
  "zero_run i [] cur best = (if snd best < snd cur then cur else best)"
| "zero_run i (x # xs) (s, l) best =
     (if x = 0 then zero_run (Suc i) xs (if l = 0 then (i, 1) else (s, Suc l)) best
      else zero_run (Suc i) xs (0, 0) (if snd best < l then (s, l) else best))"

definition show_v6 :: "128 word \<Rightarrow> string" where
  "show_v6 w = (case to_ipv4_mapped w of
      Some v \<Rightarrow> ''::ffff:'' @ show_v4 v
    | None \<Rightarrow>
       (let segs = segments w;
            txt = map (\<lambda>x. hex_nat (unat x)) segs;
            (s, l) = zero_run 0 segs (0, 0) (0, 0)
        in if 1 < l then sep_by '':'' (take s txt) @ ''::'' @ sep_by '':'' (drop (s + l) txt)
           else sep_by '':'' txt))"

definition show_addr :: "socket_addr \<Rightarrow> string" where
  "show_addr a = (case ip a of
     V4 v \<Rightarrow> show_v4 v @ '':'' @ show_word (port a)
   | V6 w \<Rightarrow> ''['' @ show_v6 w @ '']:'' @ show_word (port a))"

section \<open>Local addresses\<close>

definition v4_local :: "32 word \<Rightarrow> bool" where
  "v4_local v =
     (let a = octets4 v ! 0; b = octets4 v ! 1
      in a = 127
       \<or> (a = 10 \<or> (a = 172 \<and> 16 \<le> b \<and> b \<le> 31) \<or> (a = 192 \<and> b = 168))
       \<or> (a = 169 \<and> b = 254)
       \<or> v = 0
       \<or> v = 0xFFFFFFFF)"

unbundle bit_operations_syntax

definition v6_local :: "128 word \<Rightarrow> bool" where
  "v6_local w =
     (let s0 = segments w ! 0
      in w = 1 \<or> w = 0 \<or> s0 AND 0xFE00 = 0xFC00 \<or> s0 AND 0xFFC0 = 0xFE80)"

definition canonical_ip :: "ip_addr \<Rightarrow> ip_addr" where
  "canonical_ip i = (case i of
     V6 w \<Rightarrow> (case to_ipv4_mapped w of Some v \<Rightarrow> V4 v | None \<Rightarrow> V6 w)
   | V4 v \<Rightarrow> V4 v)"

definition is_host_local :: "socket_addr \<Rightarrow> bool" where
  "is_host_local a = (case canonical_ip (ip a) of V4 v \<Rightarrow> v4_local v | V6 w \<Rightarrow> v6_local w)"

section \<open>Routing prefixes\<close>

datatype subnet_key = SubnetV4 "u8 list" | SubnetV6 "u8 list"

definition subnet_of :: "socket_addr \<Rightarrow> subnet_key" where
  "subnet_of a = (case ip a of
     V4 v \<Rightarrow> SubnetV4 (take 3 (octets4 v))
   | V6 w \<Rightarrow> SubnetV6 (take 6 (octets6 w)))"

section \<open>Facts\<close>

lemma octets4_eq:
  "octets4 w = [ucast (drop_bit 24 w), ucast (drop_bit 16 w), ucast (drop_bit 8 w), ucast w]"
  by (simp add: octets4_def upt_rec)

lemma mapped_roundtrip: "to_ipv4_mapped (to_ipv6_mapped v) = Some v"
proof -
  have u: "unat (to_ipv6_mapped v) = 0xFFFF * 2 ^ 32 + unat v"
  proof -
    have "unat v < 2 ^ 32" using unsigned_less [of v] by simp
    then have "unat (ucast v :: 128 word) = unat v"
      by (simp add: unsigned_ucast_eq take_bit_nat_eq_self)
    moreover have "unat (push_bit 32 0xFFFF :: 128 word) = 0xFFFF * 2 ^ 32" by simp
    ultimately show ?thesis
      using \<open>unat v < 2 ^ 32\<close> by (simp add: to_ipv6_mapped_def unat_word_ariths)
  qed
  have lt: "unat v < 4294967296" using unsigned_less [of v] by simp
  have "unat (drop_bit 32 (to_ipv6_mapped v)) = 0xFFFF"
    using lt by (simp add: drop_bit_eq_div unat_div u)
  then have "drop_bit 32 (to_ipv6_mapped v) = (0xFFFF :: 128 word)"
    by (simp add: word_unat_eq_iff)
  moreover have "ucast (to_ipv6_mapped v) = v"
  proof -
    have "unat (ucast (to_ipv6_mapped v) :: 32 word) = unat v"
      using lt mod_mult_self3 [of "65535::nat" "4294967296" "unat v"]
      by (simp add: unsigned_ucast_eq u take_bit_eq_mod)
    then show ?thesis by (simp add: word_unat_eq_iff)
  qed
  ultimately show ?thesis by (simp add: to_ipv4_mapped_def)
qed

lemma host_local_mapped:
  "is_host_local \<lparr>ip = V6 (to_ipv6_mapped v), port = p\<rparr> = is_host_local \<lparr>ip = V4 v, port = q\<rparr>"
  by (simp add: is_host_local_def canonical_ip_def mapped_roundtrip)

end
