(* ===== verification/Ordered_Map.thy ===== *)
theory Ordered_Map
  imports Prelude
begin

text \<open>
  \<open>BTreeMap\<close> as the crate uses it: insertion, lookup, removal, iteration in key order and
  \<open>collect()\<close> from an iterator of pairs. A map is its list of entries in strictly ascending
  key order. The interface the clients rely on is the locale \<open>ordered_map\<close>; the functions
  here are its interpretation.
\<close>

lemma entries_by_keys:
  assumes "map fst xs = map fst ys" and "distinct (map fst xs)" and "map_of xs = map_of ys"
  shows "xs = ys"
  using assms
proof (induction xs arbitrary: ys)
  case (Cons p xs)
  obtain k v where p: "p = (k, v)" by (cases p)
  with Cons.prems(1) obtain w zs where ys: "ys = (k, w) # zs" and keys: "map fst xs = map fst zs"
    by auto
  have "v = w" using Cons.prems(3) by (simp add: p ys) (metis fun_upd_eqD option.inject)
  moreover have "map_of xs = map_of zs"
  proof
    fix x
    have "map_of xs k = None" and "map_of zs k = None"
      using Cons.prems(2) keys by (auto simp: p map_of_eq_None_iff simp flip: set_map)
    then show "map_of xs x = map_of zs x"
      using fun_cong [OF Cons.prems(3), of x] by (cases "x = k") (simp_all add: p ys)
  qed
  ultimately show ?case using Cons.IH [OF keys] Cons.prems(2) by (simp add: p ys)
qed simp

section \<open>The interface\<close>

locale ordered_map =
  fixes empty :: "'m"
    and insert :: "'k::linorder \<Rightarrow> 'v \<Rightarrow> 'm \<Rightarrow> 'm"
    and get :: "'m \<Rightarrow> 'k \<Rightarrow> 'v option"
    and entries :: "'m \<Rightarrow> ('k \<times> 'v) list"
    and inv :: "'m \<Rightarrow> bool"
  assumes inv_empty: "inv empty"
    and inv_insert: "inv m \<Longrightarrow> inv (insert k v m)"
    and get_empty: "get empty k = None"
    and get_insert: "inv m \<Longrightarrow> get (insert k v m) = (get m)(k := Some v)"
    and get_entries: "inv m \<Longrightarrow> get m k = map_of (entries m) k"
    and entries_sorted: "inv m \<Longrightarrow> sorted_wrt (<) (map fst (entries m))"
    and entries_inj: "inv m \<Longrightarrow> inv n \<Longrightarrow> entries m = entries n \<Longrightarrow> m = n"
begin

lemma entries_distinct: "inv m \<Longrightarrow> distinct (map fst (entries m))"
  by (metis entries_sorted strict_sorted_iff)

lemma entries_iff: "inv m \<Longrightarrow> (k, v) \<in> set (entries m) \<longleftrightarrow> get m k = Some v"
  by (simp add: get_entries entries_distinct)

text \<open>Two maps with the same lookups are the same map: the iteration order is a function of
  the contents, never of the order of insertion.\<close>

lemma get_ext:
  assumes "inv m" "inv n" "get m = get n"
  shows "m = n"
proof -
  have sets: "set (entries m) = set (entries n)"
    using assms by (auto simp: entries_iff)
  then have "set (map fst (entries m)) = set (map fst (entries n))" by simp
  then have keys: "map fst (entries m) = map fst (entries n)"
    using assms by (intro strict_sorted_equal entries_sorted) auto
  have "entries m = entries n"
  proof (rule entries_by_keys)
    show "map fst (entries m) = map fst (entries n)" by (rule keys)
    show "distinct (map fst (entries m))" using assms by (simp add: entries_distinct)
    show "map_of (entries m) = map_of (entries n)"
      using assms get_entries [of m] get_entries [of n] by (simp add: fun_eq_iff)
  qed
  then show ?thesis using assms entries_inj by blast
qed

lemma inv_collect: "inv m \<Longrightarrow> inv (fold (\<lambda>(k, v). insert k v) kvs m)"
  by (induction kvs arbitrary: m) (auto simp: inv_insert)

text \<open>\<open>collect()\<close> keeps the \<^emph>\<open>last\<close> pair of each key.\<close>

lemma get_fold:
  "inv m \<Longrightarrow> get (fold (\<lambda>(k, v). insert k v) kvs m) k =
     (case map_of (rev kvs) k of None \<Rightarrow> get m k | Some v \<Rightarrow> Some v)"
proof (induction kvs arbitrary: m)
  case (Cons p kvs)
  obtain a b where p: "p = (a, b)" by (cases p)
  show ?case
    using Cons.IH [OF inv_insert [OF Cons.prems], of a b]
    by (auto simp: p get_insert Cons.prems map_add_def split: option.splits)
qed simp

lemma get_collect: "get (fold (\<lambda>(k, v). insert k v) kvs empty) k = map_of (rev kvs) k"
  by (simp add: get_fold inv_empty get_empty split: option.splits)

lemma collect_eq_iff:
  "fold (\<lambda>(k, v). insert k v) kvs empty = fold (\<lambda>(k, v). insert k v) lvs empty \<longleftrightarrow>
     map_of (rev kvs) = map_of (rev lvs)"
proof
  assume "map_of (rev kvs) = map_of (rev lvs)"
  then show "fold (\<lambda>(k, v). insert k v) kvs empty = fold (\<lambda>(k, v). insert k v) lvs empty"
    by (intro get_ext inv_collect inv_empty) (simp add: fun_eq_iff get_collect)
qed (metis get_collect ext)

lemma collect_mset_eq:
  assumes "distinct (map fst kvs)" and "mset kvs = mset lvs"
  shows "fold (\<lambda>(k, v). insert k v) kvs empty = fold (\<lambda>(k, v). insert k v) lvs empty"
proof -
  have "mset (map fst kvs) = mset (map fst lvs)"
    using assms(2) by simp
  then have "distinct (map fst lvs)"
    using assms(1) mset_eq_imp_distinct_iff by blast
  moreover have "set kvs = set lvs" using assms(2) by (rule mset_eq_setD)
  ultimately have "map_of (rev kvs) = map_of (rev lvs)"
    using assms(1) by (intro map_of_eqI) (auto simp: rev_map [symmetric] dest: map_of_SomeD)
  then show ?thesis by (simp add: collect_eq_iff)
qed

end

section \<open>Entry lists in key order\<close>

type_synonym ('k, 'v) btree_map = "('k \<times> 'v) list"

definition bt_empty :: "('k, 'v) btree_map" where
  "bt_empty = []"

fun bt_insert :: "'k::linorder \<Rightarrow> 'v \<Rightarrow> ('k, 'v) btree_map \<Rightarrow> ('k, 'v) btree_map" where
  "bt_insert k v [] = [(k, v)]"
| "bt_insert k v ((a, b) # m) =
     (if k < a then (k, v) # (a, b) # m
      else if k = a then (a, v) # m
      else (a, b) # bt_insert k v m)"

definition bt_get :: "('k, 'v) btree_map \<Rightarrow> 'k \<Rightarrow> 'v option" where
  "bt_get m k = map_of m k"

definition bt_remove :: "'k \<Rightarrow> ('k, 'v) btree_map \<Rightarrow> ('k, 'v) btree_map" where
  "bt_remove k m = filter (\<lambda>p. fst p \<noteq> k) m"

definition bt_contains_key :: "('k, 'v) btree_map \<Rightarrow> 'k \<Rightarrow> bool" where
  "bt_contains_key m k \<longleftrightarrow> bt_get m k \<noteq> None"

definition bt_inv :: "('k::linorder, 'v) btree_map \<Rightarrow> bool" where
  "bt_inv m \<longleftrightarrow> sorted_wrt (<) (map fst m)"

definition bt_collect :: "('k::linorder \<times> 'v) list \<Rightarrow> ('k, 'v) btree_map" where
  "bt_collect kvs = fold (\<lambda>(k, v). bt_insert k v) kvs bt_empty"

lemma bt_insert_keys: "fst ` set (bt_insert k v m) = Set.insert k (fst ` set m)"
  by (induction k v m rule: bt_insert.induct) auto

lemma bt_inv_insert: "bt_inv m \<Longrightarrow> bt_inv (bt_insert k v m)"
  unfolding bt_inv_def
proof (induction k v m rule: bt_insert.induct)
  case (2 k v a b m)
  then show ?case
    using bt_insert_keys [of k v m] by (auto simp: image_iff)
qed simp

lemma bt_get_insert: "bt_inv m \<Longrightarrow> bt_get (bt_insert k v m) = (bt_get m)(k := Some v)"
  unfolding bt_inv_def bt_get_def
  by (induction k v m rule: bt_insert.induct) (auto simp: fun_eq_iff)

interpretation btree: ordered_map bt_empty bt_insert bt_get "\<lambda>m. m" bt_inv
  by unfold_locales
    (auto simp: bt_inv_insert bt_get_insert,
     auto simp: bt_inv_def bt_empty_def bt_get_def)

lemma bt_collect_inv: "bt_inv (bt_collect kvs)"
  unfolding bt_collect_def by (rule btree.inv_collect [OF btree.inv_empty])

lemma bt_get_collect: "bt_get (bt_collect kvs) k = map_of (rev kvs) k"
  unfolding bt_collect_def by (rule btree.get_collect)

lemma bt_collect_eq_iff: "bt_collect kvs = bt_collect lvs \<longleftrightarrow> map_of (rev kvs) = map_of (rev lvs)"
  unfolding bt_collect_def by (rule btree.collect_eq_iff)

lemma bt_collect_mset_eq:
  "distinct (map fst kvs) \<Longrightarrow> mset kvs = mset lvs \<Longrightarrow> bt_collect kvs = bt_collect lvs"
  unfolding bt_collect_def by (rule btree.collect_mset_eq)

lemma bt_collect_set: "set (bt_collect kvs) \<subseteq> set kvs"
proof
  fix p assume "p \<in> set (bt_collect kvs)"
  then have "bt_get (bt_collect kvs) (fst p) = Some (snd p)"
    using btree.entries_iff [OF bt_collect_inv, of "fst p" "snd p" kvs] by simp
  then show "p \<in> set kvs" by (auto simp: bt_get_collect dest: map_of_SomeD)
qed

lemma bt_remove_inv: "bt_inv m \<Longrightarrow> bt_inv (bt_remove k m)"
  unfolding bt_inv_def bt_remove_def
  by (induction m) auto

lemma bt_get_remove: "bt_get (bt_remove k m) = (bt_get m)(k := None)"
  unfolding bt_get_def bt_remove_def by (induction m) (auto simp: fun_eq_iff)

end
