(* ===== verification/Types.thy ===== *)
theory Types
  imports Rust_Strings Ordered_Map
begin

text \<open>
  The crate's own data (\<open>src/types/\<close>): the records of \<open>response.rs\<close>, the error type of
  \<open>error.rs\<close> with its rendering, and the chain claims of \<open>chain_claim.rs\<close>, the strings two
  sources are compared on. Field names carry a short prefix of their struct.
\<close>

section \<open>JSON values\<close>

text \<open>\<open>serde_json::Value\<close>. An object is a \<open>BTreeMap\<close> (the crate does not enable
  \<open>preserve_order\<close>). A number that is an \<open>i64\<close> or a \<open>u64\<close> is its value; any other is a float, its
  bit pattern.\<close>

datatype json =
    JNull
  | JBool bool
  | JNumber int
  | JFloat u64
  | JString string
  | JArray "json list"
  | JObject "(string \<times> json) list"

definition json_get :: "json \<Rightarrow> string \<Rightarrow> json option" where
  "json_get j k = (case j of JObject m \<Rightarrow> bt_get m k | _ \<Rightarrow> None)"

definition as_str :: "json \<Rightarrow> string option" where
  "as_str j = (case j of JString s \<Rightarrow> Some s | _ \<Rightarrow> None)"

definition as_bool :: "json \<Rightarrow> bool option" where
  "as_bool j = (case j of JBool b \<Rightarrow> Some b | _ \<Rightarrow> None)"

definition as_u64 :: "json \<Rightarrow> u64 option" where
  "as_u64 j = (case j of JNumber n \<Rightarrow> if 0 \<le> n \<and> n < 2 ^ 64 then Some (word_of_int n) else None
               | _ \<Rightarrow> None)"

section \<open>Coins, spends and blocks\<close>

record coin =
  parent_coin_info :: string
  puzzle_hash :: string
  amount :: u64

record coin_record =
  cr_coin :: coin
  confirmed_block_index :: u32
  spent_block_index :: u32
  spent :: bool
  coinbase :: bool
  cr_timestamp :: u64

record coin_spend =
  cs_coin :: coin
  puzzle_reveal :: string
  solution :: string

record condition =
  opcode :: json
  vars :: "string list"

record coin_spend_with_conditions =
  cond_spend :: coin_spend
  conditions :: "condition list"

record spend_bundle =
  coin_spends :: "coin_spend list"
  aggregated_signature :: string

record additions_and_removals =
  additions :: "coin_record list"
  removals :: "coin_record list"

record block_record =
  br_header_hash :: string
  br_height :: u32
  br_weight :: u64
  br_prev_hash :: string
  br_total_iters :: u64
  br_signage_point_index :: u8
  br_farmer_puzzle_hash :: string
  br_pool_puzzle_hash :: string
  br_timestamp :: "u64 option"
  br_fees :: "u64 option"
  br_extra :: json

record sync_state =
  sync_mode :: bool
  sync_progress_height :: u32
  sync_tip_height :: u32
  synced :: bool

record network_info =
  network_name :: string
  network_prefix :: string
  ni_genesis_challenge :: string

section \<open>Transaction status\<close>

datatype mempool_inclusion = Admitted | NotAdmitted | Failed | Unknown

definition is_admitted :: "mempool_inclusion \<Rightarrow> bool" where
  "is_admitted i = (case i of Admitted \<Rightarrow> True | _ \<Rightarrow> False)"

record tx_status =
  tx_label :: string
  tx_success :: bool
  tx_inclusion :: mempool_inclusion
  tx_error :: "string option"

section \<open>Errors\<close>

datatype chia_query_error =
    PeerRejection string
  | PeerConnection string
  | AllSourcesFailed chia_query_error "chia_query_error option"
  | CoinsetApiError string
  | CoinsetHttp string
  | UnsupportedWithoutCoinset string
  | InvalidRequest string
  | TlsError string
  | PeerDiscoveryFailed
  | UncorroboratedAbsence string
  | UncorroboratedPresence string
  | SourcesDisagree string

type_synonym 'a query = "chia_query_error + 'a"

text \<open>\<open>Display\<close>, as the \<open>thiserror\<close> attributes spell it.\<close>

fun error_to_string :: "chia_query_error \<Rightarrow> string" where
  "error_to_string (PeerRejection s) = ''peer rejected request: '' @ s"
| "error_to_string (PeerConnection s) = ''peer connection error: '' @ s"
| "error_to_string (AllSourcesFailed p c) =
     ''all sources failed (peer: '' @ error_to_string p @ ''; coinset: '' @
     (case c of None \<Rightarrow> ''not attempted'' | Some e \<Rightarrow> error_to_string e) @ '')''"
| "error_to_string (CoinsetApiError s) = ''coinset API error: '' @ s"
| "error_to_string (CoinsetHttp s) = ''coinset HTTP error: '' @ s"
| "error_to_string (UnsupportedWithoutCoinset s) = ''not supported without coinset: '' @ s"
| "error_to_string (InvalidRequest s) = ''invalid request: '' @ s"
| "error_to_string (TlsError s) = ''TLS error: '' @ s"
| "error_to_string PeerDiscoveryFailed =
     ''peer discovery failed: no peers found via DNS introducers''"
| "error_to_string (UncorroboratedAbsence s) = ''absence could not be corroborated: '' @ s"
| "error_to_string (UncorroboratedPresence s) = ''presence could not be corroborated: '' @ s"
| "error_to_string (SourcesDisagree s) = ''sources disagree: '' @ s"

text \<open>The errors that say a question could not be settled, as opposed to a source failing.\<close>

definition is_unsettled :: "chia_query_error \<Rightarrow> bool" where
  "is_unsettled e = (case e of UncorroboratedAbsence _ \<Rightarrow> True | UncorroboratedPresence _ \<Rightarrow> True
     | SourcesDisagree _ \<Rightarrow> True | _ \<Rightarrow> False)"

section \<open>Chain claims\<close>

definition chain_claim_record :: "coin_record \<Rightarrow> string" where
  "chain_claim_record r =
     ''coin('' @ parent_coin_info (cr_coin r) @ '','' @ puzzle_hash (cr_coin r) @ '','' @
     show_word (amount (cr_coin r)) @ '') created='' @ show_word (confirmed_block_index r) @
     '' spent='' @ (if spent r then show_word (spent_block_index r) else ''no'')"

definition chain_claim_spend :: "coin_spend \<Rightarrow> string" where
  "chain_claim_spend s =
     ''spend('' @ parent_coin_info (cs_coin s) @ '','' @ puzzle_hash (cs_coin s) @ '','' @
     show_word (amount (cs_coin s)) @ '') puzzle='' @ puzzle_reveal s @
     '' solution='' @ solution s"

definition chain_claim_block :: "block_record \<Rightarrow> string" where
  "chain_claim_block b =
     ''block('' @ show_word (br_height b) @ '','' @ br_header_hash b @ '') timestamp='' @
     (case br_timestamp b of None \<Rightarrow> ''none'' | Some t \<Rightarrow> show_word t)"

text \<open>What a claim determines. A rendering can be read back whenever no field contains the
  delimiter that ends it; a hex string contains none of them.\<close>

definition plain_field :: "string \<Rightarrow> bool" where
  "plain_field s \<longleftrightarrow> CHR '','' \<notin> set s \<and> CHR '')'' \<notin> set s \<and> CHR '' '' \<notin> set s \<and>
     CHR '':'' \<notin> set s"

definition plain_coin :: "coin \<Rightarrow> bool" where
  "plain_coin c \<longleftrightarrow> plain_field (parent_coin_info c) \<and> plain_field (puzzle_hash c)"

definition spent_at :: "coin_record \<Rightarrow> u32 option" where
  "spent_at r = (if spent r then Some (spent_block_index r) else None)"

lemma coin_fields_eq:
  assumes "plain_coin c" "plain_coin d"
  shows "parent_coin_info c @ CHR '','' # puzzle_hash c @ CHR '','' # show_word (amount c) @ CHR '')'' # x =
         parent_coin_info d @ CHR '','' # puzzle_hash d @ CHR '','' # show_word (amount d) @ CHR '')'' # y
         \<longleftrightarrow> c = d \<and> x = y" (is "?l = ?r \<longleftrightarrow> _")
proof
  assume "?l = ?r"
  then have p: "parent_coin_info c = parent_coin_info d"
    and r1: "puzzle_hash c @ CHR '','' # show_word (amount c) @ CHR '')'' # x =
             puzzle_hash d @ CHR '','' # show_word (amount d) @ CHR '')'' # y"
    using assms by (auto simp: plain_coin_def plain_field_def dest!: delim_eq)
  from r1 have h: "puzzle_hash c = puzzle_hash d"
    and r2: "show_word (amount c) @ CHR '')'' # x = show_word (amount d) @ CHR '')'' # y"
    using assms by (auto simp: plain_coin_def plain_field_def dest!: delim_eq)
  from r2 have "amount c = amount d" "x = y"
    by (auto dest!: delim_eq intro: show_word_inj)
  with p h show "c = d \<and> x = y" by simp
qed simp

lemma dec_no: "dec n \<noteq> ''no''" "dec n \<noteq> ''none''"
proof -
  have "CHR ''n'' \<notin> set (dec n)" by simp
  then show "dec n \<noteq> ''no''" "dec n \<noteq> ''none''" by (metis list.set_intros(1))+
qed

lemma record_claim_eq:
  assumes "plain_coin (cr_coin r)" "plain_coin (cr_coin s)"
  shows "chain_claim_record r = chain_claim_record s \<longleftrightarrow>
    cr_coin r = cr_coin s \<and> confirmed_block_index r = confirmed_block_index s \<and>
    spent_at r = spent_at s"
proof -
  let ?t = "\<lambda>r. show_word (confirmed_block_index r) @ CHR '' '' # ''spent='' @
    (if spent r then show_word (spent_block_index r) else ''no'')"
  have "chain_claim_record r = chain_claim_record s \<longleftrightarrow> cr_coin r = cr_coin s \<and> ?t r = ?t s"
    using coin_fields_eq [OF assms, of "'' created='' @ ?t r" "'' created='' @ ?t s"]
    by (simp add: chain_claim_record_def)
  also have "?t r = ?t s \<longleftrightarrow> confirmed_block_index r = confirmed_block_index s \<and>
      (if spent r then show_word (spent_block_index r) else ''no'') =
      (if spent s then show_word (spent_block_index s) else ''no'')"
    by (auto dest!: delim_eq intro: show_word_inj)
  also have "\<dots> \<longleftrightarrow> confirmed_block_index r = confirmed_block_index s \<and> spent_at r = spent_at s"
    by (auto simp: spent_at_def dec_no dec_no [symmetric] word_unat_eq_iff)
  finally show ?thesis .
qed

lemma block_claim_eq:
  assumes "plain_field (br_header_hash a)" "plain_field (br_header_hash b)"
  shows "chain_claim_block a = chain_claim_block b \<longleftrightarrow>
    br_height a = br_height b \<and> br_header_hash a = br_header_hash b \<and>
    br_timestamp a = br_timestamp b"
proof -
  let ?t = "\<lambda>b. case br_timestamp b of None \<Rightarrow> ''none'' | Some t \<Rightarrow> show_word t"
  let ?l = "\<lambda>b. show_word (br_height b) @ CHR '','' # br_header_hash b @ CHR '')'' # '' timestamp='' @ ?t b"
  have "chain_claim_block a = chain_claim_block b \<longleftrightarrow> ?l a = ?l b"
    by (simp add: chain_claim_block_def)
  also have "\<dots> \<longleftrightarrow> br_height a = br_height b \<and> br_header_hash a = br_header_hash b \<and> ?t a = ?t b"
    using assms by (auto simp: plain_field_def dest!: delim_eq intro: show_word_inj)
  also have "?t a = ?t b \<longleftrightarrow> br_timestamp a = br_timestamp b"
    by (auto simp: dec_no dec_no [symmetric] word_unat_eq_iff split: option.splits)
  finally show ?thesis .
qed

section \<open>Properties\<close>

text \<open>Two coin records make the same chain claim exactly when they name the same coin, the
  same created height and the same spend (the height, or that there is none). Nothing else on
  the record - the timestamp and the coinbase flag, which a peer cannot supply - takes part.
  The fields of the coin must not contain the claim's delimiters, which hex strings never do.\<close>

theorem record_claim_compares_chain_state:
  assumes "plain_coin (cr_coin r)" "plain_coin (cr_coin s)"
  shows "chain_claim_record r = chain_claim_record s \<longleftrightarrow>
    (parent_coin_info (cr_coin r), puzzle_hash (cr_coin r), amount (cr_coin r)) =
      (parent_coin_info (cr_coin s), puzzle_hash (cr_coin s), amount (cr_coin s)) \<and>
    confirmed_block_index r = confirmed_block_index s \<and>
    spent r = spent s \<and> (spent r \<longrightarrow> spent_block_index r = spent_block_index s)"
  using record_claim_eq [OF assms] by (auto simp: spent_at_def)

definition example_record :: "u32 \<Rightarrow> u64 \<Rightarrow> coin_record" where
  "example_record h t =
     \<lparr>cr_coin = \<lparr>parent_coin_info = ''0xaa'', puzzle_hash = ''0xbb'', amount = 1\<rparr>,
      confirmed_block_index = h, spent_block_index = 0, spent = False, coinbase = False,
      cr_timestamp = t\<rparr>"

lemma record_claim_witness:
  "chain_claim_record (example_record 7 0) = chain_claim_record (example_record 7 99) \<and>
   chain_claim_record (example_record 7 0) \<noteq> chain_claim_record (example_record 8 0)"
  by (subst (1 2) record_claim_compares_chain_state)
    (simp_all add: example_record_def plain_coin_def plain_field_def)

end
