(* ===== verification/Dialling.thy ===== *)
theory Dialling
  imports Net_Addr Types
begin

text \<open>
  \<open>src/peer/ordering.rs\<close>, \<open>src/peer/connect.rs\<close> and the sizes of \<open>src/peer/plurality.rs\<close>:
  which address a dial tries, in what order, and what it hands back. Outside the program,
  and so parameters: whether an address answers in time (\<open>dial\<close>), the introducers' answer
  (\<open>lookup\<close>), the random shuffle and the order in which a chunk's concurrent dials finish
  (\<open>finish\<close>); the last two permute their argument (\<open>permuting\<close>).
\<close>

section \<open>Sizes\<close>

definition QUORUM_SAMPLE :: nat where "QUORUM_SAMPLE = 4"
definition CORROBORATION_FLOOR :: nat where "CORROBORATION_FLOOR = 2"
definition PRIORITY_SLOTS :: nat where "PRIORITY_SLOTS = 2"
definition PEAK_LAG_TOLERANCE :: u32 where "PEAK_LAG_TOLERANCE = 3"
definition PEAK_LAG_EVICTION :: u32 where "PEAK_LAG_EVICTION = 2 * PEAK_LAG_TOLERANCE"
definition SETTLED_LAG :: u32 where "SETTLED_LAG = 2"

text \<open>Durations and instants are in nanoseconds.\<close>

definition PEER_LIFETIME :: nat where "PEER_LIFETIME = 300 * 10 ^ 9"

definition default_max_peers :: nat where
  "default_max_peers = PRIORITY_SLOTS + 1 + QUORUM_SAMPLE + 1"

definition DIAL_OVERSUBSCRIPTION :: nat where "DIAL_OVERSUBSCRIPTION = 2"
definition FILL_ROUNDS :: nat where "FILL_ROUNDS = PRIORITY_SLOTS + 2"
definition BATCH_SIZE :: nat where "BATCH_SIZE = 10"
definition MAINNET_PORT :: u16 where "MAINNET_PORT = 8444"
definition TESTNET11_PORT :: u16 where "TESTNET11_PORT = 58444"

definition MAX_DISCOVERED_CANDIDATES :: nat where
  "MAX_DISCOVERED_CANDIDATES = default_max_peers * DIAL_OVERSUBSCRIPTION"

datatype network_type = Mainnet | Testnet11

text \<open>\<open>PeerOrigin\<close>; its constructors carry a suffix because \<open>Priority\<close> orders, and
  \<open>Discovered\<close> counts.\<close>

datatype peer_origin = Priority | Discovered

section \<open>Candidate order\<close>

definition order_candidates :: "socket_addr list \<Rightarrow> socket_addr list" where
  "order_candidates candidates =
     (let (v6, v4) = partition is_ipv6 candidates in v6 @ v4)"

definition candidate_order ::
  "(socket_addr list \<Rightarrow> socket_addr list) \<Rightarrow> socket_addr list \<Rightarrow> socket_addr list" where
  "candidate_order shuffle discovered =
     order_candidates (take MAX_DISCOVERED_CANDIDATES (shuffle (dedup_by id discovered)))"

definition permuting :: "('a list \<Rightarrow> 'a list) \<Rightarrow> bool" where
  "permuting f \<longleftrightarrow> (\<forall>xs. mset (f xs) = mset xs)"

section \<open>One dial\<close>

text \<open>\<open>trusted\<close> is the address \<open>TRUSTED_FULLNODE\<close> parses to, if it is set and parses.\<close>

definition localhost4 :: ip_addr where
  "localhost4 = V4 0x7F000001"

definition priority_addresses_from ::
  "ip_addr option \<Rightarrow> u16 \<Rightarrow> socket_addr list \<Rightarrow> socket_addr list" where
  "priority_addresses_from trusted default_port exclude =
     filter (\<lambda>a. a \<notin> set exclude)
       ((case trusted of Some i \<Rightarrow> [\<lparr>ip = i, port = default_port\<rparr>] | None \<Rightarrow> []) @
        [\<lparr>ip = localhost4, port = default_port\<rparr>])"

fun chunks :: "nat \<Rightarrow> 'a list \<Rightarrow> 'a list list" where
  "chunks n [] = []"
| "chunks n (x # xs) = (x # take (n - 1) xs) # chunks n (drop (n - 1) xs)"

text \<open>The first address, in order, whose dial succeeds.\<close>

fun first_answering :: "(socket_addr \<Rightarrow> 'c option) \<Rightarrow> socket_addr list \<Rightarrow> (socket_addr \<times> 'c) option" where
  "first_answering dial [] = None"
| "first_answering dial (a # as) =
     (case dial a of Some c \<Rightarrow> Some (a, c) | None \<Rightarrow> first_answering dial as)"

fun dial_chunks ::
  "(socket_addr \<Rightarrow> 'c option) \<Rightarrow> (socket_addr list \<Rightarrow> socket_addr list) \<Rightarrow> socket_addr list list \<Rightarrow>
   (socket_addr \<times> 'c) option" where
  "dial_chunks dial finish [] = None"
| "dial_chunks dial finish (c # cs) =
     (case first_answering dial (finish c) of Some r \<Rightarrow> Some r | None \<Rightarrow> dial_chunks dial finish cs)"

definition network_port :: "network_type \<Rightarrow> u16" where
  "network_port network = (case network of Mainnet \<Rightarrow> MAINNET_PORT | Testnet11 \<Rightarrow> TESTNET11_PORT)"

definition dialled_candidates ::
  "(socket_addr list \<Rightarrow> socket_addr list) \<Rightarrow> socket_addr list \<Rightarrow> socket_addr list \<Rightarrow>
   socket_addr list \<Rightarrow> socket_addr list" where
  "dialled_candidates shuffle lookup priority exclude =
     filter (\<lambda>a. \<not> is_host_local a \<and> a \<notin> set priority \<and> a \<notin> set exclude)
       (candidate_order shuffle lookup)"

definition connect_random_peer_excluding ::
  "network_type \<Rightarrow> ip_addr option \<Rightarrow> (socket_addr \<Rightarrow> 'c option) \<Rightarrow> socket_addr list \<Rightarrow>
   (socket_addr list \<Rightarrow> socket_addr list) \<Rightarrow> (socket_addr list \<Rightarrow> socket_addr list) \<Rightarrow>
   socket_addr list \<Rightarrow> ('c \<times> socket_addr \<times> peer_origin) query" where
  "connect_random_peer_excluding network trusted dial lookup shuffle finish exclude =
     (let priority = priority_addresses_from trusted (network_port network) exclude
      in case first_answering dial priority of
           Some (a, c) \<Rightarrow> Inr (c, a, Priority)
         | None \<Rightarrow>
             if lookup = [] then Inl PeerDiscoveryFailed
             else
               let addrs = dialled_candidates shuffle lookup priority exclude
               in if addrs = [] then Inl PeerDiscoveryFailed
                  else case dial_chunks dial finish (chunks BATCH_SIZE addrs) of
                         Some (a, c) \<Rightarrow> Inr (c, a, Discovered)
                       | None \<Rightarrow> Inl PeerDiscoveryFailed)"

section \<open>Facts\<close>

lemma permutingD: "permuting f \<Longrightarrow> mset (f xs) = mset xs"
  by (simp add: permuting_def)

lemma permuting_set: "permuting f \<Longrightarrow> set (f xs) = set xs"
  by (rule mset_eq_setD) (rule permutingD)

lemma permuting_distinct: "permuting f \<Longrightarrow> distinct (f xs) = distinct xs"
  by (rule mset_eq_imp_distinct_iff) (rule permutingD)

lemma permuting_length: "permuting f \<Longrightarrow> length (f xs) = length xs"
  by (rule mset_eq_length) (rule permutingD)

lemma order_candidates_eq: "order_candidates xs = filter is_ipv6 xs @ filter (\<lambda>a. \<not> is_ipv6 a) xs"
  by (simp add: order_candidates_def comp_def)

lemma order_candidates_mset: "mset (order_candidates xs) = mset xs"
  by (simp add: order_candidates_eq)

lemma order_candidates_sorted:
  "sorted_wrt (\<lambda>a b. is_ipv6 b \<longrightarrow> is_ipv6 a) (order_candidates xs)"
proof -
  have "sorted_wrt (\<lambda>a b. True) xs" by (simp add: sorted_wrt_iff_nth_less)
  then have "sorted_wrt (\<lambda>a b. is_ipv6 b \<longrightarrow> is_ipv6 a) (filter is_ipv6 xs)"
    and "sorted_wrt (\<lambda>a b. is_ipv6 b \<longrightarrow> is_ipv6 a) (filter (\<lambda>a. \<not> is_ipv6 a) xs)"
    by (induction xs) auto
  then show ?thesis by (auto simp: order_candidates_eq sorted_wrt_append)
qed

lemma candidate_order_subset:
  assumes "permuting shuffle"
  shows "set (candidate_order shuffle xs) \<subseteq> set xs"
proof
  fix a assume "a \<in> set (candidate_order shuffle xs)"
  then have "a \<in> set (take MAX_DISCOVERED_CANDIDATES (shuffle (dedup_by id xs)))"
    by (simp add: candidate_order_def mset_eq_setD [OF order_candidates_mset])
  then have "a \<in> set (shuffle (dedup_by id xs))" by (rule in_set_takeD)
  then show "a \<in> set xs"
    using dedup_by_subset [of id xs] by (auto simp: permuting_set [OF assms])
qed

lemma candidate_order_distinct: "permuting shuffle \<Longrightarrow> distinct (candidate_order shuffle xs)"
  using dedup_by_distinct [of id xs]
  by (simp add: candidate_order_def mset_eq_imp_distinct_iff [OF order_candidates_mset]
      permuting_distinct)

lemma candidate_order_length: "length (candidate_order shuffle xs) \<le> MAX_DISCOVERED_CANDIDATES"
  using mset_eq_length [OF order_candidates_mset] by (simp add: candidate_order_def)

lemma candidate_order_complete:
  assumes "permuting shuffle" and "card (set xs) \<le> MAX_DISCOVERED_CANDIDATES"
  shows "set (candidate_order shuffle xs) = set xs"
proof -
  have "length (shuffle (dedup_by id xs)) \<le> MAX_DISCOVERED_CANDIDATES"
    using assms by (simp add: permuting_length dedup_by_length)
  then show ?thesis
    using assms(1) dedup_by_keys [of id xs]
    by (simp add: candidate_order_def mset_eq_setD [OF order_candidates_mset] permuting_set)
qed

lemma chunks_concat: "concat (chunks n xs) = xs"
  by (induction n xs rule: chunks.induct) auto

lemma chunks_length: "0 < n \<Longrightarrow> c \<in> set (chunks n xs) \<Longrightarrow> length c \<le> n"
  by (induction n xs rule: chunks.induct) auto

lemma first_answering_Some:
  "first_answering dial as = Some (a, c) \<Longrightarrow> a \<in> set as \<and> dial a = Some c"
  by (induction as) (auto split: option.splits)

lemma first_answering_None:
  "first_answering dial as = None \<longleftrightarrow> (\<forall>a \<in> set as. dial a = None)"
  by (induction as) (auto split: option.splits)

lemma dial_chunks_Some:
  "permuting finish \<Longrightarrow> dial_chunks dial finish cs = Some (a, c) \<Longrightarrow>
   a \<in> set (concat cs) \<and> dial a = Some c"
  by (induction cs) (auto simp: permuting_set dest: first_answering_Some split: option.splits)

lemma dial_chunks_None:
  "permuting finish \<Longrightarrow>
   dial_chunks dial finish cs = None \<longleftrightarrow> (\<forall>a \<in> set (concat cs). dial a = None)"
proof (induction cs)
  case (Cons c cs)
  then show ?case
    using first_answering_None [of dial "finish c"]
    by (cases "first_answering dial (finish c)") (auto simp: permuting_set)
qed simp

lemma priority_addresses_length: "length (priority_addresses_from t p ex) \<le> PRIORITY_SLOTS"
proof -
  let ?l = "(case t of Some i \<Rightarrow> [\<lparr>ip = i, port = p\<rparr>] | None \<Rightarrow> []) @ [\<lparr>ip = localhost4, port = p\<rparr>]"
  have "length ?l \<le> 2" by (cases t) auto
  then show ?thesis
    unfolding priority_addresses_from_def PRIORITY_SLOTS_def
    using length_filter_le order_trans by blast
qed

lemma priority_addresses_exclude: "a \<in> set (priority_addresses_from t p ex) \<Longrightarrow> a \<notin> set ex"
  unfolding priority_addresses_from_def by (simp only: set_filter mem_Collect_eq simp_thms)

lemma dialled_candidatesD:
  "permuting shuffle \<Longrightarrow> a \<in> set (dialled_candidates shuffle lookup pr ex) \<Longrightarrow>
   a \<in> set lookup \<and> \<not> is_host_local a \<and> a \<notin> set pr \<and> a \<notin> set ex"
  using candidate_order_subset [of shuffle lookup] by (auto simp: dialled_candidates_def)

text \<open>Where a connection comes from, and what a failed dial means.\<close>

lemma connect_Inr:
  assumes "permuting shuffle" "permuting finish"
    and "connect_random_peer_excluding net t dial lookup shuffle finish ex = Inr (c, a, org)"
  shows "dial a = Some c \<and> a \<notin> set ex \<and>
    (case org of
       Priority \<Rightarrow> a \<in> set (priority_addresses_from t (network_port net) ex)
     | Discovered \<Rightarrow> a \<in> set lookup \<and> \<not> is_host_local a \<and>
         a \<notin> set (priority_addresses_from t (network_port net) ex))"
proof (cases "first_answering dial (priority_addresses_from t (network_port net) ex)")
  case (Some r)
  with assms(3) show ?thesis
    by (cases r) (auto simp: connect_random_peer_excluding_def
        dest: first_answering_Some priority_addresses_exclude)
next
  case None
  let ?c = "dialled_candidates shuffle lookup (priority_addresses_from t (network_port net) ex) ex"
  have "dial_chunks dial finish (chunks BATCH_SIZE ?c) = Some (a, c) \<and> org = Discovered"
    using assms(3) None
    by (auto simp: connect_random_peer_excluding_def Let_def split: if_splits option.splits)
  then have d: "dial_chunks dial finish (chunks BATCH_SIZE ?c) = Some (a, c)" and o: "org = Discovered"
    by simp_all
  from dial_chunks_Some [OF assms(2) d] have c: "a \<in> set ?c" and a: "dial a = Some c"
    by (simp_all only: chunks_concat)
  from dialled_candidatesD [OF assms(1) c] show ?thesis by (simp add: a o)
qed

lemma connect_Inl:
  assumes "permuting shuffle" "permuting finish"
    and "connect_random_peer_excluding net t dial lookup shuffle finish ex = Inl e"
  shows "e = PeerDiscoveryFailed \<and>
    (\<forall>a \<in> set (priority_addresses_from t (network_port net) ex). dial a = None) \<and>
    (\<forall>a \<in> set (dialled_candidates shuffle lookup
         (priority_addresses_from t (network_port net) ex) ex). dial a = None)"
proof -
  let ?p = "priority_addresses_from t (network_port net) ex"
  let ?c = "dialled_candidates shuffle lookup ?p ex"
  have "first_answering dial ?p = None"
    using assms(3)
    by (auto simp: connect_random_peer_excluding_def Let_def split: option.splits)
  moreover from this have "e = PeerDiscoveryFailed \<and>
      (?c = [] \<or> dial_chunks dial finish (chunks BATCH_SIZE ?c) = None \<or> lookup = [])"
    using assms(3)
    by (auto simp: connect_random_peer_excluding_def Let_def split: if_splits option.splits)
  moreover have "lookup = [] \<Longrightarrow> ?c = []"
    using candidate_order_subset [OF assms(1), of "[]"] by (simp add: dialled_candidates_def)
  ultimately show ?thesis
    using dial_chunks_None [OF assms(2), of dial "chunks BATCH_SIZE ?c"] chunks_concat [of BATCH_SIZE ?c]
    by (auto simp: first_answering_None)
qed

section \<open>Properties\<close>

text \<open>C14: What a dial hands back answered it and was not excluded; a connection recorded as
  discovered came from the introducers and is neither a host-local address nor one of the
  priority addresses, and one recorded as priority is one of the at most two priority
  addresses. At most sixteen discovered addresses are dialled.\<close>

theorem dial_sound:
  assumes "permuting shuffle" "permuting finish"
    and "connect_random_peer_excluding net t dial lookup shuffle finish ex = Inr (c, a, org)"
  shows "dial a = Some c \<and> a \<notin> set ex \<and>
    (case org of
       Priority \<Rightarrow> a \<in> set (priority_addresses_from t (network_port net) ex)
     | Discovered \<Rightarrow> a \<in> set lookup \<and> \<not> is_host_local a \<and>
         a \<notin> set (priority_addresses_from t (network_port net) ex)) \<and>
    length (priority_addresses_from t (network_port net) ex) \<le> 2 \<and>
    length (dialled_candidates shuffle lookup
      (priority_addresses_from t (network_port net) ex) ex) \<le> 16"
proof -
  have "length (dialled_candidates shuffle lookup pr ex) \<le> length (candidate_order shuffle lookup)" for pr
    unfolding dialled_candidates_def by (rule length_filter_le)
  moreover have "length (candidate_order shuffle lookup) \<le> 16"
    using candidate_order_length [of shuffle lookup]
    by (simp add: MAX_DISCOVERED_CANDIDATES_def default_max_peers_def
        PRIORITY_SLOTS_def QUORUM_SAMPLE_def DIAL_OVERSUBSCRIPTION_def)
  ultimately have "length (dialled_candidates shuffle lookup pr ex) \<le> 16" for pr
    by (rule order_trans)
  then show ?thesis
    using connect_Inr [OF assms] priority_addresses_length by (simp add: PRIORITY_SLOTS_def)
qed

definition example_addr :: "32 word \<Rightarrow> socket_addr" where
  "example_addr w = \<lparr>ip = V4 w, port = 8444\<rparr>"

lemma example_addr_inj [simp]: "example_addr v = example_addr w \<longleftrightarrow> v = w"
  by (simp add: example_addr_def)

definition public_a :: socket_addr where "public_a = example_addr 0x08080808"
definition public_b :: socket_addr where "public_b = example_addr 0x09090909"

lemma public_not_local: "\<not> is_host_local public_a" "\<not> is_host_local public_b"
  by (simp_all add: public_a_def public_b_def example_addr_def is_host_local_def canonical_ip_def
      v4_local_def octets4_eq)

lemma public_facts [simp]:
  "public_a \<noteq> public_b" "public_b \<noteq> public_a" "\<not> is_ipv6 public_a" "\<not> is_ipv6 public_b"
  "priority_addresses_from None (network_port Mainnet) [] = [example_addr 0x7F000001]"
  "public_a \<noteq> example_addr 0x7F000001" "public_b \<noteq> example_addr 0x7F000001"
  by (simp_all add: public_a_def public_b_def is_ipv6_def example_addr_def network_port_def
      priority_addresses_from_def localhost4_def MAINNET_PORT_def)

lemma public_candidates:
  "candidate_order (\<lambda>xs. xs) [public_a, public_b] = [public_a, public_b]"
  "candidate_order (\<lambda>xs. xs) [public_a] = [public_a]"
  by (simp_all add: candidate_order_def order_candidates_eq dedup_by_def MAX_DISCOVERED_CANDIDATES_def
      default_max_peers_def PRIORITY_SLOTS_def QUORUM_SAMPLE_def DIAL_OVERSUBSCRIPTION_def)

lemma permuting_id: "permuting (\<lambda>xs. xs)"
  by (simp add: permuting_def)

definition example_dial :: "socket_addr \<Rightarrow> nat option" where
  "example_dial a = (if a = public_b then Some 7 else None)"

lemma example_connect:
  "connect_random_peer_excluding Mainnet None example_dial [public_a, public_b]
     (\<lambda>xs. xs) (\<lambda>xs. xs) [] = Inr (7, public_b, Discovered)"
proof -
  have "first_answering example_dial [example_addr 0x7F000001] = None"
    by (simp add: example_dial_def public_facts(7) [symmetric])
  moreover have "dialled_candidates (\<lambda>xs. xs) [public_a, public_b] [example_addr 0x7F000001] [] =
      [public_a, public_b]"
    by (simp add: dialled_candidates_def public_candidates public_not_local)
  moreover have "dial_chunks example_dial (\<lambda>xs. xs) (chunks BATCH_SIZE [public_a, public_b]) = Some (public_b, 7)"
    by (simp add: BATCH_SIZE_def example_dial_def)
  ultimately show ?thesis
    by (simp add: connect_random_peer_excluding_def)
qed

lemma dial_sound_witness:
  "example_dial public_b = Some 7 \<and> public_b \<in> set [public_a, public_b] \<and> \<not> is_host_local public_b"
  using dial_sound [OF permuting_id permuting_id example_connect] by simp



end
