(* ===== verification/Selection.thy ===== *)
theory Selection
  imports Dialling "HOL-Library.Product_Lexorder"
begin

text \<open>
  The selection a dial round makes (\<open>most_credible\<close>, \<open>spread_across_subnets\<close> and
  \<open>reference_peak\<close> of \<open>src/peer/pool.rs\<close>), with the specification the bucket loop of
  \<open>spread_across_subnets\<close> refines: round \<open>i\<close> takes the \<open>i\<close>-th candidate of each subnet.
\<close>

record 'c dial_candidate =
  dc_origin :: peer_origin
  dc_address :: socket_addr
  dc_handshake :: nat
  dc_connection :: 'c

type_synonym 'c buckets = "subnet_key \<Rightarrow> 'c dial_candidate list option"

section \<open>The bucket loop\<close>

text \<open>The first loop: priority candidates aside, the others into insertion-ordered buckets.\<close>

fun fill_buckets ::
  "'c dial_candidate list \<Rightarrow> 'c dial_candidate list \<Rightarrow> subnet_key list \<Rightarrow> 'c buckets \<Rightarrow>
   'c dial_candidate list \<times> subnet_key list \<times> 'c buckets" where
  "fill_buckets [] priority order buckets = (priority, order, buckets)"
| "fill_buckets (c # cs) priority order buckets =
     (if dc_origin c = Priority then fill_buckets cs (priority @ [c]) order buckets
      else
        let key = subnet_of (dc_address c)
        in fill_buckets cs priority
             (if buckets key = None then order @ [key] else order)
             (buckets(key \<mapsto> (case buckets key of None \<Rightarrow> [] | Some b \<Rightarrow> b) @ [c])))"

text \<open>One pass of the second loop over \<open>order\<close>.\<close>

fun spread_pass ::
  "subnet_key list \<Rightarrow> 'c buckets \<Rightarrow> 'c dial_candidate list \<Rightarrow> bool \<Rightarrow>
   'c buckets \<times> 'c dial_candidate list \<times> bool" where
  "spread_pass [] buckets spread remaining = (buckets, spread, remaining)"
| "spread_pass (key # keys) buckets spread remaining =
     (case buckets key of
        Some (c # cs) \<Rightarrow>
          spread_pass keys (buckets(key \<mapsto> cs)) (spread @ [c]) (remaining \<or> cs \<noteq> [])
      | _ \<Rightarrow> spread_pass keys buckets spread remaining)"

definition bucket :: "'c buckets \<Rightarrow> subnet_key \<Rightarrow> 'c dial_candidate list" where
  "bucket b k = (case b k of None \<Rightarrow> [] | Some cs \<Rightarrow> cs)"

lemma bucket_upd [simp]: "bucket (b(k \<mapsto> cs)) = (bucket b)(k := cs)"
  by (simp add: bucket_def fun_eq_iff)

definition buckets_size :: "subnet_key list \<Rightarrow> 'c buckets \<Rightarrow> nat" where
  "buckets_size order b = (\<Sum>k \<in> set order. length (bucket b k))"

lemma spread_pass_shrinks:
  assumes "spread_pass ks b out r = (b', out', r')" and "set ks \<subseteq> set order"
  shows "buckets_size order b' + (if r' \<and> \<not> r then 1 else 0) \<le> buckets_size order b"
  using assms
proof (induction ks b out r rule: spread_pass.induct)
  case (2 k ks b out r)
  show ?case
  proof (cases "b k")
    case None
    with 2 show ?thesis by simp
  next
    case (Some cs)
    show ?thesis
    proof (cases cs)
      case Nil
      with Some 2 show ?thesis by simp
    next
      case (Cons c ds)
      define u where "u = b(k \<mapsto> ds)"
      have k: "k \<in> set order" using "2.prems"(2) by simp
      have "buckets_size order u + 1 = buckets_size order b"
        using k Some Cons
        by (simp add: buckets_size_def sum.remove [OF _ k] bucket_def [of b k] u_def)
      moreover have "spread_pass ks u (out @ [c]) (r \<or> ds \<noteq> []) = (b', out', r')"
        using Some Cons "2.prems"(1) by (simp add: u_def)
      then have "buckets_size order b' \<le> buckets_size order u"
        using "2.IH"(3) [OF Some Cons] "2.prems"(2) unfolding u_def fun_upd_def
        by (simp split: if_splits)
      ultimately show ?thesis by auto
    qed
  qed
qed simp

text \<open>\<open>while remaining\<close>.\<close>

function spread_loop ::
  "subnet_key list \<Rightarrow> 'c buckets \<Rightarrow> 'c dial_candidate list \<Rightarrow> 'c dial_candidate list" where
  "spread_loop order buckets spread =
     (case spread_pass order buckets spread False of
        (buckets', spread', remaining) \<Rightarrow>
          if remaining then spread_loop order buckets' spread' else spread')"
  by pat_completeness auto
termination
proof (relation "measure (\<lambda>(order, b, _). buckets_size order b)", goal_cases)
  case (2 order b out p b' q out')
  then show ?case by (auto dest!: sym [of _ "spread_pass order b out False"] spread_pass_shrinks)
qed simp

declare spread_loop.simps [simp del]

definition spread_across_subnets :: "'c dial_candidate list \<Rightarrow> 'c dial_candidate list" where
  "spread_across_subnets candidates =
     (case fill_buckets candidates [] [] Map.empty of
        (priority, order, buckets) \<Rightarrow> spread_loop order buckets priority)"

definition most_credible :: "'c dial_candidate list \<Rightarrow> nat \<Rightarrow> 'c dial_candidate list" where
  "most_credible candidates slots =
     take slots (spread_across_subnets (dedup_by dc_address
       (sort_key (\<lambda>c. (dc_origin c \<noteq> Priority, dc_handshake c)) candidates)))"

definition dials_for :: "nat \<Rightarrow> nat" where
  "dials_for wanted = sat_mul_usize wanted DIAL_OVERSUBSCRIPTION"

text \<open>The lower median of what the held peers have announced.\<close>

definition reference_peak :: "u32 list \<Rightarrow> u32 option" where
  "reference_peak announced =
     (if announced = [] then None
      else Some (sort announced ! ((length announced - 1) div 2)))"

section \<open>What the loop computes\<close>

text \<open>Round \<open>i\<close> is the \<open>i\<close>-th candidate of every subnet that has one.\<close>

definition nth_list :: "'a list \<Rightarrow> nat \<Rightarrow> 'a list" where
  "nth_list xs i = (if i < length xs then [xs ! i] else [])"

lemma nth_list_simps [simp]:
  "nth_list [] i = []" "nth_list (x # xs) 0 = [x]" "nth_list (x # xs) (Suc i) = nth_list xs i"
  by (simp_all add: nth_list_def)

lemma nth_list_tl [simp]: "nth_list (tl xs) i = nth_list xs (Suc i)"
  by (cases xs) simp_all

definition round_of :: "subnet_key list \<Rightarrow> (subnet_key \<Rightarrow> 'a list) \<Rightarrow> nat \<Rightarrow> 'a list" where
  "round_of order b i = concat (map (\<lambda>k. nth_list (b k) i) order)"

definition rounds :: "subnet_key list \<Rightarrow> (subnet_key \<Rightarrow> 'a list) \<Rightarrow> nat \<Rightarrow> 'a list" where
  "rounds order b n = concat (map (round_of order b) [0..<n])"

lemma round_of_cong: "(\<And>k. k \<in> set ks \<Longrightarrow> b k = b' k) \<Longrightarrow> round_of ks b i = round_of ks b' i"
  by (simp add: round_of_def cong: map_cong)

lemma spread_pass_round:
  assumes "spread_pass ks b out r = (b', out', r')" and "distinct ks"
  shows "out' = out @ round_of ks (bucket b) 0 \<and>
    bucket b' = (\<lambda>k. if k \<in> set ks then tl (bucket b k) else bucket b k) \<and>
    (r' \<longleftrightarrow> r \<or> (\<exists>k \<in> set ks. tl (bucket b k) \<noteq> []))"
  using assms
proof (induction ks b out r rule: spread_pass.induct)
  case (2 k ks b out r)
  have k: "k \<notin> set ks" "distinct ks" using "2.prems"(2) by simp_all
  show ?case
  proof (cases "bucket b k")
    case Nil
    then have eq: "spread_pass ks b out r = (b', out', r')"
      using "2.prems"(1) by (auto simp: bucket_def split: option.splits)
    have "b k = None \<or> b k = Some []"
      using Nil by (auto simp: bucket_def split: option.splits)
    then have "out' = out @ round_of ks (bucket b) 0 \<and>
      bucket b' = (\<lambda>k. if k \<in> set ks then tl (bucket b k) else bucket b k) \<and>
      (r' \<longleftrightarrow> r \<or> (\<exists>k \<in> set ks. tl (bucket b k) \<noteq> []))"
      using "2.IH" eq k(2) by auto
    with Nil show ?thesis by (auto simp: round_of_def fun_eq_iff)
  next
    case (Cons c cs)
    then have bk: "b k = Some (c # cs)" by (auto simp: bucket_def split: option.splits)
    define u where "u = b(k \<mapsto> cs)"
    have u: "bucket u = (bucket b)(k := cs)" by (simp add: u_def)
    have "spread_pass ks u (out @ [c]) (r \<or> cs \<noteq> []) = (b', out', r')"
      using "2.prems"(1) bk by (simp add: u_def)
    then have
      "out' = (out @ [c]) @ round_of ks (bucket u) 0 \<and>
       bucket b' = (\<lambda>k. if k \<in> set ks then tl (bucket u k) else bucket u k) \<and>
       (r' \<longleftrightarrow> (r \<or> cs \<noteq> []) \<or> (\<exists>k \<in> set ks. tl (bucket u k) \<noteq> []))"
      using "2.IH"(3) [OF bk refl] k(2) unfolding u_def fun_upd_def by blast
    moreover have "round_of ks (bucket u) 0 = round_of ks (bucket b) 0"
      using k(1) by (intro round_of_cong) (auto simp: u)
    moreover have "(\<exists>k \<in> set ks. tl (bucket u k) \<noteq> []) = (\<exists>k \<in> set ks. tl (bucket b k) \<noteq> [])"
      using k(1) by (auto simp: u)
    ultimately show ?thesis
      using Cons k(1) by (auto simp: round_of_def fun_eq_iff u)
  qed
qed (simp add: round_of_def)

lemma round_of_tl:
  "round_of ks (\<lambda>k. if k \<in> set ks then tl (b k) else b k) i = round_of ks b (Suc i)"
proof -
  have "map (\<lambda>k. nth_list (if k \<in> set ks then tl (b k) else b k) i) ks =
        map (\<lambda>k. nth_list (b k) (Suc i)) ks"
    by (rule map_cong) simp_all
  then show ?thesis by (simp only: round_of_def)
qed

lemma rounds_Suc: "rounds ks b (Suc n) = round_of ks b 0 @
    rounds ks (\<lambda>k. if k \<in> set ks then tl (b k) else b k) n"
proof -
  have "[0..<Suc n] = 0 # map Suc [0..<n]" by (simp add: upt_conv_Cons map_Suc_upt del: upt_Suc)
  moreover have "round_of ks (\<lambda>k. if k \<in> set ks then tl (b k) else b k) = (\<lambda>i. round_of ks b (Suc i))"
    by (rule ext) (rule round_of_tl)
  ultimately show ?thesis by (simp add: rounds_def comp_def del: upt_Suc)
qed

lemma spread_loop_rounds:
  assumes "distinct order" and "\<And>k. k \<in> set order \<Longrightarrow> length (bucket b k) \<le> n" and "0 < n"
  shows "spread_loop order b out = out @ rounds order (bucket b) n"
  using assms
proof (induction order b out arbitrary: n rule: spread_loop.induct)
  case (1 order b out)
  obtain b' out' r' where p: "spread_pass order b out False = (b', out', r')"
    by (cases "spread_pass order b out False") auto
  note step = spread_pass_round [OF p "1.prems"(1)]
  obtain m where n: "n = Suc m" using "1.prems"(3) by (cases n) auto
  have out: "out @ rounds order (bucket b) n = out' @ rounds order (bucket b') m"
    using step by (simp add: n rounds_Suc)
  show ?case
  proof (cases r')
    case True
    have small: "length (bucket b' k) \<le> m" if "k \<in> set order" for k
      using "1.prems"(2) [OF that] step that by (simp add: n)
    moreover have "0 < m"
    proof -
      obtain k where "k \<in> set order" "tl (bucket b k) \<noteq> []" using True step by auto
      then have "length (bucket b k) \<le> Suc m" "1 < length (bucket b k)"
        using "1.prems"(2) [of k] by (cases "bucket b k"; simp add: n)+
      then show ?thesis by simp
    qed
    ultimately have "spread_loop order b' out' = out' @ rounds order (bucket b') m"
      using "1.IH" [OF p [symmetric] refl True "1.prems"(1)] by blast
    then show ?thesis using p True out by (simp add: spread_loop.simps [of order b out])
  next
    case False
    then have "round_of order (bucket b') i = []" for i
      using step by (auto simp: round_of_def)
    then have "rounds order (bucket b') m = []" by (simp add: rounds_def)
    then show ?thesis using p False out by (simp add: spread_loop.simps [of order b out])
  qed
qed

declare filter_filter [simp del]

abbreviation cand_key :: "'c dial_candidate \<Rightarrow> subnet_key" where
  "cand_key c \<equiv> subnet_of (dc_address c)"

abbreviation discovered_cands :: "'c dial_candidate list \<Rightarrow> 'c dial_candidate list" where
  "discovered_cands cs \<equiv> filter (\<lambda>c. dc_origin c \<noteq> Priority) cs"

abbreviation in_subnet :: "subnet_key \<Rightarrow> 'c dial_candidate list \<Rightarrow> 'c dial_candidate list" where
  "in_subnet k cs \<equiv> filter (\<lambda>c. cand_key c = k) cs"

lemma fill_buckets_spec:
  assumes "fill_buckets cs p ord b = (p', ord', b')"
    and "distinct ord" and "\<And>k. k \<in> set ord \<longleftrightarrow> b k \<noteq> None"
  shows "p' = p @ filter (\<lambda>c. dc_origin c = Priority) cs \<and> distinct ord' \<and>
    set ord' = set ord \<union> cand_key ` set (discovered_cands cs) \<and>
    bucket b' = (\<lambda>k. bucket b k @ in_subnet k (discovered_cands cs))"
  using assms
proof (induction cs p ord b rule: fill_buckets.induct)
  case (2 c cs p ord b)
  show ?case
  proof (cases "dc_origin c = Priority")
    case True
    with 2 show ?thesis by simp
  next
    case False
    define k where "k = cand_key c"
    define u where "u = b(k \<mapsto> bucket b k @ [c])"
    define o1 where "o1 = (if b k = None then ord @ [k] else ord)"
    have eq: "fill_buckets cs p o1 u = (p', ord', b')"
      using "2.prems"(1) False
      by (cases "b (cand_key c)") (simp_all add: Let_def k_def u_def o1_def bucket_def)
    have ord: "distinct o1" "\<And>j. j \<in> set o1 \<longleftrightarrow> u j \<noteq> None"
      using "2.prems"(2,3) by (auto simp: o1_def u_def)
    have "p' = p @ filter (\<lambda>c. dc_origin c = Priority) cs \<and> distinct ord' \<and>
      set ord' = set o1 \<union> cand_key ` set (discovered_cands cs) \<and>
      bucket b' = (\<lambda>k. bucket u k @ in_subnet k (discovered_cands cs))"
      using "2.IH"(2) [OF False k_def] eq ord
      unfolding o1_def u_def bucket_def fun_upd_def by blast
    moreover have "set o1 = insert k (set ord)"
      using "2.prems"(3) [of k] by (auto simp: o1_def)
    ultimately show ?thesis using False by (auto simp: u_def k_def fun_eq_iff)
  qed
qed simp

lemma in_subnet_len: "length (in_subnet k (discovered_cands cs)) \<le> length cs"
  using length_filter_le [of "\<lambda>c. cand_key c = k" "discovered_cands cs"]
    length_filter_le [of "\<lambda>c. dc_origin c \<noteq> Priority" cs] by linarith

lemma spread_eq:
  "\<exists>ord. distinct ord \<and> set ord = cand_key ` set (discovered_cands cs) \<and>
     spread_across_subnets cs = filter (\<lambda>c. dc_origin c = Priority) cs @
       rounds ord (\<lambda>k. in_subnet k (discovered_cands cs)) (Suc (length cs))"
proof -
  obtain p ord b where f: "fill_buckets cs [] [] Map.empty = (p, ord, b)"
    by (cases "fill_buckets cs [] [] Map.empty") auto
  have "bucket (Map.empty :: 'a buckets) = (\<lambda>k. [])" by (simp add: bucket_def fun_eq_iff)
  then have s: "p = filter (\<lambda>c. dc_origin c = Priority) cs" "distinct ord"
    "set ord = cand_key ` set (discovered_cands cs)"
    "bucket b = (\<lambda>k. in_subnet k (discovered_cands cs))"
    using fill_buckets_spec [OF f] by auto
  have len: "length (bucket b k) \<le> Suc (length cs)" for k
    using in_subnet_len [of k cs] by (simp add: s(4))
  have "spread_loop ord b p = p @ rounds ord (bucket b) (Suc (length cs))"
    by (rule spread_loop_rounds) (use s(2) len in auto)
  then show ?thesis using f s by (auto simp: spread_across_subnets_def)
qed

section \<open>Rounds are fair and complete\<close>

lemma filter_round_of:
  assumes "distinct ks" and "\<And>j x. x \<in> set (b j) \<Longrightarrow> key x = j"
  shows "filter (\<lambda>x. key x = k) (round_of ks b i) = (if k \<in> set ks then nth_list (b k) i else [])"
  using assms(1)
proof (induction ks)
  case (Cons j ks)
  have "filter (\<lambda>x. key x = k) (nth_list (b j) i) = (if j = k then nth_list (b k) i else [])"
    using assms(2) [of "b j ! i" j] by (auto simp: nth_list_def)
  with Cons show ?case by (auto simp: round_of_def)
qed (simp add: round_of_def)

lemma take_Suc_nth_list: "take (Suc n) xs = take n xs @ nth_list xs n"
  by (simp add: nth_list_def take_Suc_conv_app_nth)

lemma filter_rounds:
  assumes "distinct ks" and "\<And>j x. x \<in> set (b j) \<Longrightarrow> key x = j" and "k \<in> set ks"
  shows "filter (\<lambda>x. key x = k) (rounds ks b n) = take n (b k)"
proof (induction n)
  case (Suc n)
  then show ?case
    using filter_round_of [where b = b and key = key and k = k and i = n, OF assms(1,2)] assms(3)
    by (simp add: rounds_def take_Suc_nth_list)
qed (simp add: rounds_def)

lemma rounds_elem: "x \<in> set (rounds ks b n) \<Longrightarrow> \<exists>k \<in> set ks. x \<in> set (b k)"
proof -
  assume "x \<in> set (rounds ks b n)"
  then obtain i k where "k \<in> set ks" "x \<in> set (nth_list (b k) i)"
    by (auto simp: rounds_def round_of_def)
  then show ?thesis by (auto simp: nth_list_def intro!: bexI [of _ k] split: if_splits)
qed

lemma rounds_keys:
  assumes "\<And>j x. x \<in> set (b j) \<Longrightarrow> key x = j"
  shows "key ` set (rounds ks b n) \<subseteq> set ks"
proof
  fix k assume "k \<in> key ` set (rounds ks b n)"
  then obtain x where "x \<in> set (rounds ks b n)" "k = key x" by blast
  with rounds_elem [of x ks b n] assms show "k \<in> set ks" by blast
qed

lemma mset_eq_by_filters:
  assumes "\<And>k. filter (\<lambda>x. key x = k) xs = filter (\<lambda>x. key x = k) ys"
  shows "mset xs = mset ys"
proof (rule multiset_eqI)
  fix x
  have "count (mset zs) x = count (mset (filter (\<lambda>y. key y = key x) zs)) x" for zs
    by simp
  then show "count (mset xs) x = count (mset ys) x" using assms by metis
qed

text \<open>A prefix of the rounds is some whole rounds and a prefix of the next.\<close>

lemma take_rounds:
  "\<exists>i q r. take m (rounds ks b n) = rounds ks b i @ q \<and> round_of ks b i = q @ r"
proof (induction n)
  case 0
  show ?case by (rule exI [of _ 0]) (simp add: rounds_def)
next
  case (Suc n)
  show ?case
  proof (cases "m \<le> length (rounds ks b n)")
    case True
    with Suc show ?thesis by (simp add: rounds_def)
  next
    case False
    let ?d = "m - length (rounds ks b n)"
    have "take m (rounds ks b (Suc n)) = rounds ks b n @ take ?d (round_of ks b n)"
      using False by (simp add: rounds_def)
    then show ?thesis by (metis append_take_drop_id)
  qed
qed

lemma rounds_fair:
  fixes m n :: nat
  assumes "distinct ks" and "\<And>j x. x \<in> set (b j) \<Longrightarrow> key x = j" and "s \<in> set ks" "t \<in> set ks"
  defines "cnt \<equiv> \<lambda>k. length (filter (\<lambda>x. key x = k) (take m (rounds ks b n)))"
  shows "cnt s \<le> cnt t + 1 \<or> cnt t = length (b t)"
proof -
  obtain i q r where p: "take m (rounds ks b n) = rounds ks b i @ q" and r: "round_of ks b i = q @ r"
    using take_rounds by metis
  have c: "min i (length (b k)) \<le> cnt k \<and> cnt k \<le> min (Suc i) (length (b k))"
    if k: "k \<in> set ks" for k
  proof -
    have eq: "filter (\<lambda>x. key x = k) q @ filter (\<lambda>x. key x = k) r = nth_list (b k) i"
      using filter_round_of [where b = b and key = key and k = k and i = i, OF assms(1,2)] k by (simp add: r)
    have "cnt k = length (take i (b k)) + length (filter (\<lambda>x. key x = k) q)"
      using filter_rounds [where b = b and key = key and k = k and n = i, OF assms(1,2) k] by (simp add: cnt_def p)
    moreover have "length (filter (\<lambda>x. key x = k) q) \<le> (if i < length (b k) then 1 else 0)"
      using arg_cong [OF eq, of length] by (auto simp: nth_list_def split: if_splits)
    ultimately show ?thesis by (auto split: if_splits)
  qed
  from c [OF assms(3)] c [OF assms(4)] show ?thesis by linarith
qed

section \<open>Spreading\<close>

text \<open>\<open>spread_rounds\<close> collects what the rounds give for one call.\<close>

lemma spread_rounds:
  obtains ord where "distinct ord" and "set ord = cand_key ` set (discovered_cands cs)"
    and "spread_across_subnets cs = filter (\<lambda>c. dc_origin c = Priority) cs @
      rounds ord (\<lambda>k. in_subnet k (discovered_cands cs)) (Suc (length cs))"
    and "discovered_cands (spread_across_subnets cs) =
      rounds ord (\<lambda>k. in_subnet k (discovered_cands cs)) (Suc (length cs))"
    and "filter (\<lambda>c. dc_origin c = Priority) (spread_across_subnets cs) =
      filter (\<lambda>c. dc_origin c = Priority) cs"
proof -
  from spread_eq [of cs] obtain ord where o: "distinct ord" "set ord = cand_key ` set (discovered_cands cs)"
    "spread_across_subnets cs = filter (\<lambda>c. dc_origin c = Priority) cs @
      rounds ord (\<lambda>k. in_subnet k (discovered_cands cs)) (Suc (length cs))" by blast
  let ?r = "rounds ord (\<lambda>k. in_subnet k (discovered_cands cs)) (Suc (length cs))"
  have r0: "\<forall>c \<in> set ?r. dc_origin c \<noteq> Priority"
  proof
    fix c assume "c \<in> set ?r"
    from rounds_elem [OF this] show "dc_origin c \<noteq> Priority" by simp
  qed
  then have r: "filter (\<lambda>c. dc_origin c = Priority) ?r = []" by (rule filter_False)
  from r0 have "discovered_cands ?r = ?r" by (rule filter_True)
  note r = r this
  have p: "discovered_cands (filter (\<lambda>c. dc_origin c = Priority) cs) = []"
    "filter (\<lambda>c. dc_origin c = Priority) (filter (\<lambda>c. dc_origin c = Priority) cs) =
      filter (\<lambda>c. dc_origin c = Priority) cs"
    by (simp_all add: filter_filter)
  have "discovered_cands (spread_across_subnets cs) = ?r"
    "filter (\<lambda>c. dc_origin c = Priority) (spread_across_subnets cs) =
      filter (\<lambda>c. dc_origin c = Priority) cs"
    unfolding o(3) filter_append r p by (rule append_Nil, rule append_Nil2)
  then show ?thesis by (rule that [OF o])
qed

lemma spread_priority:
  "filter (\<lambda>c. dc_origin c = Priority) (spread_across_subnets cs) = filter (\<lambda>c. dc_origin c = Priority) cs"
  by (rule spread_rounds [of cs]) simp

lemma spread_priority_first:
  "spread_across_subnets cs =
     filter (\<lambda>c. dc_origin c = Priority) cs @ discovered_cands (spread_across_subnets cs)"
  by (rule spread_rounds [of cs]) simp

lemma spread_in_subnet:
  "in_subnet k (discovered_cands (spread_across_subnets cs)) = in_subnet k (discovered_cands cs)"
proof (rule spread_rounds [of cs])
  fix ord
  let ?b = "\<lambda>k. in_subnet k (discovered_cands cs)"
  let ?r = "rounds ord ?b (Suc (length cs))"
  assume o: "distinct ord" "set ord = cand_key ` set (discovered_cands cs)"
    and d: "discovered_cands (spread_across_subnets cs) = ?r"
  show ?thesis
  proof (cases "k \<in> set ord")
    case True
    have "in_subnet k ?r = take (Suc (length cs)) (?b k)"
      by (rule filter_rounds [OF o(1) _ True]) simp
    also have "\<dots> = ?b k" using in_subnet_len [of k cs] by (simp del: take_Suc)
    finally show ?thesis by (simp add: d)
  next
    case False
    have r: "cand_key ` set ?r \<subseteq> set ord" by (rule rounds_keys) simp
    have "in_subnet k ?r = []"
      using False r unfolding filter_empty_conv by blast
    moreover have "?b k = []"
      using False by (auto simp: o(2) filter_empty_conv)
    ultimately show ?thesis unfolding d by simp
  qed
qed

lemma spread_mset: "mset (spread_across_subnets cs) = mset cs"
proof -
  have "mset (discovered_cands (spread_across_subnets cs)) = mset (discovered_cands cs)"
    by (rule mset_eq_by_filters [of cand_key]) (rule spread_in_subnet)
  moreover have "mset cs = mset (filter (\<lambda>c. dc_origin c = Priority) cs) + mset (discovered_cands cs)"
    by (simp flip: multiset_partition)
  ultimately show ?thesis
    by (metis mset_append spread_priority_first)
qed

abbreviation subnet_count :: "subnet_key \<Rightarrow> 'c dial_candidate list \<Rightarrow> nat" where
  "subnet_count k cs \<equiv> length (in_subnet k cs)"

lemma spread_fair_aux:
  assumes "s \<in> cand_key ` set (discovered_cands cs)" "t \<in> cand_key ` set (discovered_cands cs)"
  defines "p \<equiv> \<lambda>m. take m (discovered_cands (spread_across_subnets cs))"
  shows "subnet_count s (p m) \<le> subnet_count t (p m) + 1 \<or>
    subnet_count t (p m) = subnet_count t (discovered_cands cs)"
proof (rule spread_rounds [of cs])
  fix ord
  let ?b = "\<lambda>k. in_subnet k (discovered_cands cs)"
  let ?r = "rounds ord ?b (Suc (length cs))"
  assume o: "distinct ord" "set ord = cand_key ` set (discovered_cands cs)"
    and d: "discovered_cands (spread_across_subnets cs) = ?r"
  have "subnet_count s (take m ?r) \<le> subnet_count t (take m ?r) + 1 \<or>
      subnet_count t (take m ?r) = length (?b t)"
    by (rule rounds_fair [OF o(1)]) (use assms(1,2) o(2) in auto)
  then show ?thesis by (simp only: p_def d)
qed

text \<open>The prefix a round keeps holds as many distinct subnets as it can.\<close>

lemma spread_prefix_subnets:
  fixes cs :: "'c dial_candidate list"
  defines "p \<equiv> \<lambda>m. take m (discovered_cands (spread_across_subnets cs))"
  shows "card (cand_key ` set (p m)) = min (length (p m)) (card (cand_key ` set (discovered_cands cs)))"
proof -
  let ?D = "cand_key ` set (discovered_cands cs)"
  have "mset (discovered_cands (spread_across_subnets cs)) = mset (discovered_cands cs)"
    by (rule mset_eq_by_filters [of cand_key]) (rule spread_in_subnet)
  then have sub: "cand_key ` set (p m) \<subseteq> ?D"
    using set_take_subset [of m "discovered_cands (spread_across_subnets cs)"]
    unfolding p_def by (metis image_mono mset_eq_setD)
  have cnt: "subnet_count k (p m) = 0 \<longleftrightarrow> k \<notin> cand_key ` set (p m)" for k
    by (auto simp: filter_empty_conv)
  show ?thesis
  proof (cases "cand_key ` set (p m) = ?D")
    case True
    have "card (cand_key ` set (p m)) \<le> length (p m)"
      by (metis card_length length_map list.set_map)
    with True show ?thesis by simp
  next
    case False
    then obtain t where t: "t \<in> ?D" "t \<notin> cand_key ` set (p m)" using sub by blast
    then have tc: "subnet_count t (p m) = 0" "subnet_count t (discovered_cands cs) \<noteq> 0"
      by (metis cnt, force simp: filter_empty_conv)
    have one: "subnet_count s (p m) \<le> 1" for s
    proof (cases "s \<in> ?D")
      case True
      from spread_fair_aux [OF True t(1), of m] tc show ?thesis by (simp add: p_def)
    next
      case False
      then show ?thesis using sub cnt [of s] by auto
    qed
    have "distinct (map cand_key (p m))"
    proof (rule ccontr)
      assume "\<not> distinct (map cand_key (p m))"
      then obtain xs ys zs y where "map cand_key (p m) = xs @ [y] @ ys @ [y] @ zs"
        using not_distinct_decomp by blast
      then have "2 \<le> length (filter (\<lambda>k. k = y) (map cand_key (p m)))" by simp
      then show False using one [of y] by (simp add: filter_map comp_def)
    qed
    then have "card (cand_key ` set (p m)) = length (p m)"
      by (metis distinct_card length_map list.set_map)
    moreover have "card (cand_key ` set (p m)) \<le> card ?D"
      by (rule card_mono) (use sub in auto)
    ultimately show ?thesis by simp
  qed
qed

section \<open>The winners of a round\<close>

abbreviation cand_rank :: "'c dial_candidate \<Rightarrow> bool \<times> nat" where
  "cand_rank c \<equiv> (dc_origin c \<noteq> Priority, dc_handshake c)"

definition ranked :: "'c dial_candidate list \<Rightarrow> 'c dial_candidate list" where
  "ranked cs = dedup_by dc_address (sort_key cand_rank cs)"

lemma most_credible_ranked: "most_credible cs n = take n (spread_across_subnets (ranked cs))"
  by (simp add: most_credible_def ranked_def)

lemma ranked_addresses: "dc_address ` set (ranked cs) = dc_address ` set cs"
  by (simp add: ranked_def)

lemma ranked_distinct: "distinct (map dc_address (ranked cs))"
  by (simp add: ranked_def dedup_by_distinct)

lemma ranked_subset: "set (ranked cs) \<subseteq> set cs"
  using dedup_by_subset [of dc_address "sort_key cand_rank cs"] by (simp add: ranked_def)

lemma ranked_least:
  assumes "c \<in> set (ranked cs)" "d \<in> set cs" "dc_address c = dc_address d"
  shows "cand_rank c \<le> cand_rank d"
proof (rule dedup_by_least [where f = cand_rank and key = dc_address])
  show "sorted_wrt (\<lambda>x y. cand_rank x \<le> cand_rank y) (sort_key cand_rank cs)"
    using sorted_sort_key [of cand_rank cs] by (simp add: sorted_map)
qed (use assms in \<open>simp_all add: ranked_def\<close>)

lemma ranked_length: "length (ranked cs) = card (dc_address ` set cs)"
  by (simp add: ranked_def dedup_by_length)

lemma most_credible_length: "length (most_credible cs n) = min n (card (dc_address ` set cs))"
  using mset_eq_length [OF spread_mset [of "ranked cs"]]
  by (simp add: most_credible_ranked ranked_length min.commute)

lemma most_credible_in_ranked: "set (most_credible cs n) \<subseteq> set (ranked cs)"
  using set_take_subset [of n "spread_across_subnets (ranked cs)"]
    mset_eq_setD [OF spread_mset [of "ranked cs"]]
  by (simp add: most_credible_ranked)

lemma most_credible_distinct: "distinct (map dc_address (most_credible cs n))"
proof -
  have "mset (map dc_address (spread_across_subnets (ranked cs))) = mset (map dc_address (ranked cs))"
    by (simp add: spread_mset)
  then have "distinct (map dc_address (spread_across_subnets (ranked cs)))"
    using mset_eq_imp_distinct_iff ranked_distinct by blast
  then show ?thesis by (simp add: most_credible_ranked distinct_take flip: take_map)
qed

text \<open>The discovered addresses of a round, one candidate each: a priority candidate at the same
  address takes its place.\<close>

lemma ranked_discovered:
  "cand_key ` set (discovered_cands (ranked cs)) =
     subnet_of ` (dc_address ` set cs - dc_address ` {c \<in> set cs. dc_origin c = Priority})"
proof (intro equalityI subsetI)
  fix k assume "k \<in> cand_key ` set (discovered_cands (ranked cs))"
  then obtain c where c: "c \<in> set (ranked cs)" "dc_origin c \<noteq> Priority" "k = cand_key c"
    by auto
  have "dc_origin d \<noteq> Priority" if d: "d \<in> set cs" "dc_address d = dc_address c" for d
    using ranked_least [OF c(1) d(1)] d(2) c(2) by auto
  then have "dc_address c \<notin> dc_address ` {c \<in> set cs. dc_origin c = Priority}" by auto
  with c ranked_subset [of cs]
  show "k \<in> subnet_of ` (dc_address ` set cs - dc_address ` {c \<in> set cs. dc_origin c = Priority})"
    by auto
next
  fix k
  assume "k \<in> subnet_of ` (dc_address ` set cs - dc_address ` {c \<in> set cs. dc_origin c = Priority})"
  then obtain a where a: "a \<in> dc_address ` set cs" "k = subnet_of a"
    "a \<notin> dc_address ` {c \<in> set cs. dc_origin c = Priority}" by blast
  then obtain c where c: "c \<in> set (ranked cs)" "dc_address c = a"
    using ranked_addresses [of cs] by (metis imageE)
  with a ranked_subset [of cs] have "dc_origin c \<noteq> Priority" by auto
  with c have "c \<in> set (discovered_cands (ranked cs))" by simp
  moreover have "k = cand_key c" using a c by simp
  ultimately show "k \<in> cand_key ` set (discovered_cands (ranked cs))" by (rule rev_image_eqI)
qed

lemma most_credible_priority_first:
  "most_credible cs n = take n (filter (\<lambda>c. dc_origin c = Priority) (ranked cs)) @
     discovered_cands (most_credible cs n)"
proof -
  let ?p = "filter (\<lambda>c. dc_origin c = Priority) (ranked cs)"
  let ?d = "discovered_cands (spread_across_subnets (ranked cs))"
  have eq: "most_credible cs n = take n ?p @ take (n - length ?p) ?d"
    by (subst most_credible_ranked, subst spread_priority_first) simp
  have p: "discovered_cands (take n ?p) = []"
    by (rule filter_False) (auto dest: in_set_takeD)
  have d: "discovered_cands (take (n - length ?p) ?d) = take (n - length ?p) ?d"
    by (rule filter_True) (auto dest: in_set_takeD)
  have "discovered_cands (most_credible cs n) = take (n - length ?p) ?d"
    unfolding eq filter_append p d by (rule append_Nil)
  with eq show ?thesis by simp
qed

lemma most_credible_discovered:
  "discovered_cands (most_credible cs n) =
     take (n - length (filter (\<lambda>c. dc_origin c = Priority) (ranked cs)))
       (discovered_cands (spread_across_subnets (ranked cs)))"
proof -
  let ?p = "filter (\<lambda>c. dc_origin c = Priority) (ranked cs)"
  let ?d = "discovered_cands (spread_across_subnets (ranked cs))"
  have "most_credible cs n = take n ?p @ take (n - length ?p) ?d"
    by (subst most_credible_ranked, subst spread_priority_first) simp
  with most_credible_priority_first [of cs n] show ?thesis by simp
qed

lemma most_credible_subnets:
  "card (cand_key ` set (discovered_cands (most_credible cs n))) =
     min (length (discovered_cands (most_credible cs n)))
       (card (cand_key ` set (discovered_cands (ranked cs))))"
  by (subst (1 2) most_credible_discovered) (rule spread_prefix_subnets)

declare filter_filter [simp]

section \<open>The reference peak\<close>

lemma reference_peak_None: "reference_peak xs = None \<longleftrightarrow> xs = []"
  by (simp add: reference_peak_def)

lemma reference_peak_mem: "reference_peak xs = Some r \<Longrightarrow> r \<in> set xs"
proof -
  assume r: "reference_peak xs = Some r"
  then have "xs \<noteq> []" "r = sort xs ! ((length xs - 1) div 2)"
    by (auto simp: reference_peak_def split: if_splits)
  moreover from this(1) have "(length xs - 1) div 2 < length (sort xs)" by (cases xs) auto
  ultimately have "r \<in> set (sort xs)" by (metis nth_mem)
  then show ?thesis by simp
qed

lemma sorted_count_ge:
  assumes "sorted ys" "m < length ys"
  shows "length ys - m \<le> length (filter (\<lambda>x. ys ! m \<le> x) ys)"
proof -
  have "set (drop m ys) \<subseteq> {x. ys ! m \<le> x}"
    using assms by (auto simp: in_set_conv_nth sorted_nth_mono)
  then have "filter (\<lambda>x. ys ! m \<le> x) (drop m ys) = drop m ys"
    by (intro filter_True) auto
  moreover have "filter (\<lambda>x. ys ! m \<le> x) ys =
      filter (\<lambda>x. ys ! m \<le> x) (take m ys) @ filter (\<lambda>x. ys ! m \<le> x) (drop m ys)"
    by (metis append_take_drop_id filter_append)
  ultimately show ?thesis by simp
qed

lemma sorted_count_le:
  assumes "sorted ys" "m < length ys"
  shows "Suc m \<le> length (filter (\<lambda>x. x \<le> ys ! m) ys)"
proof -
  have "x \<le> ys ! m" if "x \<in> set (take (Suc m) ys)" for x
    using that assms by (auto simp: in_set_conv_nth intro!: sorted_nth_mono)
  then have "filter (\<lambda>x. x \<le> ys ! m) (take (Suc m) ys) = take (Suc m) ys"
    by (intro filter_True) auto
  moreover have "filter (\<lambda>x. x \<le> ys ! m) ys =
      filter (\<lambda>x. x \<le> ys ! m) (take (Suc m) ys) @ filter (\<lambda>x. x \<le> ys ! m) (drop (Suc m) ys)"
    by (metis append_take_drop_id filter_append)
  ultimately show ?thesis using assms(2) by simp
qed

lemma length_filter_sort: "length (filter P (sort xs)) = length (filter P xs)"
  by (metis mset_filter mset_sort size_mset)

text \<open>Raising the reference to \<open>r\<close> takes more than half the voters, lowering it half.\<close>

lemma reference_peak_raise:
  assumes "reference_peak xs = Some r"
  shows "length xs < 2 * length (filter (\<lambda>x. r \<le> x) xs)"
proof -
  let ?m = "(length xs - 1) div 2"
  have ne: "xs \<noteq> []" and r: "r = sort xs ! ?m"
    using assms by (auto simp: reference_peak_def split: if_splits)
  have m: "?m < length xs" using ne by (cases xs) auto
  have "length xs - ?m \<le> length (filter (\<lambda>x. r \<le> x) xs)"
    using sorted_count_ge [of "sort xs" ?m] m by (simp add: r length_filter_sort)
  with m show ?thesis by linarith
qed

lemma reference_peak_lower:
  assumes "reference_peak xs = Some r"
  shows "length xs \<le> 2 * length (filter (\<lambda>x. x \<le> r) xs)"
proof -
  let ?m = "(length xs - 1) div 2"
  have ne: "xs \<noteq> []" and r: "r = sort xs ! ?m"
    using assms by (auto simp: reference_peak_def split: if_splits)
  have m: "?m < length xs" using ne by (cases xs) auto
  have "Suc ?m \<le> length (filter (\<lambda>x. x \<le> r) xs)"
    using sorted_count_le [of "sort xs" ?m] m by (simp add: r length_filter_sort)
  then show ?thesis by linarith
qed

lemma reference_peak_bounded:
  assumes "reference_peak xs = Some r" and "length xs \<le> 2 * length (filter (\<lambda>x. x \<le> h) xs)"
  shows "r \<le> h"
proof (rule ccontr)
  assume "\<not> r \<le> h"
  then have sub: "filter (\<lambda>x. r \<le> x) xs = filter (\<lambda>x. r \<le> x) (filter (\<lambda>x. \<not> x \<le> h) xs)"
    by (auto intro!: filter_cong)
  have "length (filter (\<lambda>x. r \<le> x) xs) \<le> length (filter (\<lambda>x. \<not> x \<le> h) xs)"
    unfolding sub by (rule length_filter_le)
  moreover have "length (filter (\<lambda>x. x \<le> h) xs) + length (filter (\<lambda>x. \<not> x \<le> h) xs) = length xs"
    by (rule sum_length_filter_compl)
  ultimately show False using reference_peak_raise [OF assms(1)] assms(2) by linarith
qed

section \<open>Properties\<close>

text \<open>Spreading a round never drops or invents a candidate, keeps the priority candidates in
  front in their order, keeps each subnet's candidates in their order, and is fair: in every
  prefix of the discovered candidates, one subnet is ahead of another by more than one only
  when the other has none left.\<close>

theorem spread_fair:
  shows "mset (spread_across_subnets cs) = mset cs \<and>
    spread_across_subnets cs =
      filter (\<lambda>c. dc_origin c = Priority) cs @ discovered_cands (spread_across_subnets cs) \<and>
    in_subnet k (discovered_cands (spread_across_subnets cs)) = in_subnet k (discovered_cands cs) \<and>
    (subnet_count s (take m (discovered_cands (spread_across_subnets cs)))
       \<le> subnet_count t (take m (discovered_cands (spread_across_subnets cs))) + 1 \<or>
     subnet_count t (take m (discovered_cands (spread_across_subnets cs)))
       = subnet_count t (discovered_cands cs))"
proof (intro conjI)
  let ?p = "take m (discovered_cands (spread_across_subnets cs))"
  let ?D = "cand_key ` set (discovered_cands cs)"
  show "mset (spread_across_subnets cs) = mset cs" by (rule spread_mset)
  show "spread_across_subnets cs =
      filter (\<lambda>c. dc_origin c = Priority) cs @ discovered_cands (spread_across_subnets cs)"
    by (rule spread_priority_first)
  show "in_subnet k (discovered_cands (spread_across_subnets cs)) = in_subnet k (discovered_cands cs)"
    by (rule spread_in_subnet)
  have none: "subnet_count j ?p = 0 \<and> subnet_count j (discovered_cands cs) = 0" if "j \<notin> ?D" for j
  proof -
    have "in_subnet j (discovered_cands cs) = []" using that by (auto simp: filter_empty_conv)
    moreover from this have "in_subnet j (discovered_cands (spread_across_subnets cs)) = []"
      using spread_in_subnet [of j cs] by (simp only:)
    then have "in_subnet j ?p = []"
      unfolding filter_empty_conv using in_set_takeD by metis
    ultimately show ?thesis by simp
  qed
  show "subnet_count s ?p \<le> subnet_count t ?p + 1 \<or> subnet_count t ?p = subnet_count t (discovered_cands cs)"
  proof (cases "s \<in> ?D \<and> t \<in> ?D")
    case True
    then show ?thesis using spread_fair_aux [of s cs t m] by blast
  next
    case False
    then show ?thesis using none [of s] none [of t] by linarith
  qed
qed

text \<open>The winners of a round are distinct peers, as many as there are slots or distinct
  addresses; each is the best-ranked candidate at its address (priority before discovered, then
  the faster handshake); priority winners come first; and the discovered winners stand in as many
  distinct subnets as their number and the round allow.\<close>

theorem most_credible_budget:
  "length (most_credible cs n) = min n (card (dc_address ` set cs)) \<and>
   distinct (map dc_address (most_credible cs n)) \<and>
   set (most_credible cs n) \<subseteq>
     {c \<in> set cs. \<forall>d \<in> set cs. dc_address d = dc_address c \<longrightarrow>
        (dc_origin c \<noteq> Priority, dc_handshake c) \<le> (dc_origin d \<noteq> Priority, dc_handshake d)} \<and>
   card (cand_key ` set (discovered_cands (most_credible cs n))) =
     min (length (discovered_cands (most_credible cs n)))
       (card (subnet_of ` (dc_address ` set cs - dc_address ` {c \<in> set cs. dc_origin c = Priority})))"
  using most_credible_length [of cs n] most_credible_distinct [of cs n]
    most_credible_subnets [of cs n] ranked_discovered [of cs]
    most_credible_in_ranked [of cs n] ranked_subset [of cs] ranked_least [of _ cs]
  by (auto simp del: less_eq_prod_simp)

definition example_cand :: "peer_origin \<Rightarrow> 32 word \<Rightarrow> nat \<Rightarrow> nat dial_candidate" where
  "example_cand org w t = \<lparr>dc_origin = org, dc_address = example_addr w, dc_handshake = t, dc_connection = 0\<rparr>"

lemma most_credible_witness:
  "length (most_credible (replicate 8 (example_cand Priority 1 5) @ [example_cand Discovered 2 9]) 8) = 2"
proof -
  have "dc_address ` set (replicate 8 (example_cand Priority 1 5) @ [example_cand Discovered 2 9]) =
      {example_addr 1, example_addr 2}"
    by (auto simp: example_cand_def)
  then show ?thesis
    using most_credible_budget [of "replicate 8 (example_cand Priority 1 5) @ [example_cand Discovered 2 9]" 8]
    by simp
qed

end
