(* ===== verification/Translate.thy ===== *)
theory Translate
  imports Types
begin

text \<open>
  \<open>src/peer/translate.rs\<close> and \<open>Coin::from_protocol\<close>: the \<open>chia_protocol\<close> types the peers
  answer with, and their conversion to the crate's own. The \<open>hex\<close> crate is a parameter, a
  record of its two functions; what it documents is \<open>hex_ok\<close>.
\<close>

section \<open>The hex codec and byte strings\<close>

type_synonym bytes = "u8 list"

record hex_codec =
  hex_encode :: "bytes \<Rightarrow> string"
  hex_decode :: "string \<Rightarrow> string + bytes"

definition is_hex_char :: "char \<Rightarrow> bool" where
  "is_hex_char c \<longleftrightarrow>
     (let n = (of_char c :: nat) in (48 \<le> n \<and> n \<le> 57) \<or> (97 \<le> n \<and> n \<le> 102))"

definition hex_ok :: "hex_codec \<Rightarrow> bool" where
  "hex_ok hx \<longleftrightarrow>
     (\<forall>b. hex_decode hx (hex_encode hx b) = Inr b) \<and>
     (\<forall>b. list_all is_hex_char (hex_encode hx b))"

definition parse_hex :: "hex_codec \<Rightarrow> string \<Rightarrow> bytes query" where
  "parse_hex hx s =
     (let s = (case strip_prefix ''0x'' s of Some t \<Rightarrow> t | None \<Rightarrow> s)
      in map_err (\<lambda>e. InvalidRequest (''bad hex: '' @ e)) (hex_decode hx s))"

definition parse_bytes32 :: "hex_codec \<Rightarrow> string \<Rightarrow> bytes query" where
  "parse_bytes32 hx s =
     rbind (parse_hex hx s) (\<lambda>bs.
       if length bs = 32 then Inr bs else Inl (InvalidRequest ''expected 32 bytes''))"

definition hex32 :: "hex_codec \<Rightarrow> bytes \<Rightarrow> string" where
  "hex32 hx b = ''0x'' @ hex_encode hx b"

definition hex_bytes :: "hex_codec \<Rightarrow> bytes \<Rightarrow> string" where
  "hex_bytes hx b = ''0x'' @ hex_encode hx b"

section \<open>Protocol types\<close>

record proto_coin =
  pc_parent_coin_info :: bytes
  pc_puzzle_hash :: bytes
  pc_amount :: u64

record coin_state =
  cst_coin :: proto_coin
  spent_height :: "u32 option"
  created_height :: "u32 option"

record header_block =
  hb_height :: u32
  hb_weight :: u64
  hb_total_iters :: u64
  hb_signage_point_index :: u8
  hb_reward_block_hash :: bytes
  hb_prev_block_hash :: bytes
  hb_farmer_reward_puzzle_hash :: bytes
  hb_foliage_timestamp :: "u64 option"

text \<open>A 64-bit float is its bit pattern; the crate only writes the constant zero.\<close>

type_synonym f64_bits = u64

record fee_estimate =
  estimates :: "f64_bits list"
  target_times :: "u64 list"
  current_fee_rate :: f64_bits
  fe_mempool_size :: u64
  fe_mempool_fees :: u64
  fe_mempool_max_size :: u64
  num_spends :: u64
  full_node_synced :: bool
  fe_peak_height :: u32
  last_peak_timestamp :: u64
  last_block_cost :: u64
  fees_last_block :: u64
  fee_rate_last_block :: f64_bits
  last_tx_block_height :: u32
  node_time_utc :: u64

section \<open>Conversions\<close>

definition from_protocol :: "hex_codec \<Rightarrow> proto_coin \<Rightarrow> coin" where
  "from_protocol hx c =
     \<lparr>parent_coin_info = ''0x'' @ hex_encode hx (pc_parent_coin_info c),
      puzzle_hash = ''0x'' @ hex_encode hx (pc_puzzle_hash c),
      amount = pc_amount c\<rparr>"

definition coin_state_to_record :: "hex_codec \<Rightarrow> coin_state \<Rightarrow> coin_record" where
  "coin_state_to_record hx cs =
     \<lparr>cr_coin = from_protocol hx (cst_coin cs),
      confirmed_block_index = (case created_height cs of None \<Rightarrow> 0 | Some h \<Rightarrow> h),
      spent_block_index = (case spent_height cs of None \<Rightarrow> 0 | Some h \<Rightarrow> h),
      spent = (spent_height cs \<noteq> None),
      coinbase = False,
      cr_timestamp = 0\<rparr>"

definition coin_states_to_records :: "hex_codec \<Rightarrow> coin_state list \<Rightarrow> coin_record list" where
  "coin_states_to_records hx states = map (coin_state_to_record hx) states"

definition make_coin_spend :: "hex_codec \<Rightarrow> proto_coin \<Rightarrow> bytes \<Rightarrow> bytes \<Rightarrow> coin_spend" where
  "make_coin_spend hx c puzzle sol =
     \<lparr>cs_coin = from_protocol hx c,
      puzzle_reveal = hex_bytes hx puzzle,
      solution = hex_bytes hx sol\<rparr>"

definition make_fee_estimate :: "f64_bits list \<Rightarrow> u64 list \<Rightarrow> fee_estimate" where
  "make_fee_estimate es ts =
     \<lparr>estimates = es, target_times = ts, current_fee_rate = 0, fe_mempool_size = 0,
      fe_mempool_fees = 0, fe_mempool_max_size = 0, num_spends = 0, full_node_synced = False,
      fe_peak_height = 0, last_peak_timestamp = 0, last_block_cost = 0, fees_last_block = 0,
      fee_rate_last_block = 0, last_tx_block_height = 0, node_time_utc = 0\<rparr>"

definition header_block_to_block_record :: "hex_codec \<Rightarrow> header_block \<Rightarrow> block_record" where
  "header_block_to_block_record hx hb =
     \<lparr>br_header_hash = hex32 hx (hb_reward_block_hash hb),
      br_height = hb_height hb,
      br_weight = hb_weight hb,
      br_prev_hash = hex32 hx (hb_prev_block_hash hb),
      br_total_iters = hb_total_iters hb,
      br_signage_point_index = hb_signage_point_index hb,
      br_farmer_puzzle_hash = hex32 hx (hb_farmer_reward_puzzle_hash hb),
      br_pool_puzzle_hash = [],
      br_timestamp = hb_foliage_timestamp hb,
      br_fees = None,
      br_extra = JNull\<rparr>"

definition additions_removals_to_response ::
  "hex_codec \<Rightarrow> (bytes \<times> proto_coin list) list \<Rightarrow> (bytes \<times> proto_coin option) list \<Rightarrow> u32 \<Rightarrow>
   additions_and_removals" where
  "additions_removals_to_response hx adds rems height =
     \<lparr>additions =
        concat (map (\<lambda>(_, coins). map (\<lambda>c.
          \<lparr>cr_coin = from_protocol hx c, confirmed_block_index = height, spent_block_index = 0,
           spent = False, coinbase = False, cr_timestamp = 0\<rparr>) coins) adds),
      removals =
        map (\<lambda>c.
          \<lparr>cr_coin = from_protocol hx c, confirmed_block_index = 0, spent_block_index = height,
           spent = True, coinbase = False, cr_timestamp = 0\<rparr>)
          (List.map_filter snd rems)\<rparr>"

section \<open>Facts\<close>

lemma strip_0x [simp]: "strip_prefix ''0x'' (''0x'' @ s) = Some s"
  by (simp add: strip_prefix_Some)

lemma hex_encode_inj: "hex_ok hx \<Longrightarrow> hex_encode hx a = hex_encode hx b \<longleftrightarrow> a = b"
  unfolding hex_ok_def by (metis sum.inject(2))

lemma hex_plain:
  assumes "hex_ok hx"
  shows "plain_field (''0x'' @ hex_encode hx b)"
proof -
  have "list_all is_hex_char (hex_encode hx b)" using assms by (simp add: hex_ok_def)
  then have "\<And>c. c \<in> set (hex_encode hx b) \<Longrightarrow> is_hex_char c" by (simp add: list_all_iff)
  moreover have "\<not> is_hex_char CHR '',''" "\<not> is_hex_char CHR '')''" "\<not> is_hex_char CHR '' ''"
    "\<not> is_hex_char CHR '':''"
    by (simp_all add: is_hex_char_def)
  ultimately show ?thesis by (auto simp: plain_field_def)
qed

lemma from_protocol_plain: "hex_ok hx \<Longrightarrow> plain_coin (from_protocol hx c)"
  using hex_plain by (simp add: plain_coin_def from_protocol_def)

lemma from_protocol_inj:
  "hex_ok hx \<Longrightarrow> from_protocol hx c = from_protocol hx d \<longleftrightarrow> c = d"
  by (auto simp: from_protocol_def hex_encode_inj intro: proto_coin.equality)

lemma coin_state_to_record_spent_at [simp]:
  "spent_at (coin_state_to_record hx cs) = spent_height cs"
  by (auto simp: spent_at_def coin_state_to_record_def split: option.splits)

lemma parse_hex_hex_bytes: "hex_ok hx \<Longrightarrow> parse_hex hx (hex_bytes hx b) = Inr b"
  using strip_0x [of "hex_encode hx b"] by (simp add: parse_hex_def hex_bytes_def hex_ok_def del: strip_0x)

lemma parse_bytes32_length: "parse_bytes32 hx s = Inr b \<Longrightarrow> length b = 32"
  by (auto simp: parse_bytes32_def rbind_Inr split: if_splits)

lemma parse_bytes32_hex32: "hex_ok hx \<Longrightarrow> length b = 32 \<Longrightarrow> parse_bytes32 hx (hex32 hx b) = Inr b"
  using parse_hex_hex_bytes [of hx b] by (simp add: parse_bytes32_def hex32_def hex_bytes_def)

section \<open>A codec\<close>

text \<open>The two functions of the \<open>hex\<close> crate on concrete data, for evaluation at examples.\<close>

definition nibble_char :: "u8 \<Rightarrow> char" where
  "nibble_char n = (if n < 10 then char_of (48 + unat n) else char_of (87 + unat n))"

definition char_nibble :: "char \<Rightarrow> u8 option" where
  "char_nibble c =
     (let n = (of_char c :: nat)
      in if 48 \<le> n \<and> n \<le> 57 then Some (of_nat (n - 48))
         else if 97 \<le> n \<and> n \<le> 102 then Some (of_nat (n - 87))
         else if 65 \<le> n \<and> n \<le> 70 then Some (of_nat (n - 55))
         else None)"

definition example_encode :: "bytes \<Rightarrow> string" where
  "example_encode bs = concat (map (\<lambda>b. [nibble_char (b div 16), nibble_char (b mod 16)]) bs)"

fun example_decode :: "string \<Rightarrow> string + bytes" where
  "example_decode [] = Inr []"
| "example_decode [c] = Inl ''Odd number of digits''"
| "example_decode (c # d # s) =
     (case (char_nibble c, char_nibble d) of
        (Some h, Some l) \<Rightarrow> map_ok (\<lambda>bs. (16 * h + l) # bs) (example_decode s)
      | _ \<Rightarrow> Inl ''Invalid character'')"

definition example_codec :: hex_codec where
  "example_codec = \<lparr>hex_encode = example_encode, hex_decode = example_decode\<rparr>"

lemma unat_div16: "unat (b div 16 :: u8) = unat b div 16" "unat (b mod 16 :: u8) = unat b mod 16"
  by (simp_all add: unat_div unat_mod)

lemma nibble_range: "b div 16 < (16::u8)" "b mod 16 < (16::u8)"
proof -
  have "unat b < 256" using unsigned_less [of b] by simp
  then show "b div 16 < 16" "b mod 16 < 16"
    by (simp_all add: word_less_nat_alt unat_div16 less_mult_imp_div_less)
qed

lemma nibble_roundtrip: "n < 16 \<Longrightarrow> char_nibble (nibble_char n) = Some n"
  by (auto simp: char_nibble_def nibble_char_def Let_def word_less_nat_alt)

lemma nibble_hex: "n < 16 \<Longrightarrow> is_hex_char (nibble_char n)"
  by (auto simp: is_hex_char_def nibble_char_def Let_def word_less_nat_alt)

lemma byte_join: "16 * (b div 16) + b mod 16 = (b::u8)"
  by (rule mult_div_mod_eq)

lemma example_roundtrip: "example_decode (example_encode bs) = Inr bs"
  by (induction bs) (simp_all add: example_encode_def nibble_roundtrip nibble_range byte_join)

lemma example_codec_ok: "hex_ok example_codec"
proof -
  have "list_all is_hex_char (example_encode b)" for b
    by (simp add: example_encode_def list_all_iff nibble_hex nibble_range)
  then show ?thesis by (simp add: hex_ok_def example_codec_def example_roundtrip)
qed

section \<open>Properties\<close>

text \<open>Two coin states translate to the same chain claim exactly when they are about the same
  coin, at the same created height and the same spent height; a coin reported with no created
  height is indistinguishable from one created at height zero, the only information the
  translation loses.\<close>

theorem coin_state_claim_faithful:
  assumes "hex_ok hx"
  shows "chain_claim_record (coin_state_to_record hx cs) = chain_claim_record (coin_state_to_record hx ds) \<longleftrightarrow>
    cst_coin cs = cst_coin ds \<and> spent_height cs = spent_height ds \<and>
    (case created_height cs of None \<Rightarrow> 0 | Some h \<Rightarrow> h) = (case created_height ds of None \<Rightarrow> 0 | Some h \<Rightarrow> h)"
proof -
  have f: "cr_coin (coin_state_to_record hx c) = from_protocol hx (cst_coin c)"
    "confirmed_block_index (coin_state_to_record hx c) =
      (case created_height c of None \<Rightarrow> 0 | Some h \<Rightarrow> h)" for c
    by (simp_all add: coin_state_to_record_def)
  have p: "plain_coin (cr_coin (coin_state_to_record hx c))" for c
    by (simp add: f from_protocol_plain [OF assms])
  show ?thesis
    unfolding record_claim_eq [OF p p] f coin_state_to_record_spent_at from_protocol_inj [OF assms]
    by blast
qed

definition example_coin :: proto_coin where
  "example_coin = \<lparr>pc_parent_coin_info = [1, 255], pc_puzzle_hash = [16], pc_amount = 5\<rparr>"

lemma coin_state_claim_witness:
  "chain_claim_record (coin_state_to_record example_codec
      \<lparr>cst_coin = example_coin, spent_height = None, created_height = None\<rparr>) =
   chain_claim_record (coin_state_to_record example_codec
      \<lparr>cst_coin = example_coin, spent_height = None, created_height = Some 0\<rparr>) \<and>
   chain_claim_record (coin_state_to_record example_codec
      \<lparr>cst_coin = example_coin, spent_height = None, created_height = None\<rparr>) \<noteq>
   chain_claim_record (coin_state_to_record example_codec
      \<lparr>cst_coin = example_coin, spent_height = Some 9, created_height = Some 0\<rparr>)"
  by (subst (1 2) coin_state_claim_faithful [OF example_codec_ok]) simp

text \<open>\<open>parse_bytes32\<close> inverts \<open>hex32\<close> on 32-byte hashes, with or without the prefix, and
  whatever it accepts is 32 bytes long.\<close>

theorem parse_bytes32_roundtrip:
  assumes "hex_ok hx" "length b = 32"
  shows "parse_bytes32 hx (hex32 hx b) = Inr b \<and> parse_bytes32 hx (hex_encode hx b) = Inr b \<and>
    (parse_bytes32 hx s = Inr c \<longrightarrow> length c = 32)"
proof -
  have "strip_prefix ''0x'' (hex_encode hx b) = None"
  proof (cases "strip_prefix ''0x'' (hex_encode hx b)")
    case (Some t)
    then have "CHR ''x'' \<in> set (hex_encode hx b)" by (simp add: strip_prefix_Some)
    moreover have "list_all is_hex_char (hex_encode hx b)" using assms(1) by (simp add: hex_ok_def)
    ultimately have "is_hex_char CHR ''x''" by (simp add: list_all_iff)
    then show ?thesis by (simp add: is_hex_char_def)
  qed
  then have "parse_bytes32 hx (hex_encode hx b) = Inr b"
    using assms by (simp add: parse_bytes32_def parse_hex_def hex_ok_def)
  then show ?thesis
    using parse_bytes32_hex32 [OF assms] parse_bytes32_length [of hx s c] by simp
qed

lemma parse_bytes32_witness:
  "parse_bytes32 example_codec (hex32 example_codec (replicate 32 7)) = Inr (replicate 32 7)"
  using parse_bytes32_roundtrip [OF example_codec_ok, of "replicate 32 7"] by simp

end
