(* ===== verification/Frames.thy ===== *)
theory Frames
  imports Net_Addr Translate "HOL-Library.Sublist"
begin

text \<open>
  \<open>src/peer/frames.rs\<close>: the fan-out of a session's frames to its subscribers. A bounded
  \<open>tokio\<close> channel is a queue with a capacity and the two facts of whether its receiver and
  its sender still exist; channels live in a store and the subscriber table holds their
  numbers, so two tables may not share one by accident.
\<close>

section \<open>Sessions and frames\<close>

datatype session_id = SessionId u64

primrec session_no :: "session_id \<Rightarrow> u64" where
  "session_no (SessionId n) = n"

instantiation session_id :: linorder
begin

definition less_eq_session_id :: "session_id \<Rightarrow> session_id \<Rightarrow> bool" where
  "less_eq_session_id a b \<longleftrightarrow> session_no a \<le> session_no b"

definition less_session_id :: "session_id \<Rightarrow> session_id \<Rightarrow> bool" where
  "less_session_id a b \<longleftrightarrow> session_no a < session_no b"

instance
proof
  fix x y z :: session_id
  show "x < y \<longleftrightarrow> x \<le> y \<and> \<not> y \<le> x"
    by (auto simp: less_eq_session_id_def less_session_id_def)
  show "x \<le> x" by (simp add: less_eq_session_id_def)
  show "x \<le> y \<Longrightarrow> y \<le> z \<Longrightarrow> x \<le> z" by (simp add: less_eq_session_id_def)
  show "x \<le> y \<Longrightarrow> y \<le> x \<Longrightarrow> x = y"
    by (cases x; cases y) (simp add: less_eq_session_id_def)
  show "x \<le> y \<or> y \<le> x" by (auto simp: less_eq_session_id_def)
qed

end

record frame_source =
  fs_address :: socket_addr
  fs_session :: session_id

datatype session_end_reason = Disconnected | UndecodableFrame | OversizedFrame

definition MAX_FRAME_COIN_STATES :: nat where
  "MAX_FRAME_COIN_STATES = 100000"

datatype pool_frame =
    Reset
  | Peak u32 bytes
  | CoinStates u32 u32 bytes "coin_state list"
  | SessionEnded session_end_reason

record sourced_frame =
  sf_source :: frame_source
  sf_frame :: pool_frame

section \<open>Bounded channels\<close>

record channel =
  ch_cap :: nat
  ch_queue :: "sourced_frame list"
  rx_open :: bool
  tx_open :: bool

datatype send_error = Full | Closed

definition try_send :: "channel \<Rightarrow> sourced_frame \<Rightarrow> send_error + channel" where
  "try_send ch f =
     (if \<not> rx_open ch then Inl Closed
      else if ch_cap ch \<le> length (ch_queue ch) then Inl Full
      else Inr (ch\<lparr>ch_queue := ch_queue ch @ [f]\<rparr>))"

datatype recv_result = Got sourced_frame | Ended | Waiting

text \<open>\<open>FrameSubscription::recv\<close>: the next frame, the end of the stream, or a wait.\<close>

definition channel_recv :: "channel \<Rightarrow> recv_result \<times> channel" where
  "channel_recv ch =
     (case ch_queue ch of
        f # fs \<Rightarrow> (Got f, ch\<lparr>ch_queue := fs\<rparr>)
      | [] \<Rightarrow> (if tx_open ch then Waiting else Ended, ch))"

section \<open>The fan-out\<close>

record fanout =
  subscribers :: "frame_source \<Rightarrow> nat list option"
  channels :: "nat \<Rightarrow> channel option"
  next_channel :: nat
  next_session :: u64

definition fanout_new :: fanout where
  "fanout_new = \<lparr>subscribers = Map.empty, channels = Map.empty, next_channel = 0, next_session = 0\<rparr>"

definition allocate_session :: "socket_addr \<Rightarrow> fanout \<Rightarrow> frame_source \<times> fanout" where
  "allocate_session a fo =
     (\<lparr>fs_address = a, fs_session = SessionId (next_session fo)\<rparr>,
      fo\<lparr>next_session := next_session fo + 1\<rparr>)"

text \<open>\<open>retain\<close> over the followers: the store after the sends and the followers kept. A sender
  that is not kept is dropped, which ends its stream.\<close>

fun retain_send ::
  "sourced_frame \<Rightarrow> nat list \<Rightarrow> (nat \<Rightarrow> channel option) \<Rightarrow> (nat \<Rightarrow> channel option) \<times> nat list" where
  "retain_send f [] chs = (chs, [])"
| "retain_send f (i # is) chs =
     (case chs i of
        None \<Rightarrow> retain_send f is chs
      | Some ch \<Rightarrow>
         (case try_send ch f of
            Inr ch' \<Rightarrow> (let (chs', kept) = retain_send f is (chs(i \<mapsto> ch')) in (chs', i # kept))
          | Inl _ \<Rightarrow> retain_send f is (chs(i \<mapsto> ch\<lparr>tx_open := False\<rparr>))))"

fun drop_senders :: "nat list \<Rightarrow> (nat \<Rightarrow> channel option) \<Rightarrow> (nat \<Rightarrow> channel option)" where
  "drop_senders [] chs = chs"
| "drop_senders (i # is) chs =
     drop_senders is (chs(i := map_option (tx_open_update (\<lambda>_. False)) (chs i)))"

definition ends_session :: "pool_frame \<Rightarrow> bool" where
  "ends_session f = (case f of SessionEnded _ \<Rightarrow> True | _ \<Rightarrow> False)"

definition publish :: "frame_source \<Rightarrow> pool_frame \<Rightarrow> fanout \<Rightarrow> fanout" where
  "publish s f fo =
     (case subscribers fo s of
        None \<Rightarrow> fo
      | Some followers \<Rightarrow>
         (let (chs, kept) = retain_send \<lparr>sf_source = s, sf_frame = f\<rparr> followers (channels fo)
          in if ends_session f
             then fo\<lparr>subscribers := (subscribers fo)(s := None), channels := drop_senders kept chs\<rparr>
             else fo\<lparr>subscribers := (subscribers fo)(s \<mapsto> kept), channels := chs\<rparr>))"

definition open_session :: "frame_source \<Rightarrow> fanout \<Rightarrow> fanout" where
  "open_session s fo =
     publish s Reset
       (case subscribers fo s of
          None \<Rightarrow> fo\<lparr>subscribers := (subscribers fo)(s \<mapsto> [])\<rparr>
        | Some _ \<Rightarrow> fo)"

text \<open>A subscription is the number of its channel. The channel's first frame is the \<open>Reset\<close>
  queued before it is registered; the capacity is at least one, so the send succeeds.\<close>

definition subscribe :: "frame_source \<Rightarrow> nat \<Rightarrow> fanout \<Rightarrow> nat option \<times> fanout" where
  "subscribe s capacity fo =
     (let fresh = \<lparr>ch_cap = max capacity 1, ch_queue = [], rx_open = True, tx_open = True\<rparr>
      in case subscribers fo s of
           None \<Rightarrow> (None, fo)
         | Some followers \<Rightarrow>
            (case try_send fresh \<lparr>sf_source = s, sf_frame = Reset\<rparr> of
               Inl _ \<Rightarrow> (None, fo)
             | Inr ch \<Rightarrow>
                (let i = next_channel fo
                 in (Some i,
                     fo\<lparr>subscribers := (subscribers fo)(s \<mapsto> followers @ [i]),
                        channels := (channels fo)(i \<mapsto> ch),
                        next_channel := Suc i\<rparr>))))"

definition fanout_recv :: "nat \<Rightarrow> fanout \<Rightarrow> recv_result \<times> fanout" where
  "fanout_recv i fo =
     (case channels fo i of
        None \<Rightarrow> (Ended, fo)
      | Some ch \<Rightarrow> (let (r, ch') = channel_recv ch in (r, fo\<lparr>channels := (channels fo)(i \<mapsto> ch')\<rparr>)))"

text \<open>Dropping a \<open>FrameSubscription\<close> closes its receiver.\<close>

definition drop_subscription :: "nat \<Rightarrow> fanout \<Rightarrow> fanout" where
  "drop_subscription i fo =
     fo\<lparr>channels := (channels fo)(i := map_option (rx_open_update (\<lambda>_. False)) (channels fo i))\<rparr>"

definition subscriber_count :: "fanout \<Rightarrow> nat" where
  "subscriber_count fo = (\<Sum>s \<in> dom (subscribers fo). length (the (subscribers fo s)))"

section \<open>Operations in sequence\<close>

datatype fan_op =
    OpOpen frame_source
  | OpPublish frame_source pool_frame
  | OpSubscribe frame_source nat
  | OpRecv nat
  | OpDrop nat

primrec fan_apply :: "fan_op \<Rightarrow> fanout \<Rightarrow> fanout" where
  "fan_apply (OpOpen s) fo = open_session s fo"
| "fan_apply (OpPublish s f) fo = publish s f fo"
| "fan_apply (OpSubscribe s c) fo = snd (subscribe s c fo)"
| "fan_apply (OpRecv i) fo = snd (fanout_recv i fo)"
| "fan_apply (OpDrop i) fo = drop_subscription i fo"

fun fan_run :: "fan_op list \<Rightarrow> fanout \<Rightarrow> fanout" where
  "fan_run [] fo = fo"
| "fan_run (op # ops) fo = fan_run ops (fan_apply op fo)"

text \<open>What the receiver of channel \<open>i\<close> is handed over a run, and what the source published.\<close>

fun fan_received :: "nat \<Rightarrow> fan_op list \<Rightarrow> fanout \<Rightarrow> sourced_frame list" where
  "fan_received i [] fo = []"
| "fan_received i (op # ops) fo =
     (case op of
        OpRecv j \<Rightarrow> (if j = i then (case fst (fanout_recv i fo) of Got f \<Rightarrow> [f] | _ \<Rightarrow> []) else [])
      | _ \<Rightarrow> []) @ fan_received i ops (fan_apply op fo)"

fun published_by :: "frame_source \<Rightarrow> fan_op list \<Rightarrow> sourced_frame list" where
  "published_by s [] = []"
| "published_by s (op # ops) =
     (case op of
        OpPublish r f \<Rightarrow> (if r = s then [\<lparr>sf_source = s, sf_frame = f\<rparr>] else [])
      | OpOpen r \<Rightarrow> (if r = s then [\<lparr>sf_source = s, sf_frame = Reset\<rparr>] else [])
      | _ \<Rightarrow> []) @ published_by s ops"

section \<open>The invariant\<close>

text \<open>Every sender in the table is a channel of its own, held for exactly one source; a channel
  has its sender exactly while the table holds it; a queue never outgrows its capacity.\<close>

definition fan_inv :: "fanout \<Rightarrow> bool" where
  "fan_inv fo \<longleftrightarrow>
     (\<forall>s is. subscribers fo s = Some is \<longrightarrow> distinct is) \<and>
     (\<forall>s t is js. subscribers fo s = Some is \<longrightarrow> subscribers fo t = Some js \<longrightarrow> s \<noteq> t \<longrightarrow>
        set is \<inter> set js = {}) \<and>
     (\<forall>s is i. subscribers fo s = Some is \<longrightarrow> i \<in> set is \<longrightarrow>
        (\<exists>ch. channels fo i = Some ch \<and> tx_open ch)) \<and>
     (\<forall>i ch. channels fo i = Some ch \<longrightarrow>
        i < next_channel fo \<and> 1 \<le> ch_cap ch \<and> length (ch_queue ch) \<le> ch_cap ch \<and>
        (tx_open ch \<longrightarrow> (\<exists>s is. subscribers fo s = Some is \<and> i \<in> set is)))"

lemma fan_invD:
  assumes "fan_inv fo"
  shows "subscribers fo s = Some ks \<Longrightarrow> distinct ks"
    and "subscribers fo s = Some ks \<Longrightarrow> subscribers fo t = Some js \<Longrightarrow> s \<noteq> t \<Longrightarrow> set ks \<inter> set js = {}"
    and "subscribers fo s = Some ks \<Longrightarrow> i \<in> set ks \<Longrightarrow> \<exists>ch. channels fo i = Some ch \<and> tx_open ch"
    and "channels fo i = Some ch \<Longrightarrow> i < next_channel fo \<and> 1 \<le> ch_cap ch \<and> length (ch_queue ch) \<le> ch_cap ch"
    and "channels fo i = Some ch \<Longrightarrow> tx_open ch \<Longrightarrow> \<exists>s ks. subscribers fo s = Some ks \<and> i \<in> set ks"
  using assms unfolding fan_inv_def by blast+

section \<open>What an operation does to one channel\<close>

definition after_send :: "sourced_frame \<Rightarrow> channel \<Rightarrow> channel" where
  "after_send f ch = (case try_send ch f of Inr ch' \<Rightarrow> ch' | Inl _ \<Rightarrow> ch\<lparr>tx_open := False\<rparr>)"

definition accepts :: "sourced_frame \<Rightarrow> channel \<Rightarrow> bool" where
  "accepts f ch \<longleftrightarrow> rx_open ch \<and> length (ch_queue ch) < ch_cap ch"

lemma after_send_simps [simp]:
  "ch_cap (after_send f ch) = ch_cap ch" "rx_open (after_send f ch) = rx_open ch"
  "ch_queue (after_send f ch) = (if accepts f ch then ch_queue ch @ [f] else ch_queue ch)"
  "tx_open (after_send f ch) = (tx_open ch \<and> accepts f ch)"
  by (auto simp: after_send_def try_send_def accepts_def)

lemma try_send_accepts: "(\<exists>ch'. try_send ch f = Inr ch') \<longleftrightarrow> accepts f ch"
  by (auto simp: try_send_def accepts_def)

lemma retain_send_spec:
  assumes "retain_send f ks chs = (chs', kept)" and "distinct ks"
  shows "kept = filter (\<lambda>i. \<exists>ch. chs i = Some ch \<and> accepts f ch) ks \<and>
    chs' = (\<lambda>j. if j \<in> set ks then map_option (after_send f) (chs j) else chs j)"
  using assms
proof (induction f ks chs arbitrary: chs' kept rule: retain_send.induct)
  case (2 f i ks chs)
  have i: "i \<notin> set ks" "distinct ks" using "2.prems"(2) by simp_all
  show ?case
  proof (cases "chs i")
    case None
    then have "retain_send f ks chs = (chs', kept)" using "2.prems"(1) by simp
    from "2.IH"(1) [OF None this i(2)] have
      "kept = filter (\<lambda>i. \<exists>ch. chs i = Some ch \<and> accepts f ch) ks"
      "chs' = (\<lambda>j. if j \<in> set ks then map_option (after_send f) (chs j) else chs j)"
      by simp_all
    with None show ?thesis by (auto simp: fun_eq_iff)
  next
    case (Some ch)
    define u where "u = chs(i \<mapsto> after_send f ch)"
    have same: "filter (\<lambda>j. \<exists>c. u j = Some c \<and> accepts f c) ks =
                filter (\<lambda>j. \<exists>c. chs j = Some c \<and> accepts f c) ks"
      using i(1) by (intro filter_cong) (auto simp: u_def)
    show ?thesis
    proof (cases "try_send ch f")
      case (Inl e)
      then have na: "\<not> accepts f ch" using try_send_accepts [of ch f] by auto
      have ae: "after_send f ch = ch\<lparr>tx_open := False\<rparr>" using Inl by (simp add: after_send_def)
      have "retain_send f ks u = (chs', kept)"
        using "2.prems"(1) Some Inl by (simp add: u_def ae)
      then have "kept = filter (\<lambda>j. \<exists>c. u j = Some c \<and> accepts f c) ks \<and>
          chs' = (\<lambda>j. if j \<in> set ks then map_option (after_send f) (u j) else u j)"
        using "2.IH"(2) [OF Some Inl] i(2) unfolding u_def ae fun_upd_def by blast
      then show ?thesis using Some na i(1) unfolding same by (auto simp: u_def fun_eq_iff)
    next
      case (Inr ch')
      then have na: "accepts f ch" using try_send_accepts [of ch f] by auto
      have ae: "after_send f ch = ch'" using Inr by (simp add: after_send_def)
      obtain ks' where k: "retain_send f ks u = (chs', ks')" "kept = i # ks'"
        using "2.prems"(1) Some Inr by (auto simp: u_def ae split: prod.splits)
      then have "ks' = filter (\<lambda>j. \<exists>c. u j = Some c \<and> accepts f c) ks \<and>
          chs' = (\<lambda>j. if j \<in> set ks then map_option (after_send f) (u j) else u j)"
        using "2.IH"(3) [OF Some Inr] i(2) unfolding u_def ae fun_upd_def by blast
      then show ?thesis using Some na i(1) k(2) unfolding same by (auto simp: u_def fun_eq_iff)
    qed
  qed
qed (simp add: fun_eq_iff)

lemma drop_senders_spec:
  "drop_senders ks chs j = (if j \<in> set ks then map_option (tx_open_update (\<lambda>_. False)) (chs j) else chs j)"
proof (induction ks chs rule: drop_senders.induct)
  case (2 i ks chs)
  then show ?case by (cases "chs j") (auto simp: fun_upd_def)
qed simp

lemma publish_none: "subscribers fo s = None \<Longrightarrow> publish s f fo = fo"
  by (simp add: publish_def)

lemma publish_some:
  fixes f :: pool_frame
  assumes "fan_inv fo" "subscribers fo s = Some ks"
  defines "g \<equiv> \<lparr>sf_source = s, sf_frame = f\<rparr>"
  defines "kept \<equiv> filter (\<lambda>i. \<exists>ch. channels fo i = Some ch \<and> accepts g ch) ks"
  shows "subscribers (publish s f fo) =
      (subscribers fo)(s := if ends_session f then None else Some kept)"
    and "channels (publish s f fo) j =
      (if j \<in> set ks then map_option (\<lambda>ch. let c = after_send g ch
         in if ends_session f then c\<lparr>tx_open := False\<rparr> else c) (channels fo j)
       else channels fo j)"
    and "next_channel (publish s f fo) = next_channel fo"
    and "next_session (publish s f fo) = next_session fo"
proof -
  obtain chs kp where r: "retain_send g ks (channels fo) = (chs, kp)"
    by (cases "retain_send g ks (channels fo)")
  from retain_send_spec [OF r fan_invD(1) [OF assms(1,2)]] have
    k: "kp = kept" and c: "chs = (\<lambda>j. if j \<in> set ks then map_option (after_send g) (channels fo j) else channels fo j)"
    by (simp_all add: kept_def)
  have p: "publish s f fo =
      (if ends_session f
       then fo\<lparr>subscribers := (subscribers fo)(s := None), channels := drop_senders kept chs\<rparr>
       else fo\<lparr>subscribers := (subscribers fo)(s \<mapsto> kept), channels := chs\<rparr>)"
    using assms(2) r by (simp add: publish_def k flip: g_def)
  show "subscribers (publish s f fo) =
      (subscribers fo)(s := if ends_session f then None else Some kept)"
    and "next_channel (publish s f fo) = next_channel fo"
    and "next_session (publish s f fo) = next_session fo"
    by (simp_all add: p)
  show "channels (publish s f fo) j =
      (if j \<in> set ks then map_option (\<lambda>ch. let c = after_send g ch
         in if ends_session f then c\<lparr>tx_open := False\<rparr> else c) (channels fo j)
       else channels fo j)"
  proof (cases "ends_session f")
    case True
    have "after_send g ch = after_send g ch\<lparr>tx_open := False\<rparr>" if "\<not> accepts g ch" for ch
      using that try_send_accepts [of ch g] by (auto simp: after_send_def split: sum.splits)
    with True show ?thesis
      by (cases "channels fo j") (auto simp: p drop_senders_spec kept_def c)
  qed (auto simp: p c Let_def)
qed

section \<open>The invariant is kept\<close>

lemma fan_inv_new: "fan_inv fanout_new"
  by (simp add: fan_inv_def fanout_new_def)

lemma fan_inv_publish:
  assumes inv: "fan_inv fo"
  shows "fan_inv (publish s f fo)"
proof (cases "subscribers fo s")
  case None
  then show ?thesis using inv by (simp add: publish_none)
next
  case (Some ks)
  note p = publish_some [OF inv Some, of f]
  let ?g = "\<lparr>sf_source = s, sf_frame = f\<rparr>"
  let ?kept = "filter (\<lambda>i. \<exists>ch. channels fo i = Some ch \<and> accepts ?g ch) ks"
  have sub: "\<exists>ms. subscribers fo t = Some ms \<and> set js \<subseteq> set ms \<and> distinct js \<and>
      (t = s \<longrightarrow> \<not> ends_session f \<and> js = ?kept)"
    if "subscribers (publish s f fo) t = Some js" for t js
    using that Some fan_invD(1) [OF inv] by (auto simp: p(1) split: if_splits)
  have other: "j \<notin> set ks" if "subscribers fo t = Some js" "t \<noteq> s" "j \<in> set js" for t js j
    using fan_invD(2) [OF inv that(1) Some] that(2,3) by auto
  show ?thesis
    unfolding fan_inv_def
  proof (intro conjI allI impI)
    fix t js assume "subscribers (publish s f fo) t = Some js"
    then show "distinct js" using sub by blast
  next
    fix t r js ms
    assume "subscribers (publish s f fo) t = Some js" "subscribers (publish s f fo) r = Some ms" "t \<noteq> r"
    then show "set js \<inter> set ms = {}" using sub fan_invD(2) [OF inv] by blast
  next
    fix t js j
    assume a: "subscribers (publish s f fo) t = Some js" "j \<in> set js"
    then obtain ms where m: "subscribers fo t = Some ms" "j \<in> set ms" using sub by blast
    then obtain ch where ch: "channels fo j = Some ch" "tx_open ch"
      using fan_invD(3) [OF inv] by blast
    show "\<exists>ch. channels (publish s f fo) j = Some ch \<and> tx_open ch"
    proof (cases "t = s")
      case True
      with sub [OF a(1)] have "\<not> ends_session f" "js = ?kept" by blast+
      with a(2) ch show ?thesis by (auto simp: p(2))
    next
      case False
      with other [OF m(1) _ m(2)] ch show ?thesis by (simp add: p(2))
    qed
  next
    fix j ch assume j: "channels (publish s f fo) j = Some ch"
    then obtain c where c: "channels fo j = Some c"
      "ch = (if j \<in> set ks then (let c = after_send ?g c in if ends_session f then c\<lparr>tx_open := False\<rparr> else c) else c)"
      by (auto simp: p(2) split: if_splits)
    note old = fan_invD(4) [OF inv c(1)]
    show "j < next_channel (publish s f fo)" "1 \<le> ch_cap ch" "length (ch_queue ch) \<le> ch_cap ch"
      using old by (auto simp: p(3) c(2) Let_def accepts_def)
    assume opn: "tx_open ch"
    then have "tx_open c" by (auto simp: c(2) Let_def split: if_splits)
    then obtain t js where t: "subscribers fo t = Some js" "j \<in> set js"
      using fan_invD(5) [OF inv c(1)] by blast
    show "\<exists>t js. subscribers (publish s f fo) t = Some js \<and> j \<in> set js"
    proof (cases "t = s")
      case True
      with t Some have j: "j \<in> set ks" by simp
      with opn have "\<not> ends_session f" "accepts ?g c" by (auto simp: c(2) Let_def split: if_splits)
      then show ?thesis using j c(1) by (intro exI [of _ s] exI [of _ ?kept]) (simp add: p(1))
    next
      case False
      with t show ?thesis by (intro exI [of _ t] exI [of _ js]) (simp add: p(1))
    qed
  qed
qed

lemma fan_inv_register:
  assumes inv: "fan_inv fo" and none: "subscribers fo s = None"
  shows "fan_inv (fo\<lparr>subscribers := (subscribers fo)(s \<mapsto> [])\<rparr>)"
  unfolding fan_inv_def
proof (intro conjI allI impI)
    fix j ch assume j: "channels (fo\<lparr>subscribers := (subscribers fo)(s \<mapsto> [])\<rparr>) j = Some ch"
    with fan_invD(4) [OF inv] show "j < next_channel (fo\<lparr>subscribers := (subscribers fo)(s \<mapsto> [])\<rparr>)"
      "1 \<le> ch_cap ch" "length (ch_queue ch) \<le> ch_cap ch" by auto
    assume "tx_open ch"
    moreover from j have "channels fo j = Some ch" by simp
    ultimately obtain t js where "subscribers fo t = Some js" "j \<in> set js"
      using fan_invD(5) [OF inv] by blast
    with none show "\<exists>t js. subscribers (fo\<lparr>subscribers := (subscribers fo)(s \<mapsto> [])\<rparr>) t = Some js \<and> j \<in> set js"
      by (intro exI [of _ t] exI [of _ js]) auto
  qed (use fan_invD(1-3) [OF inv] none in \<open>auto split: if_splits\<close>)

lemma fan_inv_open: "fan_inv fo \<Longrightarrow> fan_inv (open_session s fo)"
  by (auto simp: open_session_def intro: fan_inv_publish fan_inv_register split: option.splits)

lemma subscribe_none: "subscribers fo s = None \<Longrightarrow> subscribe s c fo = (None, fo)"
  by (simp add: subscribe_def)

lemma subscribe_some:
  "subscribers fo s = Some ks \<Longrightarrow>
   subscribe s c fo = (Some (next_channel fo),
     fo\<lparr>subscribers := (subscribers fo)(s \<mapsto> ks @ [next_channel fo]),
        channels := (channels fo)(next_channel fo \<mapsto>
          \<lparr>ch_cap = max c 1, ch_queue = [\<lparr>sf_source = s, sf_frame = Reset\<rparr>], rx_open = True, tx_open = True\<rparr>),
        next_channel := Suc (next_channel fo)\<rparr>)"
  by (simp add: subscribe_def try_send_def Let_def)

lemma fan_inv_subscribe:
  assumes inv: "fan_inv fo"
  shows "fan_inv (snd (subscribe s c fo))"
proof (cases "subscribers fo s")
  case None
  then show ?thesis using inv by (simp add: subscribe_none)
next
  case (Some ks)
  let ?n = "next_channel fo"
  have fresh: "?n \<notin> set js" if "subscribers fo t = Some js" for t js
    using fan_invD(3) [OF inv that] fan_invD(4) [OF inv] by fastforce
  have ch: "j < ?n" if "channels fo j = Some ch" for j ch
    using fan_invD(4) [OF inv that] by simp
  show ?thesis
    unfolding fan_inv_def
  proof (intro conjI allI impI)
    fix t js assume "subscribers (snd (subscribe s c fo)) t = Some js"
    then show "distinct js"
      using fan_invD(1) [OF inv] fresh Some by (auto simp: subscribe_some split: if_splits)
  next
    fix t r js ms
    assume "subscribers (snd (subscribe s c fo)) t = Some js"
      "subscribers (snd (subscribe s c fo)) r = Some ms" "t \<noteq> r"
    then show "set js \<inter> set ms = {}"
      using fan_invD(2) [OF inv] fresh Some by (fastforce simp: subscribe_some split: if_splits)
  next
    fix t js j
    assume "subscribers (snd (subscribe s c fo)) t = Some js" "j \<in> set js"
    then show "\<exists>ch. channels (snd (subscribe s c fo)) j = Some ch \<and> tx_open ch"
      using fan_invD(3) [OF inv] fresh Some by (auto simp: subscribe_some split: if_splits)
  next
    fix j d assume j: "channels (snd (subscribe s c fo)) j = Some d"
    then show "j < next_channel (snd (subscribe s c fo))" "1 \<le> ch_cap d"
      "length (ch_queue d) \<le> ch_cap d"
      using fan_invD(4) [OF inv] Some by (auto simp: subscribe_some less_Suc_eq split: if_splits)
    assume "tx_open d"
    show "\<exists>t js. subscribers (snd (subscribe s c fo)) t = Some js \<and> j \<in> set js"
    proof (cases "j = ?n")
      case True
      then show ?thesis by (intro exI [of _ s]) (simp add: subscribe_some Some)
    next
      case False
      then have "channels fo j = Some d" using j by (simp add: subscribe_some Some)
      then obtain t js where t: "subscribers fo t = Some js" "j \<in> set js"
        using fan_invD(5) [OF inv] \<open>tx_open d\<close> by blast
      show ?thesis
      proof (cases "t = s")
        case True
        with t Some show ?thesis by (intro exI [of _ s]) (simp add: subscribe_some)
      next
        case False
        with t Some show ?thesis by (intro exI [of _ t]) (simp add: subscribe_some)
      qed
    qed
  qed
qed

lemma fan_inv_channel:
  assumes inv: "fan_inv fo" and c: "channels fo i = Some c"
    and "ch_cap d = ch_cap c" "tx_open d = tx_open c" "length (ch_queue d) \<le> length (ch_queue c)"
  shows "fan_inv (fo\<lparr>channels := (channels fo)(i \<mapsto> d)\<rparr>)"
  unfolding fan_inv_def
proof (intro conjI allI impI)
  let ?fo = "fo\<lparr>channels := (channels fo)(i \<mapsto> d)\<rparr>"
  fix t js assume "subscribers ?fo t = Some js"
  then show "distinct js" using fan_invD(1) [OF inv] by simp
next
  let ?fo = "fo\<lparr>channels := (channels fo)(i \<mapsto> d)\<rparr>"
  fix t r js ms assume "subscribers ?fo t = Some js" "subscribers ?fo r = Some ms" "t \<noteq> r"
  then show "set js \<inter> set ms = {}" using fan_invD(2) [OF inv, of t js r ms] by simp
next
  let ?fo = "fo\<lparr>channels := (channels fo)(i \<mapsto> d)\<rparr>"
  fix t js j assume "subscribers ?fo t = Some js" "j \<in> set js"
  then show "\<exists>ch. channels ?fo j = Some ch \<and> tx_open ch"
    using fan_invD(3) [OF inv, of t js j] assms(2,4) by auto
next
  let ?fo = "fo\<lparr>channels := (channels fo)(i \<mapsto> d)\<rparr>"
  fix j e assume j: "channels ?fo j = Some e"
  have e: "\<exists>c'. channels fo j = Some c' \<and> ch_cap e = ch_cap c' \<and> tx_open e = tx_open c' \<and>
      length (ch_queue e) \<le> length (ch_queue c')"
    using j assms by (cases "j = i") auto
  then show "j < next_channel ?fo" "1 \<le> ch_cap e" "length (ch_queue e) \<le> ch_cap e"
    using fan_invD(4) [OF inv] by fastforce+
  assume "tx_open e"
  then show "\<exists>t js. subscribers ?fo t = Some js \<and> j \<in> set js"
    using e fan_invD(5) [OF inv] by auto
qed

lemma fan_inv_recv: "fan_inv fo \<Longrightarrow> fan_inv (snd (fanout_recv i fo))"
  by (auto simp: fanout_recv_def channel_recv_def Let_def intro!: fan_inv_channel
      split: option.splits list.splits)

lemma fan_inv_drop: "fan_inv fo \<Longrightarrow> fan_inv (drop_subscription i fo)"
proof (cases "channels fo i")
  case None
  then show "fan_inv fo \<Longrightarrow> fan_inv (drop_subscription i fo)"
    by (simp add: drop_subscription_def fun_upd_idem)
next
  case (Some c)
  then show "fan_inv fo \<Longrightarrow> fan_inv (drop_subscription i fo)"
    by (auto simp: drop_subscription_def intro: fan_inv_channel)
qed

lemma fan_inv_apply: "fan_inv fo \<Longrightarrow> fan_inv (fan_apply op fo)"
  by (cases op) (auto intro: fan_inv_open fan_inv_publish fan_inv_subscribe fan_inv_recv fan_inv_drop)

lemma fan_inv_run: "fan_inv fo \<Longrightarrow> fan_inv (fan_run ops fo)"
  by (induction ops fo rule: fan_run.induct) (auto intro: fan_inv_apply)

section \<open>A subscription has no gap\<close>

definition follows :: "fanout \<Rightarrow> frame_source \<Rightarrow> nat \<Rightarrow> channel \<Rightarrow> bool" where
  "follows fo s i ch \<longleftrightarrow> channels fo i = Some ch \<and>
     (tx_open ch \<longrightarrow> (\<exists>ks. subscribers fo s = Some ks \<and> i \<in> set ks))"

text \<open>How a channel moves: \<open>got\<close> was received and \<open>pub\<close> published meanwhile. An open channel
  stays open and complete, or closes because of something \<open>pub\<close> held; a closed one drains.\<close>

definition moves :: "channel \<Rightarrow> channel \<Rightarrow> sourced_frame list \<Rightarrow> sourced_frame list \<Rightarrow> bool" where
  "moves ch ch' got pub \<longleftrightarrow>
     (if tx_open ch' then tx_open ch \<and> got @ ch_queue ch' = ch_queue ch @ pub
      else prefix (got @ ch_queue ch') (ch_queue ch @ pub) \<and>
        (tx_open ch \<longrightarrow> pub \<noteq> []) \<and> (\<not> tx_open ch \<longrightarrow> got @ ch_queue ch' = ch_queue ch))"

lemma moves_refl: "moves ch ch [] []"
  by (simp add: moves_def)

lemma moves_idle: "\<not> tx_open ch \<Longrightarrow> moves ch ch [] pub"
  by (simp add: moves_def)

lemma moves_trans:
  assumes "moves a b got1 pub1" "moves b c got2 pub2"
  shows "moves a c (got1 @ got2) (pub1 @ pub2)"
proof (cases "tx_open b")
  case True
  then have b: "tx_open a" "got1 @ ch_queue b = ch_queue a @ pub1"
    using assms(1) by (simp_all add: moves_def)
  show ?thesis
  proof (cases "tx_open c")
    case c: True
    then have "got2 @ ch_queue c = ch_queue b @ pub2"
      using assms(2) by (simp add: moves_def)
    then have "(got1 @ got2) @ ch_queue c = ch_queue a @ pub1 @ pub2"
      using b(2) by (metis append.assoc)
    with b(1) c show ?thesis by (simp add: moves_def)
  next
    case c: False
    then have "prefix (got2 @ ch_queue c) (ch_queue b @ pub2)" "pub2 \<noteq> []"
      using assms(2) True by (simp_all add: moves_def)
    then have "prefix (got1 @ got2 @ ch_queue c) (got1 @ ch_queue b @ pub2)" by simp
    then have "prefix ((got1 @ got2) @ ch_queue c) (ch_queue a @ pub1 @ pub2)"
      using b(2) by (metis append.assoc)
    with c b(1) \<open>pub2 \<noteq> []\<close> show ?thesis by (simp add: moves_def)
  qed
next
  case False
  then have c: "\<not> tx_open c" "got2 @ ch_queue c = ch_queue b"
    using assms(2) by (auto simp: moves_def split: if_splits)
  have "(got1 @ got2) @ ch_queue c = got1 @ ch_queue b" by (simp add: c(2))
  moreover have "prefix (got1 @ ch_queue b) (ch_queue a @ pub1)"
    using assms(1) False by (simp add: moves_def)
  then have "prefix (got1 @ ch_queue b) (ch_queue a @ pub1 @ pub2)"
    by (metis append.assoc prefix_prefix)
  ultimately show ?thesis
    using assms(1) False c(1) by (auto simp: moves_def)
qed

lemma follows_publish:
  assumes inv: "fan_inv fo" and fol: "follows fo s i ch"
  shows "\<exists>ch'. follows (publish t f fo) s i ch' \<and>
    moves ch ch' [] (if t = s then [\<lparr>sf_source = s, sf_frame = f\<rparr>] else [])"
proof (cases "\<exists>ks. subscribers fo t = Some ks \<and> i \<in> set ks")
  case False
  have ch: "channels fo i = Some ch" using fol by (simp add: follows_def)
  have "channels (publish t f fo) i = Some ch"
    using False ch by (cases "subscribers fo t") (auto simp: publish_none publish_some [OF inv])
  moreover have "tx_open ch \<Longrightarrow> t \<noteq> s \<and> (\<exists>ks. subscribers (publish t f fo) s = Some ks \<and> i \<in> set ks)"
    using False fol by (cases "subscribers fo t") (auto simp: follows_def publish_none publish_some [OF inv])
  ultimately have "follows (publish t f fo) s i ch \<and> (tx_open ch \<longrightarrow> t \<noteq> s)"
    by (auto simp: follows_def)
  then show ?thesis by (intro exI [of _ ch]) (auto simp: moves_def)
next
  case True
  then obtain ks where ks: "subscribers fo t = Some ks" "i \<in> set ks" by blast
  have ch: "channels fo i = Some ch" using fol by (simp add: follows_def)
  have tx: "tx_open ch" using fan_invD(3) [OF inv ks] ch by simp
  then have ts: "t = s"
    using fol ks fan_invD(2) [OF inv ks(1)] by (auto simp: follows_def)
  let ?g = "\<lparr>sf_source = s, sf_frame = f\<rparr>"
  let ?c = "let c = after_send ?g ch in if ends_session f then c\<lparr>tx_open := False\<rparr> else c"
  note p = publish_some [OF inv ks(1) [unfolded ts], of f]
  have "channels (publish t f fo) i = Some ?c" using ks(2) ch ts by (simp add: p(2))
  moreover have "tx_open ?c \<Longrightarrow> \<exists>ks. subscribers (publish t f fo) s = Some ks \<and> i \<in> set ks"
    using ks(2) ch ts by (auto simp: p(1) Let_def split: if_splits)
  ultimately have "follows (publish t f fo) s i ?c" by (simp add: follows_def)
  moreover have "moves ch ?c [] [?g]" using tx by (auto simp: moves_def Let_def)
  ultimately show ?thesis using ts by auto
qed

lemma follows_open:
  assumes inv: "fan_inv fo" and fol: "follows fo s i ch"
  shows "\<exists>ch'. follows (open_session t fo) s i ch' \<and>
    moves ch ch' [] (if t = s then [\<lparr>sf_source = s, sf_frame = Reset\<rparr>] else [])"
proof (cases "subscribers fo t")
  case None
  let ?fo = "fo\<lparr>subscribers := (subscribers fo)(t \<mapsto> [])\<rparr>"
  have "follows ?fo s i ch" using fol None by (auto simp: follows_def)
  then show ?thesis
    using follows_publish [OF fan_inv_register [OF inv None]] None by (simp add: open_session_def)
next
  case (Some ks)
  then show ?thesis using follows_publish [OF inv fol] by (simp add: open_session_def)
qed

lemma follows_apply:
  assumes inv: "fan_inv fo" and fol: "follows fo s i ch"
  shows "\<exists>ch'. follows (fan_apply op fo) s i ch' \<and>
    moves ch ch' (fan_received i [op] fo) (published_by s [op])"
proof (cases op)
  case (OpOpen t)
  with follows_open [OF assms, of t] show ?thesis by auto
next
  case (OpPublish t f)
  with follows_publish [OF assms, of t f] show ?thesis by auto
next
  case (OpSubscribe t c)
  have "i < next_channel fo" using fol fan_invD(4) [OF inv] by (simp add: follows_def)
  then have "follows (snd (subscribe t c fo)) s i ch"
    using fol by (cases "subscribers fo t") (auto simp: follows_def subscribe_none subscribe_some)
  with OpSubscribe show ?thesis using moves_refl by auto
next
  case (OpRecv j)
  show ?thesis
  proof (cases "j = i")
    case True
    have ch: "channels fo i = Some ch" using fol by (simp add: follows_def)
    let ?c = "snd (channel_recv ch)"
    have "follows (snd (fanout_recv i fo)) s i ?c"
      using fol ch by (cases "ch_queue ch") (auto simp: follows_def fanout_recv_def channel_recv_def)
    moreover have "moves ch ?c (fan_received i [op] fo) []"
      using ch True OpRecv
      by (cases "ch_queue ch") (auto simp: moves_def fanout_recv_def channel_recv_def)
    ultimately show ?thesis using OpRecv True by auto
  next
    case False
    then have "follows (snd (fanout_recv j fo)) s i ch"
      using fol by (auto simp: follows_def fanout_recv_def Let_def split: option.splits prod.splits)
    with OpRecv False show ?thesis using moves_refl by auto
  qed
next
  case (OpDrop j)
  let ?c = "if j = i then ch\<lparr>rx_open := False\<rparr> else ch"
  have "follows (drop_subscription j fo) s i ?c"
    using fol by (auto simp: follows_def drop_subscription_def)
  moreover have "moves ch ?c [] []" by (auto simp: moves_def)
  ultimately show ?thesis using OpDrop by auto
qed

lemma fan_received_Cons:
  "fan_received i (op # ops) fo = fan_received i [op] fo @ fan_received i ops (fan_apply op fo)"
  by simp

lemma published_by_Cons: "published_by s (op # ops) = published_by s [op] @ published_by s ops"
  by simp

lemma follows_run:
  assumes "fan_inv fo" "follows fo s i ch"
  shows "\<exists>ch'. follows (fan_run ops fo) s i ch' \<and>
    moves ch ch' (fan_received i ops fo) (published_by s ops)"
  using assms
proof (induction ops arbitrary: fo ch)
  case Nil
  then show ?case using moves_refl by auto
next
  case (Cons op ops)
  obtain c1 where c1: "follows (fan_apply op fo) s i c1"
    "moves ch c1 (fan_received i [op] fo) (published_by s [op])"
    using follows_apply [OF Cons.prems] by blast
  obtain c2 where c2: "follows (fan_run ops (fan_apply op fo)) s i c2"
    "moves c1 c2 (fan_received i ops (fan_apply op fo)) (published_by s ops)"
    using Cons.IH [OF fan_inv_apply [OF Cons.prems(1)] c1(1)] by blast
  have "moves ch c2 (fan_received i (op # ops) fo) (published_by s (op # ops))"
    unfolding fan_received_Cons [of i op ops] published_by_Cons [of s op ops]
    by (rule moves_trans [OF c1(2) c2(2)])
  with c2(1) show ?case by (intro exI [of _ c2]) simp
qed

lemma subscribe_follows:
  assumes inv: "fan_inv fo" and sub: "subscribe s c fo = (Some i, fo')"
  shows "fan_inv fo'" "\<exists>ch. follows fo' s i ch \<and> tx_open ch \<and>
    ch_queue ch = [\<lparr>sf_source = s, sf_frame = Reset\<rparr>]"
proof -
  show "fan_inv fo'" using fan_inv_subscribe [OF inv, of s c] sub by simp
  obtain ks where ks: "subscribers fo s = Some ks"
    using sub by (cases "subscribers fo s") (auto simp: subscribe_none)
  show "\<exists>ch. follows fo' s i ch \<and> tx_open ch \<and> ch_queue ch = [\<lparr>sf_source = s, sf_frame = Reset\<rparr>]"
    using sub by (auto simp: follows_def subscribe_some [OF ks])
qed

section \<open>Which sources are live\<close>

lemma publish_live:
  assumes "fan_inv fo"
  shows "subscribers (publish s f fo) t \<noteq> None \<longleftrightarrow>
    subscribers fo t \<noteq> None \<and> \<not> (t = s \<and> ends_session f)"
  using assms by (cases "subscribers fo s") (auto simp: publish_none publish_some)

lemma publish_next_session: "fan_inv fo \<Longrightarrow> next_session (publish s f fo) = next_session fo"
  by (cases "subscribers fo s") (auto simp: publish_none publish_some)

lemma open_live:
  assumes "fan_inv fo"
  shows "subscribers (open_session s fo) t \<noteq> None \<longleftrightarrow> subscribers fo t \<noteq> None \<or> t = s"
proof -
  have *: "\<not> ends_session Reset" by (simp add: ends_session_def)
  show ?thesis
    using assms publish_live [OF fan_inv_register [OF assms], of s s Reset t] publish_live [OF assms, of s Reset t] *
    by (cases "subscribers fo s") (auto simp: open_session_def)
qed

lemma open_next_session: "fan_inv fo \<Longrightarrow> next_session (open_session s fo) = next_session fo"
  by (auto simp: open_session_def publish_next_session fan_inv_register split: option.splits)

lemma subscribe_live:
  "subscribers (snd (subscribe s c fo)) t \<noteq> None \<longleftrightarrow> subscribers fo t \<noteq> None"
  "next_session (snd (subscribe s c fo)) = next_session fo"
  by (cases "subscribers fo s"; simp add: subscribe_none subscribe_some)+

lemma recv_live [simp]:
  "subscribers (snd (fanout_recv i fo)) = subscribers fo"
  "next_session (snd (fanout_recv i fo)) = next_session fo"
  by (auto simp: fanout_recv_def Let_def split: option.splits prod.splits)

lemma drop_live [simp]:
  "subscribers (drop_subscription i fo) = subscribers fo"
  "next_session (drop_subscription i fo) = next_session fo"
  by (auto simp: drop_subscription_def)

lemma fan_inv_allocate: "fan_inv fo \<Longrightarrow> fan_inv (snd (allocate_session a fo))"
  unfolding fan_inv_def allocate_session_def by simp

section \<open>Properties\<close>

text \<open>C10: A subscription sees no gap. Whatever is opened, published, subscribed, received and
  dropped after it began, what its holder received followed by what is queued is a prefix of the
  \<open>Reset\<close> it opened with followed by the frames its source published, and all of it while the
  subscription is not ended.\<close>

theorem subscription_has_no_gap:
  assumes "fan_inv fo" "subscribe s c fo = (Some i, fo1)" "fan_run ops fo1 = fo2"
  shows "\<exists>ch. channels fo2 i = Some ch \<and>
    prefix (fan_received i ops fo1 @ ch_queue ch)
      (\<lparr>sf_source = s, sf_frame = Reset\<rparr> # published_by s ops) \<and>
    (tx_open ch \<longrightarrow> fan_received i ops fo1 @ ch_queue ch =
      \<lparr>sf_source = s, sf_frame = Reset\<rparr> # published_by s ops)"
proof -
  obtain ch where ch: "follows fo1 s i ch" "tx_open ch"
    "ch_queue ch = [\<lparr>sf_source = s, sf_frame = Reset\<rparr>]"
    using subscribe_follows(2) [OF assms(1,2)] by blast
  obtain ch' where "follows fo2 s i ch'" "moves ch ch' (fan_received i ops fo1) (published_by s ops)"
    using follows_run [OF subscribe_follows(1) [OF assms(1,2)] ch(1), of ops] assms(3) by auto
  then show ?thesis
    using ch(2,3) by (intro exI [of _ ch']) (auto simp: follows_def moves_def split: if_splits)
qed

definition example_source :: "32 word \<Rightarrow> frame_source" where
  "example_source w = \<lparr>fs_address = \<lparr>ip = V4 w, port = 8444\<rparr>, fs_session = SessionId 0\<rparr>"

definition example_fan :: fanout where
  "example_fan = open_session (example_source 2) (open_session (example_source 1) fanout_new)"

lemma example_fan_inv: "fan_inv example_fan"
  unfolding example_fan_def by (intro fan_inv_open fan_inv_new)

lemma example_fan_live: "subscribers example_fan (example_source 1) = Some []"
  by (simp add: example_fan_def open_session_def publish_def fanout_new_def ends_session_def
      example_source_def)

lemma no_gap_witness:
  "\<exists>ch. channels (fan_run [OpPublish (example_source 1) (Peak 5 [])]
       (snd (subscribe (example_source 1) 4 example_fan))) 0 = Some ch \<and>
     prefix (ch_queue ch) [\<lparr>sf_source = example_source 1, sf_frame = Reset\<rparr>,
       \<lparr>sf_source = example_source 1, sf_frame = Peak 5 []\<rparr>]"
proof -
  have "next_channel example_fan = 0"
    by (simp add: example_fan_def open_session_def publish_def fanout_new_def ends_session_def
        example_source_def)
  then have "subscribe (example_source 1) 4 example_fan =
      (Some 0, snd (subscribe (example_source 1) 4 example_fan))"
    by (simp add: subscribe_some [OF example_fan_live])
  from subscription_has_no_gap [OF example_fan_inv this, of "[OpPublish (example_source 1) (Peak 5 [])]", OF refl]
  show ?thesis by auto
qed



end
