(* ===== verification/Pool.thy ===== *)
theory Pool
  imports Selection Frames
begin

text \<open>
  \<open>src/peer/pool.rs\<close>: the peer pool. The state is the struct's, with the detached receiver
  tasks made explicit (\<open>unannounced\<close>: admitted and not yet announced; \<open>tasks\<close>: announced and
  running). An entry's \<open>last_peak\<close> is the atomic it shares with its task. What comes from
  outside - which dials succeed, when, and what the peers send - is an argument.
\<close>

section \<open>State\<close>

record 'p peer_entry =
  pe_peer :: 'p
  pe_address :: socket_addr
  pe_session :: session_id
  pe_origin :: peer_origin
  last_peak :: u32
  admitted_at :: nat

datatype peer_requirement = Required | Optional

datatype pool_readiness = Armed nat | Insufficient nat nat

record 'p peer_pool =
  entries :: "'p peer_entry list"
  next_idx :: nat
  max_peers :: nat
  fan :: fanout
  dead_sessions :: "frame_source list"
  unannounced :: "frame_source list"
  tasks :: "frame_source list"

definition entry_source :: "'p peer_entry \<Rightarrow> frame_source" where
  "entry_source e = \<lparr>fs_address = pe_address e, fs_session = pe_session e\<rparr>"

definition empty_pool :: "nat \<Rightarrow> 'p peer_pool" where
  "empty_pool n = \<lparr>entries = [], next_idx = 0, max_peers = n, fan = fanout_new,
     dead_sessions = [], unannounced = [], tasks = []\<rparr>"

section \<open>Reading the pool\<close>

definition has_peers :: "'p peer_pool \<Rightarrow> bool" where
  "has_peers pool \<longleftrightarrow> entries pool \<noteq> []"

definition peer_count :: "'p peer_pool \<Rightarrow> nat" where
  "peer_count pool = length (entries pool)"

definition peak_height :: "'p peer_pool \<Rightarrow> u32" where
  "peak_height pool =
     (case reference_peak (filter (\<lambda>h. 0 < h) (map last_peak (entries pool))) of
        None \<Rightarrow> 0 | Some h \<Rightarrow> h)"

text \<open>\<open>fetch_add\<close> on an \<open>AtomicUsize\<close>.\<close>

definition next_idx_add :: "'p peer_pool \<Rightarrow> 'p peer_pool" where
  "next_idx_add pool = pool\<lparr>next_idx := (next_idx pool + 1) mod 2 ^ 64\<rparr>"

definition select_peer :: "'p peer_pool \<Rightarrow> ('p \<times> socket_addr) option \<times> 'p peer_pool" where
  "select_peer pool =
     (if entries pool = [] then (None, pool)
      else let e = entries pool ! (next_idx pool mod length (entries pool))
           in (Some (pe_peer e, pe_address e), next_idx_add pool))"

definition select_peer_excluding ::
  "socket_addr \<Rightarrow> 'p peer_pool \<Rightarrow> ('p \<times> socket_addr) option \<times> 'p peer_pool" where
  "select_peer_excluding excluded pool =
     (let candidates = filter (\<lambda>e. pe_address e \<noteq> excluded) (entries pool)
      in if candidates = [] then (None, pool)
         else let e = candidates ! (next_idx pool mod length candidates)
              in (Some (pe_peer e, pe_address e), next_idx_add pool))"

definition origin_of :: "'p peer_pool \<Rightarrow> socket_addr \<Rightarrow> peer_origin option" where
  "origin_of pool a = map_option pe_origin (List.find (\<lambda>e. pe_address e = a) (entries pool))"

definition announced_peak :: "'p peer_pool \<Rightarrow> socket_addr \<Rightarrow> u32 option" where
  "announced_peak pool a =
     (case List.find (\<lambda>e. pe_address e = a) (entries pool) of
        None \<Rightarrow> None
      | Some e \<Rightarrow> if 0 < last_peak e then Some (last_peak e) else None)"

definition independent_peer_count :: "'p peer_pool \<Rightarrow> nat" where
  "independent_peer_count pool =
     length (dedup_by (\<lambda>e. ip (pe_address e))
       (filter (\<lambda>e. pe_origin e = Discovered) (entries pool)))"

definition is_corroborator :: "'p peer_entry \<Rightarrow> socket_addr \<Rightarrow> bool" where
  "is_corroborator e asked \<longleftrightarrow> ip (pe_address e) \<noteq> ip asked \<and> pe_origin e = Discovered"

definition corroborators :: "'p peer_entry list \<Rightarrow> socket_addr \<Rightarrow> 'p peer_entry list" where
  "corroborators es asked =
     dedup_by (\<lambda>e. ip (pe_address e)) (filter (\<lambda>e. is_corroborator e asked) es)"

definition select_corroborating_peers :: "'p peer_pool \<Rightarrow> socket_addr \<Rightarrow> ('p \<times> socket_addr) list" where
  "select_corroborating_peers pool asked =
     map (\<lambda>e. (pe_peer e, pe_address e)) (corroborators (entries pool) asked)"

definition corroboration_readiness :: "'p peer_pool \<Rightarrow> socket_addr \<Rightarrow> pool_readiness" where
  "corroboration_readiness pool asked =
     (let n = length (corroborators (entries pool) asked)
      in if CORROBORATION_FLOOR \<le> n then Armed n else Insufficient n CORROBORATION_FLOOR)"

section \<open>Admission\<close>

text \<open>\<open>admit\<close> decides under the write lock; \<open>admit_and_follow\<close> identifies the session, admits
  it, announces it and only then starts its task.\<close>

definition admit ::
  "'p \<Rightarrow> socket_addr \<Rightarrow> peer_origin \<Rightarrow> session_id \<Rightarrow> nat \<Rightarrow> 'p peer_pool \<Rightarrow> bool \<times> 'p peer_pool" where
  "admit peer a org sess now pool =
     (if max_peers pool \<le> length (entries pool) then (False, pool)
      else if list_ex (\<lambda>e. pe_address e = a) (entries pool) then (False, pool)
      else (True, pool\<lparr>entries := entries pool @
        [\<lparr>pe_peer = peer, pe_address = a, pe_session = sess, pe_origin = org,
          last_peak = 0, admitted_at = now\<rparr>]\<rparr>))"

text \<open>The two atomic halves of \<open>admit_and_follow\<close>, between which another task may run.\<close>

definition begin_session ::
  "'p \<Rightarrow> socket_addr \<Rightarrow> peer_origin \<Rightarrow> nat \<Rightarrow> 'p peer_pool \<Rightarrow> frame_source option \<times> 'p peer_pool" where
  "begin_session peer a org now pool =
     (let (source, fo) = allocate_session a (fan pool);
          (ok, pool') = admit peer a org (fs_session source) now (pool\<lparr>fan := fo\<rparr>)
      in if ok then (Some source, pool'\<lparr>unannounced := unannounced pool' @ [source]\<rparr>) else (None, pool'))"

definition start_session :: "frame_source \<Rightarrow> 'p peer_pool \<Rightarrow> 'p peer_pool" where
  "start_session source pool =
     pool\<lparr>fan := open_session source (fan pool),
          unannounced := remove1 source (unannounced pool),
          tasks := tasks pool @ [source]\<rparr>"

definition admit_and_follow ::
  "'p \<Rightarrow> socket_addr \<Rightarrow> peer_origin \<Rightarrow> nat \<Rightarrow> 'p peer_pool \<Rightarrow> bool \<times> 'p peer_pool" where
  "admit_and_follow peer a org now pool =
     (case begin_session peer a org now pool of
        (Some source, pool') \<Rightarrow> (True, start_session source pool')
      | (None, pool') \<Rightarrow> (False, pool'))"

fun admit_all ::
  "'p dial_candidate list \<Rightarrow> nat \<Rightarrow> 'p peer_pool \<Rightarrow> nat \<times> 'p peer_pool" where
  "admit_all [] now pool = (0, pool)"
| "admit_all (c # cs) now pool =
     (let (ok, pool') = admit_and_follow (dc_connection c) (dc_address c) (dc_origin c) now pool;
          (n, pool'') = admit_all cs now pool'
      in (if ok then Suc n else n, pool''))"

definition admit_most_credible ::
  "'p dial_candidate list \<Rightarrow> nat \<Rightarrow> nat \<Rightarrow> 'p peer_pool \<Rightarrow> nat \<times> 'p peer_pool" where
  "admit_most_credible candidates wanted now pool =
     admit_all (most_credible candidates wanted) now pool"

text \<open>\<open>dial r held n\<close> is what the \<open>n\<close> dials of round \<open>r\<close>, told of \<open>held\<close>, brought back and when.\<close>

type_synonym 'p dialler = "nat \<Rightarrow> socket_addr list \<Rightarrow> nat \<Rightarrow> 'p dial_candidate list \<times> nat"

fun fill_rounds :: "'p dialler \<Rightarrow> nat \<Rightarrow> 'p peer_pool \<Rightarrow> 'p peer_pool" where
  "fill_rounds dial 0 pool = pool"
| "fill_rounds dial (Suc r) pool =
     (let held = map pe_address (entries pool);
          wanted = max_peers pool - length held
      in if wanted = 0 then pool
         else let (candidates, now) = dial r held (dials_for wanted);
                  (admitted, pool') = admit_most_credible candidates wanted now pool
              in if admitted = 0 then pool' else fill_rounds dial r pool')"

definition fill_toward_capacity :: "'p dialler \<Rightarrow> 'p peer_pool \<Rightarrow> 'p peer_pool" where
  "fill_toward_capacity dial pool = fill_rounds dial FILL_ROUNDS pool"

definition pool_new :: "nat \<Rightarrow> peer_requirement \<Rightarrow> 'p dialler \<Rightarrow> 'p peer_pool query" where
  "pool_new n requirement dial =
     (let pool = fill_toward_capacity dial (empty_pool n)
      in if \<not> has_peers pool \<and> requirement = Required then Inl PeerDiscoveryFailed
         else Inr pool)"

text \<open>\<open>try_refill\<close>: one dial, told of the addresses held; \<open>None\<close> when it failed.\<close>

definition try_refill ::
  "(socket_addr list \<Rightarrow> ('p \<times> socket_addr \<times> peer_origin) option) \<Rightarrow> nat \<Rightarrow> 'p peer_pool \<Rightarrow> 'p peer_pool" where
  "try_refill dial now pool =
     (if max_peers pool \<le> length (entries pool) then pool
      else case dial (map pe_address (entries pool)) of
             None \<Rightarrow> pool
           | Some (peer, a, org) \<Rightarrow> snd (admit_and_follow peer a org now pool))"

section \<open>Removal\<close>

definition eject_peer :: "socket_addr \<Rightarrow> 'p peer_pool \<Rightarrow> 'p peer_pool" where
  "eject_peer a pool = pool\<lparr>entries := filter (\<lambda>e. pe_address e \<noteq> a) (entries pool)\<rparr>"

text \<open>\<open>min_by_key\<close>: the first of the least.\<close>

fun first_oldest :: "(nat \<times> 'p peer_entry) list \<Rightarrow> (nat \<times> 'p peer_entry) option" where
  "first_oldest [] = None"
| "first_oldest (x # xs) =
     (case first_oldest xs of
        None \<Rightarrow> Some x
      | Some y \<Rightarrow> if admitted_at (snd x) \<le> admitted_at (snd y) then Some x else Some y)"

definition expired :: "nat \<Rightarrow> 'p peer_entry \<Rightarrow> bool" where
  "expired now e \<longleftrightarrow> pe_origin e = Discovered \<and> PEER_LIFETIME \<le> now - admitted_at e"

definition cycle_expired_peers :: "nat \<Rightarrow> 'p peer_pool \<Rightarrow> socket_addr option \<times> 'p peer_pool" where
  "cycle_expired_peers now pool =
     (case first_oldest (filter (\<lambda>p. expired now (snd p)) (enumerate 0 (entries pool))) of
        None \<Rightarrow> (None, pool)
      | Some (idx, e) \<Rightarrow>
          (Some (pe_address e),
           pool\<lparr>entries := take idx (entries pool) @ drop (Suc idx) (entries pool)\<rparr>))"

definition voting_peaks :: "'p peer_entry list \<Rightarrow> u32 list" where
  "voting_peaks es =
     filter (\<lambda>h. 0 < h) (map last_peak (filter (\<lambda>e. pe_origin e = Discovered) es))"

definition lagging :: "u32 \<Rightarrow> 'p peer_entry \<Rightarrow> bool" where
  "lagging reference e \<longleftrightarrow> pe_origin e = Discovered \<and> 0 < last_peak e \<and>
     PEAK_LAG_EVICTION < saturating_sub reference (last_peak e)"

definition evict_lagging_peers :: "'p peer_pool \<Rightarrow> socket_addr list \<times> 'p peer_pool" where
  "evict_lagging_peers pool =
     (case reference_peak (voting_peaks (entries pool)) of
        None \<Rightarrow> ([], pool)
      | Some reference \<Rightarrow>
          (map pe_address (filter (lagging reference) (entries pool)),
           pool\<lparr>entries := filter (\<lambda>e. \<not> lagging reference e) (entries pool)\<rparr>))"

definition eject_dead_sessions :: "'p peer_pool \<Rightarrow> 'p peer_pool" where
  "eject_dead_sessions pool =
     (let dead = dead_sessions pool; pool' = pool\<lparr>dead_sessions := []\<rparr>
      in if dead = [] then pool'
         else pool'\<lparr>entries := filter (\<lambda>e. \<not> list_ex (\<lambda>d. fs_address d = pe_address e \<and>
                fs_session d = pe_session e) dead) (entries pool')\<rparr>)"

definition maintain ::
  "(socket_addr list \<Rightarrow> ('p \<times> socket_addr \<times> peer_origin) option) \<Rightarrow> nat \<Rightarrow> 'p peer_pool \<Rightarrow> 'p peer_pool" where
  "maintain dial now pool =
     try_refill dial now
       (snd (cycle_expired_peers now
         (snd (evict_lagging_peers (eject_dead_sessions pool)))))"

section \<open>The receiver task\<close>

text \<open>A message by type, with the result of decoding its body.\<close>

datatype message =
    MsgNewPeakWallet "(u32 \<times> bytes) option"
  | MsgCoinStateUpdate "(u32 \<times> u32 \<times> bytes \<times> coin_state list) option"
  | MsgOther

definition coin_states_frame :: "u32 \<times> u32 \<times> bytes \<times> coin_state list \<Rightarrow> pool_frame" where
  "coin_states_frame u = (case u of (height, fork_height, peak_hash, items) \<Rightarrow>
     CoinStates height fork_height peak_hash items)"

text \<open>\<open>last_peak.fetch_max\<close> through the entry that shares the atomic.\<close>

definition note_peak :: "frame_source \<Rightarrow> u32 \<Rightarrow> 'p peer_pool \<Rightarrow> 'p peer_pool" where
  "note_peak source h pool =
     pool\<lparr>entries := map (\<lambda>e. if entry_source e = source then e\<lparr>last_peak := max (last_peak e) h\<rparr> else e)
            (entries pool)\<rparr>"

definition publish_in :: "frame_source \<Rightarrow> pool_frame \<Rightarrow> 'p peer_pool \<Rightarrow> 'p peer_pool" where
  "publish_in source f pool = pool\<lparr>fan := publish source f (fan pool)\<rparr>"

text \<open>One turn of the loop: \<open>Inr\<close> continues, \<open>Inl\<close> breaks with the reason. \<open>None\<close> is the closed
  transport.\<close>

definition receive ::
  "frame_source \<Rightarrow> message option \<Rightarrow> 'p peer_pool \<Rightarrow> session_end_reason + 'p peer_pool" where
  "receive source msg pool =
     (case msg of
        None \<Rightarrow> Inl Disconnected
      | Some (MsgNewPeakWallet None) \<Rightarrow> Inl UndecodableFrame
      | Some (MsgNewPeakWallet (Some (h, hash))) \<Rightarrow>
          Inr (publish_in source (Peak h hash) (note_peak source h pool))
      | Some (MsgCoinStateUpdate None) \<Rightarrow> Inl UndecodableFrame
      | Some (MsgCoinStateUpdate (Some u)) \<Rightarrow>
          (case u of (_, _, _, items) \<Rightarrow>
             if MAX_FRAME_COIN_STATES < length items then Inl OversizedFrame
             else Inr (publish_in source (coin_states_frame u) pool))
      | Some MsgOther \<Rightarrow> Inr pool)"

text \<open>\<open>spawn_receiver_handler\<close>: a turn of the task, with what follows the loop.\<close>

definition task_turn :: "frame_source \<Rightarrow> message option \<Rightarrow> 'p peer_pool \<Rightarrow> 'p peer_pool" where
  "task_turn source msg pool =
     (case receive source msg pool of
        Inr pool' \<Rightarrow> pool'
      | Inl reason \<Rightarrow>
          publish_in source (SessionEnded reason)
            (pool\<lparr>dead_sessions := dead_sessions pool @ [source],
                  tasks := filter (\<lambda>t. t \<noteq> source) (tasks pool)\<rparr>))"

definition subscribe_frames :: "socket_addr \<Rightarrow> nat \<Rightarrow> 'p peer_pool \<Rightarrow> nat option \<times> 'p peer_pool" where
  "subscribe_frames a capacity pool =
     (case List.find (\<lambda>e. pe_address e = a) (entries pool) of
        None \<Rightarrow> (None, pool)
      | Some e \<Rightarrow>
          (let (i, fo) = subscribe (entry_source e) capacity (fan pool) in (i, pool\<lparr>fan := fo\<rparr>)))"

section \<open>Steps of the running pool\<close>

text \<open>The operations other tasks may interleave, each the critical section of one lock or one
  turn of one task. \<open>reachable n k\<close>: after \<open>k\<close> steps of a pool of capacity \<open>n\<close>.\<close>

inductive pool_step :: "'p peer_pool \<Rightarrow> 'p peer_pool \<Rightarrow> bool" where
  Begin: "pool_step pool (snd (begin_session peer a org now pool))"
| Start: "source \<in> set (unannounced pool) \<Longrightarrow> pool_step pool (start_session source pool)"
| Turn: "source \<in> set (tasks pool) \<Longrightarrow> pool_step pool (task_turn source msg pool)"
| Eject: "pool_step pool (eject_peer a pool)"
| Cycle: "pool_step pool (snd (cycle_expired_peers now pool))"
| Evict: "pool_step pool (snd (evict_lagging_peers pool))"
| Eject_Dead: "pool_step pool (eject_dead_sessions pool)"
| Select: "pool_step pool (snd (select_peer pool))"
| Select_Excluding: "pool_step pool (snd (select_peer_excluding a pool))"
| Subscribe: "pool_step pool (snd (subscribe_frames a c pool))"
| Recv: "pool_step pool (pool\<lparr>fan := snd (fanout_recv i (fan pool))\<rparr>)"
| Unsubscribe: "pool_step pool (pool\<lparr>fan := drop_subscription i (fan pool)\<rparr>)"

inductive reachable :: "nat \<Rightarrow> nat \<Rightarrow> 'p peer_pool \<Rightarrow> bool" for n where
  New: "reachable n 0 (empty_pool n)"
| Step: "reachable n k pool \<Longrightarrow> pool_step pool pool' \<Longrightarrow> reachable n (Suc k) pool'"

inductive_simps reachable_0: "reachable n 0 pool"

inductive_cases reachable_SucE: "reachable n (Suc k) pool"

section \<open>The invariant\<close>

definition sources :: "'p peer_pool \<Rightarrow> frame_source set" where
  "sources pool = set (unannounced pool) \<union> set (tasks pool) \<union> set (dead_sessions pool)"

definition session_below :: "'p peer_pool \<Rightarrow> frame_source \<Rightarrow> bool" where
  "session_below pool s \<longleftrightarrow> session_no (fs_session s) < next_session (fan pool)"

definition pool_inv :: "'p peer_pool \<Rightarrow> bool" where
  "pool_inv pool \<longleftrightarrow>
     distinct (map pe_address (entries pool)) \<and>
     length (entries pool) \<le> max_peers pool \<and>
     distinct (map pe_session (entries pool)) \<and>
     fan_inv (fan pool) \<and>
     (\<forall>s. subscribers (fan pool) s \<noteq> None \<longleftrightarrow> s \<in> set (tasks pool)) \<and>
     distinct (unannounced pool) \<and> distinct (tasks pool) \<and>
     set (unannounced pool) \<inter> set (tasks pool) = {} \<and>
     set (dead_sessions pool) \<inter> (set (unannounced pool) \<union> set (tasks pool)) = {} \<and>
     entry_source ` set (entries pool) \<subseteq> sources pool \<and>
     (\<forall>s \<in> sources pool. session_below pool s)"

lemma pool_inv_empty: "pool_inv (empty_pool n)"
  using fan_inv_new by (simp add: pool_inv_def empty_pool_def sources_def fanout_new_def)

lemma subseq_set_distinct: "subseq xs ys \<Longrightarrow> set xs \<subseteq> set ys \<and> (distinct ys \<longrightarrow> distinct xs)"
  by (induction rule: list_emb.induct) auto

lemma pool_invD:
  assumes "pool_inv pool"
  shows "distinct (map pe_address (entries pool))" "length (entries pool) \<le> max_peers pool"
    "distinct (map pe_session (entries pool))" "fan_inv (fan pool)"
    "subscribers (fan pool) s \<noteq> None \<longleftrightarrow> s \<in> set (tasks pool)"
    "distinct (unannounced pool)" "distinct (tasks pool)"
    "set (unannounced pool) \<inter> set (tasks pool) = {}"
    "set (dead_sessions pool) \<inter> (set (unannounced pool) \<union> set (tasks pool)) = {}"
    "entry_source ` set (entries pool) \<subseteq> sources pool"
    "s \<in> sources pool \<Longrightarrow> session_below pool s"
  using assms unfolding pool_inv_def by blast+

text \<open>Removing entries, in whatever way, keeps the invariant.\<close>

lemma pool_inv_remove:
  assumes inv: "pool_inv pool" and sub: "subseq es (entries pool)"
  shows "pool_inv (pool\<lparr>entries := es\<rparr>)"
proof -
  let ?pool = "pool\<lparr>entries := es\<rparr>"
  have "distinct (map pe_address es)" "distinct (map pe_session es)"
    using pool_invD(1,3) [OF inv] subseq_set_distinct [OF subseq_map [OF sub]] by blast+
  moreover have "entry_source ` set es \<subseteq> sources pool"
    using subseq_set_distinct [OF sub] pool_invD(10) [OF inv] by blast
  moreover have "length es \<le> max_peers pool"
    using list_emb_length [OF sub] pool_invD(2) [OF inv] by linarith
  moreover have "sources ?pool = sources pool" "session_below ?pool = session_below pool"
    by (simp_all add: sources_def session_below_def fun_eq_iff)
  ultimately show ?thesis
    using pool_invD(4-9,11) [OF inv] unfolding pool_inv_def by simp
qed

lemma eject_inv: "pool_inv pool \<Longrightarrow> pool_inv (eject_peer a pool)"
  by (simp add: eject_peer_def pool_inv_remove)

lemma evict_inv: "pool_inv pool \<Longrightarrow> pool_inv (snd (evict_lagging_peers pool))"
  by (auto simp: evict_lagging_peers_def pool_inv_remove split: option.splits)

lemma subseq_remove_nth: "subseq (take i xs @ drop (Suc i) xs) xs"
proof (cases "i < length xs")
  case True
  then have "xs = take i xs @ xs ! i # drop (Suc i) xs" by (rule id_take_nth_drop)
  moreover have "subseq (take i xs @ drop (Suc i) xs) (take i xs @ xs ! i # drop (Suc i) xs)"
    by (rule list_emb_append_mono) auto
  ultimately show ?thesis by simp
qed simp

lemma cycle_inv: "pool_inv pool \<Longrightarrow> pool_inv (snd (cycle_expired_peers now pool))"
  by (auto simp: cycle_expired_peers_def pool_inv_remove subseq_remove_nth split: option.splits)

lemma died_iff:
  "list_ex (\<lambda>d. fs_address d = pe_address e \<and> fs_session d = pe_session e) dead \<longleftrightarrow>
   entry_source e \<in> set dead"
proof -
  have "fs_address d = pe_address e \<and> fs_session d = pe_session e \<longleftrightarrow> d = entry_source e" for d
    by (auto simp: entry_source_def intro: frame_source.equality)
  then show ?thesis by (auto simp: list_ex_iff)
qed

lemma eject_dead_eq:
  "eject_dead_sessions pool =
     pool\<lparr>entries := filter (\<lambda>e. entry_source e \<notin> set (dead_sessions pool)) (entries pool),
          dead_sessions := []\<rparr>"
  by (simp add: eject_dead_sessions_def Let_def died_iff)

lemma eject_dead_inv:
  assumes inv: "pool_inv pool"
  shows "pool_inv (eject_dead_sessions pool)"
proof -
  let ?es = "filter (\<lambda>e. entry_source e \<notin> set (dead_sessions pool)) (entries pool)"
  have r: "pool_inv (pool\<lparr>entries := ?es\<rparr>)"
    by (rule pool_inv_remove [OF inv]) simp
  have "entry_source ` set ?es \<subseteq> set (unannounced pool) \<union> set (tasks pool)"
    using pool_invD(10) [OF inv] by (auto simp: sources_def)
  then show ?thesis
    using r unfolding pool_inv_def eject_dead_eq sources_def session_below_def by simp
qed

lemma select_inv [intro]:
  "pool_inv pool \<Longrightarrow> pool_inv (snd (select_peer pool))"
  "pool_inv pool \<Longrightarrow> pool_inv (snd (select_peer_excluding a pool))"
  by (simp_all add: select_peer_def select_peer_excluding_def next_idx_add_def Let_def
      pool_inv_def sources_def session_below_def)

lemma pool_inv_fan:
  assumes "pool_inv pool" "fan_inv fo" "\<And>s. subscribers fo s \<noteq> None \<longleftrightarrow> subscribers (fan pool) s \<noteq> None"
    "next_session fo = next_session (fan pool)"
  shows "pool_inv (pool\<lparr>fan := fo\<rparr>)"
  using assms unfolding pool_inv_def sources_def session_below_def by simp

lemma subscribe_frames_inv: "pool_inv pool \<Longrightarrow> pool_inv (snd (subscribe_frames a c pool))"
proof -
  assume inv: "pool_inv pool"
  have "pool_inv (pool\<lparr>fan := snd (subscribe s c (fan pool))\<rparr>)" for s
    by (rule pool_inv_fan [OF inv fan_inv_subscribe [OF pool_invD(4) [OF inv]]])
      (rule subscribe_live)+
  then show ?thesis
    using inv by (simp add: subscribe_frames_def case_prod_beta split: option.splits)
qed

lemma recv_inv: "pool_inv pool \<Longrightarrow> pool_inv (pool\<lparr>fan := snd (fanout_recv i (fan pool))\<rparr>)"
  by (rule pool_inv_fan) (auto intro: fan_inv_recv pool_invD(4))

lemma unsubscribe_inv: "pool_inv pool \<Longrightarrow> pool_inv (pool\<lparr>fan := drop_subscription i (fan pool)\<rparr>)"
  by (rule pool_inv_fan) (auto intro: fan_inv_drop pool_invD(4))

lemma start_inv:
  assumes inv: "pool_inv pool" and src: "source \<in> set (unannounced pool)"
  shows "pool_inv (start_session source pool)"
proof -
  let ?fo = "open_session source (fan pool)"
  have live: "subscribers ?fo s \<noteq> None \<longleftrightarrow> s \<in> set (tasks pool) \<or> s = source" for s
    using open_live [OF pool_invD(4) [OF inv]] pool_invD(5) [OF inv, of s] by simp
  have un: "set (remove1 source (unannounced pool)) = set (unannounced pool) - {source}"
    using pool_invD(6) [OF inv] by simp
  have nt: "source \<notin> set (tasks pool)" using pool_invD(8) [OF inv] src by auto
  have ns: "next_session ?fo = next_session (fan pool)"
    by (rule open_next_session [OF pool_invD(4) [OF inv]])
  have so: "sources (start_session source pool) = sources pool"
    using src by (auto simp: sources_def start_session_def un)
  have sb: "session_below (start_session source pool) = session_below pool"
    by (simp add: session_below_def start_session_def ns fun_eq_iff)
  show ?thesis
    unfolding pool_inv_def so sb
    using pool_invD(1-3,6-11) [OF inv] fan_inv_open [OF pool_invD(4) [OF inv], of source] live un nt src
    by (auto simp: start_session_def)
qed

lemma note_peak_entries:
  "map pe_address (entries (note_peak s h pool)) = map pe_address (entries pool)"
  "map pe_session (entries (note_peak s h pool)) = map pe_session (entries pool)"
  "map entry_source (entries (note_peak s h pool)) = map entry_source (entries pool)"
  "map pe_origin (entries (note_peak s h pool)) = map pe_origin (entries pool)"
  by (auto simp: note_peak_def entry_source_def)

lemma note_peak_inv: "pool_inv pool \<Longrightarrow> pool_inv (note_peak s h pool)"
proof -
  assume inv: "pool_inv pool"
  let ?p = "note_peak s h pool"
  note same = note_peak_entries [of s h pool]
  have "entry_source ` set (entries ?p) = entry_source ` set (entries pool)"
    by (metis same(3) list.set_map)
  moreover have "length (entries ?p) = length (entries pool)" by (simp add: note_peak_def)
  moreover have "max_peers ?p = max_peers pool" "fan ?p = fan pool" "tasks ?p = tasks pool"
    "unannounced ?p = unannounced pool" "dead_sessions ?p = dead_sessions pool"
    by (simp_all add: note_peak_def)
  ultimately show ?thesis
    using inv unfolding pool_inv_def sources_def session_below_def same(1,2) by simp
qed

lemma publish_in_inv:
  assumes inv: "pool_inv pool" and "\<not> ends_session f"
  shows "pool_inv (publish_in s f pool)"
  unfolding publish_in_def
proof (rule pool_inv_fan [OF inv])
  note fi = pool_invD(4) [OF inv]
  show "fan_inv (publish s f (fan pool))" by (rule fan_inv_publish [OF fi])
  show "subscribers (publish s f (fan pool)) t \<noteq> None \<longleftrightarrow> subscribers (fan pool) t \<noteq> None" for t
    using publish_live [OF fi, of s f t] assms(2) by blast
  show "next_session (publish s f (fan pool)) = next_session (fan pool)"
    by (rule publish_next_session [OF fi])
qed

lemma receive_inv: "pool_inv pool \<Longrightarrow> receive s msg pool = Inr pool' \<Longrightarrow> pool_inv pool'"
  by (auto simp: receive_def coin_states_frame_def ends_session_def
      intro!: publish_in_inv note_peak_inv split: option.splits message.splits if_splits prod.splits)

lemma turn_inv:
  assumes inv: "pool_inv pool" and src: "source \<in> set (tasks pool)"
  shows "pool_inv (task_turn source msg pool)"
proof (cases "receive source msg pool")
  case (Inr p)
  then show ?thesis using receive_inv [OF inv] by (simp add: task_turn_def)
next
  case (Inl reason)
  let ?p = "task_turn source msg pool"
  have ends: "ends_session (SessionEnded reason)" by (simp add: ends_session_def)
  note fi = pool_invD(4) [OF inv]
  have p: "?p = pool\<lparr>dead_sessions := dead_sessions pool @ [source],
      tasks := filter (\<lambda>t. t \<noteq> source) (tasks pool),
      fan := publish source (SessionEnded reason) (fan pool)\<rparr>"
    using Inl by (simp add: task_turn_def publish_in_def)
  have live: "subscribers (fan ?p) s \<noteq> None \<longleftrightarrow> s \<in> set (tasks ?p)" for s
    using publish_live [OF fi, of source "SessionEnded reason" s] pool_invD(5) [OF inv, of s] ends
    by (auto simp: p)
  have so: "sources ?p = sources pool" using src by (auto simp: sources_def p)
  have sb: "session_below ?p = session_below pool"
    by (simp add: session_below_def p publish_next_session [OF fi] fun_eq_iff)
  show ?thesis
    unfolding pool_inv_def so sb
    using pool_invD(1-3,6-11) [OF inv] live fan_inv_publish [OF fi] src
    by (auto simp: p)
qed

text \<open>Admission keeps the invariant while the session counter has not wrapped.\<close>

lemma begin_cases:
  "begin_session peer a org now pool =
     (let n = next_session (fan pool);
          source = \<lparr>fs_address = a, fs_session = SessionId n\<rparr>;
          pool1 = pool\<lparr>fan := (fan pool)\<lparr>next_session := n + 1\<rparr>\<rparr>
      in if length (entries pool) < max_peers pool \<and> a \<notin> pe_address ` set (entries pool)
         then (Some source, pool1\<lparr>entries := entries pool @
           [\<lparr>pe_peer = peer, pe_address = a, pe_session = SessionId n, pe_origin = org,
             last_peak = 0, admitted_at = now\<rparr>],
           unannounced := unannounced pool @ [source]\<rparr>)
         else (None, pool1))"
  by (auto simp: begin_session_def allocate_session_def admit_def Let_def list_ex_iff)

lemma begin_inv:
  assumes inv: "pool_inv pool" and nw: "next_session (fan pool) + 1 \<noteq> 0"
  shows "pool_inv (snd (begin_session peer a org now pool))"
proof -
  let ?n = "next_session (fan pool)"
  let ?source = "\<lparr>fs_address = a, fs_session = SessionId ?n\<rparr>"
  let ?pool1 = "pool\<lparr>fan := (fan pool)\<lparr>next_session := ?n + 1\<rparr>\<rparr>"
  have up: "x < ?n + 1" if "x < ?n \<or> x = ?n" for x
  proof -
    have "unat (?n + 1) = Suc (unat ?n)" using nw unatSuc [of ?n] by (simp add: add.commute)
    with that show ?thesis by (auto simp: word_less_nat_alt)
  qed
  have fi: "fan_inv ((fan pool)\<lparr>next_session := ?n + 1\<rparr>)"
    using fan_inv_allocate [OF pool_invD(4) [OF inv]] by (simp add: allocate_session_def)
  have below: "session_no (fs_session s) < ?n" if "s \<in> sources pool" for s
    using pool_invD(11) [OF inv that] by (simp add: session_below_def)
  then have new: "?source \<notin> sources pool" by fastforce
  have i1: "pool_inv ?pool1"
    using inv fi up below unfolding pool_inv_def
    by (auto simp: sources_def session_below_def)
  show ?thesis
  proof (cases "length (entries pool) < max_peers pool \<and> a \<notin> pe_address ` set (entries pool)")
    case False
    then show ?thesis using i1 by (auto simp: begin_cases Let_def)
  next
    case True
    let ?e = "\<lparr>pe_peer = peer, pe_address = a, pe_session = SessionId ?n, pe_origin = org,
             last_peak = 0, admitted_at = now\<rparr>"
    let ?p = "?pool1\<lparr>entries := entries pool @ [?e], unannounced := unannounced pool @ [?source]\<rparr>"
    have so: "sources ?p = insert ?source (sources pool)" by (auto simp: sources_def)
    have "SessionId ?n \<notin> pe_session ` set (entries pool)"
    proof
      assume "SessionId ?n \<in> pe_session ` set (entries pool)"
      then obtain e where "e \<in> set (entries pool)" "pe_session e = SessionId ?n" by force
      with pool_invD(10) [OF inv] have "entry_source e \<in> sources pool" by blast
      from below [OF this] \<open>pe_session e = SessionId ?n\<close> show False by (simp add: entry_source_def)
    qed
    moreover have "?source \<notin> set (unannounced pool)" "?source \<notin> set (tasks pool)"
      "?source \<notin> set (dead_sessions pool)" using new by (auto simp: sources_def)
    moreover have "entry_source ?e = ?source" by (simp add: entry_source_def)
    ultimately have "pool_inv ?p"
      unfolding pool_inv_def so
      using pool_invD(1-3,6-9) [OF inv] pool_invD(5,10) [OF i1] fi True up below pool_invD(10) [OF inv]
        pool_invD(5) [OF inv]
      by (auto simp: session_below_def)
    then show ?thesis using True by (simp add: begin_cases Let_def)
  qed
qed

section \<open>Reachable pools\<close>

definition sessions_used :: "'p peer_pool \<Rightarrow> nat" where
  "sessions_used pool = unat (next_session (fan pool))"

lemma begin_used:
  "sessions_used (snd (begin_session peer a org now pool)) \<le> Suc (sessions_used pool)"
  "max_peers (snd (begin_session peer a org now pool)) = max_peers pool"
  by (simp_all add: begin_cases Let_def sessions_used_def unat_word_ariths mod_Suc)

lemma receive_used:
  "fan_inv (fan pool) \<Longrightarrow> receive source msg pool = Inr pool' \<Longrightarrow>
   next_session (fan pool') = next_session (fan pool) \<and> max_peers pool' = max_peers pool"
  by (auto simp: receive_def publish_in_def note_peak_def publish_next_session
      split: option.splits message.splits if_splits prod.splits)

lemma turn_used:
  "fan_inv (fan pool) \<Longrightarrow> next_session (fan (task_turn source msg pool)) = next_session (fan pool) \<and>
     max_peers (task_turn source msg pool) = max_peers pool"
  using receive_used
  by (auto simp: task_turn_def publish_in_def publish_next_session split: sum.splits)

lemma step_inv:
  assumes "pool_step pool pool'" "pool_inv pool" "sessions_used pool < 2 ^ 64 - 1"
  shows "pool_inv pool' \<and> max_peers pool' = max_peers pool \<and>
    sessions_used pool' \<le> Suc (sessions_used pool)"
proof -
  have nw: "next_session (fan pool) + 1 \<noteq> 0"
  proof
    assume "next_session (fan pool) + 1 = 0"
    then have "next_session (fan pool) = - 1" by (simp add: eq_neg_iff_add_eq_0)
    moreover have "unat (- 1 :: u64) = 2 ^ 64 - 1" by (simp add: unsigned_minus_1_eq_mask mask_eq_exp_minus_1)
    ultimately show False using assms(3) by (simp add: sessions_used_def)
  qed
  note fi = pool_invD(4) [OF assms(2)]
  show ?thesis using assms(1)
  proof (cases rule: pool_step.cases)
    case (Begin peer a org now)
    then show ?thesis using begin_inv [OF assms(2) nw] begin_used by metis
  next
    case (Start source)
    then show ?thesis
      using start_inv [OF assms(2)] open_next_session [OF fi]
      by (simp add: sessions_used_def start_session_def)
  next
    case (Turn source msg)
    then show ?thesis
      using turn_inv [OF assms(2)] turn_used [OF fi] by (simp add: sessions_used_def)
  next
    case (Eject a)
    then show ?thesis using eject_inv [OF assms(2)] by (simp add: sessions_used_def eject_peer_def)
  next
    case (Cycle now)
    then show ?thesis using cycle_inv [OF assms(2)]
      by (auto simp: sessions_used_def cycle_expired_peers_def split: option.splits)
  next
    case Evict
    then show ?thesis using evict_inv [OF assms(2)]
      by (auto simp: sessions_used_def evict_lagging_peers_def split: option.splits)
  next
    case Eject_Dead
    then show ?thesis using eject_dead_inv [OF assms(2)]
      by (simp add: sessions_used_def eject_dead_eq)
  next
    case Select
    then show ?thesis using select_inv(1) [OF assms(2)]
      by (simp add: sessions_used_def select_peer_def next_idx_add_def Let_def)
  next
    case (Select_Excluding a)
    then show ?thesis using select_inv(2) [OF assms(2)]
      by (simp add: sessions_used_def select_peer_excluding_def next_idx_add_def Let_def)
  next
    case (Subscribe a c)
    then show ?thesis using subscribe_frames_inv [OF assms(2), of a c]
      by (auto simp: sessions_used_def subscribe_frames_def case_prod_beta subscribe_live(2)
          split: option.splits)
  next
    case (Recv i)
    then show ?thesis using recv_inv [OF assms(2)] by (simp add: sessions_used_def)
  next
    case (Unsubscribe i)
    then show ?thesis using unsubscribe_inv [OF assms(2)] by (simp add: sessions_used_def)
  qed
qed

lemma reachable_facts:
  assumes "reachable n k pool" "k < 2 ^ 64"
  shows "pool_inv pool \<and> max_peers pool = n \<and> sessions_used pool \<le> k"
  using assms
proof (induction rule: reachable.induct)
  case New
  then show ?case
    using pool_inv_empty by (auto simp: empty_pool_def sessions_used_def fanout_new_def)
next
  case (Step k pool pool')
  then have "pool_inv pool \<and> max_peers pool = n \<and> sessions_used pool \<le> k" by simp
  moreover from this Step.prems have "sessions_used pool < 2 ^ 64 - 1" by simp
  ultimately show ?case using step_inv [OF Step.hyps(2)] by fastforce
qed

section \<open>Removal\<close>

lemma first_oldest_Some:
  "first_oldest xs = Some y \<Longrightarrow> y \<in> set xs \<and> (\<forall>x \<in> set xs. admitted_at (snd y) \<le> admitted_at (snd x))"
proof (induction xs arbitrary: y)
  case (Cons x xs)
  show ?case
  proof (cases "first_oldest xs")
    case None
    then have "xs = []" by (cases xs) (auto split: option.splits if_splits)
    with Cons.prems show ?thesis by simp
  next
    case (Some z)
    with Cons.IH [OF Some] Cons.prems show ?thesis by (auto split: if_splits)
  qed
qed simp

lemma first_oldest_None: "first_oldest xs = None \<longleftrightarrow> xs = []"
  by (cases xs) (auto split: option.splits)

lemma cycle_None:
  "cycle_expired_peers now pool = (None, pool') \<Longrightarrow>
   pool' = pool \<and> (\<forall>e \<in> set (entries pool). \<not> expired now e)"
proof -
  assume c: "cycle_expired_peers now pool = (None, pool')"
  then have "filter (\<lambda>p. expired now (snd p)) (enumerate 0 (entries pool)) = []" "pool' = pool"
    by (auto simp: cycle_expired_peers_def first_oldest_None split: option.splits)
  moreover have "set (entries pool) = snd ` set (enumerate 0 (entries pool))"
    by (metis list.set_map map_snd_enumerate)
  ultimately show ?thesis by (simp add: filter_empty_conv)
qed

lemma cycle_Some:
  assumes "cycle_expired_peers now pool = (Some a, pool')"
  shows "\<exists>idx e. idx < length (entries pool) \<and> entries pool ! idx = e \<and> pe_address e = a \<and>
    expired now e \<and>
    (\<forall>d \<in> set (entries pool). expired now d \<longrightarrow> admitted_at e \<le> admitted_at d) \<and>
    pool' = pool\<lparr>entries := take idx (entries pool) @ drop (Suc idx) (entries pool)\<rparr>"
proof -
  let ?l = "filter (\<lambda>p. expired now (snd p)) (enumerate 0 (entries pool))"
  obtain idx e where f: "first_oldest ?l = Some (idx, e)" "a = pe_address e"
    "pool' = pool\<lparr>entries := take idx (entries pool) @ drop (Suc idx) (entries pool)\<rparr>"
    using assms by (auto simp: cycle_expired_peers_def split: option.splits)
  from first_oldest_Some [OF f(1)] have
    m: "(idx, e) \<in> set ?l" and least: "\<forall>x \<in> set ?l. admitted_at e \<le> admitted_at (snd x)" by auto
  have "idx < length (entries pool)" "entries pool ! idx = e" "expired now e"
    using m by (auto simp: in_set_enumerate_eq)
  moreover have "admitted_at e \<le> admitted_at d" if d: "d \<in> set (entries pool)" "expired now d" for d
  proof -
    obtain j where "j < length (entries pool)" "entries pool ! j = d"
      using d(1) by (auto simp: in_set_conv_nth)
    then have "(j, d) \<in> set ?l" using d(2) by (auto simp: in_set_enumerate_eq)
    with least show ?thesis by force
  qed
  ultimately show ?thesis using f by blast
qed

lemma evict_voters:
  assumes "evict_lagging_peers pool = (evicted, pool')"
  shows "(\<forall>e \<in> set (entries pool). e \<notin> set (entries pool') \<longrightarrow>
      pe_origin e = Discovered \<and> 0 < last_peak e \<and>
      length (voting_peaks (entries pool)) <
        2 * length (filter (\<lambda>h. unat (last_peak e) + unat PEAK_LAG_EVICTION < unat h)
              (voting_peaks (entries pool))))"
proof (intro ballI impI)
  fix e assume e: "e \<in> set (entries pool)" "e \<notin> set (entries pool')"
  let ?v = "voting_peaks (entries pool)"
  obtain r where r: "reference_peak ?v = Some r" "lagging r e"
    using assms e by (auto simp: evict_lagging_peers_def split: option.splits)
  have "unat PEAK_LAG_EVICTION < unat r - unat (last_peak e)"
    using r(2) by (simp add: lagging_def word_less_nat_alt unat_saturating_sub)
  then have "filter (\<lambda>h. r \<le> h) ?v =
      filter (\<lambda>h. r \<le> h) (filter (\<lambda>h. unat (last_peak e) + unat PEAK_LAG_EVICTION < unat h) ?v)"
    by (auto simp: word_le_nat_alt intro!: filter_cong)
  then have "length (filter (\<lambda>h. r \<le> h) ?v) \<le>
      length (filter (\<lambda>h. unat (last_peak e) + unat PEAK_LAG_EVICTION < unat h) ?v)"
    by (metis length_filter_le)
  then show "pe_origin e = Discovered \<and> 0 < last_peak e \<and> length ?v <
      2 * length (filter (\<lambda>h. unat (last_peak e) + unat PEAK_LAG_EVICTION < unat h) ?v)"
    using reference_peak_raise [OF r(1)] r(2) by (simp add: lagging_def)
qed

lemma evict_subset: "evict_lagging_peers pool = (evicted, pool') \<Longrightarrow>
    set (entries pool') \<subseteq> set (entries pool)"
  by (auto simp: evict_lagging_peers_def split: option.splits)

lemma dead_only:
  assumes "pool_inv pool" "e \<in> set (entries pool)"
  shows "e \<in> set (entries (eject_dead_sessions pool)) \<longleftrightarrow>
    entry_source e \<in> set (unannounced pool) \<union> set (tasks pool)"
  using assms pool_invD(9,10) [OF assms(1)] by (auto simp: eject_dead_eq sources_def)

section \<open>Corroborators\<close>

lemma corroborators_facts:
  "distinct (map (\<lambda>e. ip (pe_address e)) (corroborators es a))"
  "set (corroborators es a) \<subseteq> set es"
  "e \<in> set (corroborators es a) \<Longrightarrow> pe_origin e = Discovered \<and> ip (pe_address e) \<noteq> ip a"
  "(\<lambda>e. ip (pe_address e)) ` set (corroborators es a) =
     {ip (pe_address e) |e. e \<in> set es \<and> pe_origin e = Discovered} - {ip a}"
proof -
  let ?f = "filter (\<lambda>e. is_corroborator e a) es"
  let ?k = "\<lambda>e :: 'a peer_entry. ip (pe_address e)"
  show "distinct (map ?k (corroborators es a))"
    by (simp add: corroborators_def dedup_by_distinct)
  have sub: "set (corroborators es a) \<subseteq> set ?f"
    unfolding corroborators_def by (rule dedup_by_subset)
  then show "set (corroborators es a) \<subseteq> set es" by auto
  show "e \<in> set (corroborators es a) \<Longrightarrow> pe_origin e = Discovered \<and> ip (pe_address e) \<noteq> ip a"
    using sub by (auto simp: is_corroborator_def)
  have "?k ` set (corroborators es a) = ?k ` set ?f"
    unfolding corroborators_def by (rule dedup_by_keys)
  also have "\<dots> = {?k e |e. e \<in> set es \<and> pe_origin e = Discovered} - {ip a}"
    by (auto simp: is_corroborator_def)
  finally show "?k ` set (corroborators es a) =
     {?k e |e. e \<in> set es \<and> pe_origin e = Discovered} - {ip a}" .
qed

section \<open>Filling\<close>

lemma follow_entries:
  assumes "admit_and_follow peer a org now pool = (ok, pool')"
  shows "(ok \<longleftrightarrow> length (entries pool) < max_peers pool \<and> a \<notin> pe_address ` set (entries pool)) \<and>
    max_peers pool' = max_peers pool \<and>
    (\<exists>sess. entries pool' = entries pool @
      (if ok then [\<lparr>pe_peer = peer, pe_address = a, pe_session = sess, pe_origin = org,
        last_peak = 0, admitted_at = now\<rparr>] else []))"
  using assms
  by (auto simp: admit_and_follow_def begin_cases Let_def start_session_def split: if_splits)

lemma follow_inv:
  assumes inv: "pool_inv pool" and nw: "next_session (fan pool) + 1 \<noteq> 0"
  shows "pool_inv (snd (admit_and_follow peer a org now pool))"
proof (cases "begin_session peer a org now pool")
  case (Pair r pool')
  have i: "pool_inv pool'" using begin_inv [OF assms, of peer a org now] by (simp add: Pair)
  show ?thesis
  proof (cases r)
    case None
    with i show ?thesis by (simp add: admit_and_follow_def Pair)
  next
    case (Some source)
    then have "source \<in> set (unannounced pool')"
      using Pair by (auto simp: begin_cases Let_def split: if_splits)
    with start_inv [OF i] show ?thesis by (simp add: admit_and_follow_def Pair Some)
  qed
qed

text \<open>What holds of the addresses whatever is offered.\<close>

definition addresses_ok :: "'p peer_pool \<Rightarrow> bool" where
  "addresses_ok pool \<longleftrightarrow> distinct (map pe_address (entries pool)) \<and>
     length (entries pool) \<le> max_peers pool"

lemma follow_addresses:
  "admit_and_follow peer a org now pool = (ok, pool') \<Longrightarrow> addresses_ok pool \<Longrightarrow>
   addresses_ok pool' \<and> prefix (entries pool) (entries pool')"
  by (drule follow_entries) (auto simp: addresses_ok_def)

lemma admit_all_addresses:
  "admit_all cs now pool = (n, pool') \<Longrightarrow> addresses_ok pool \<Longrightarrow>
   addresses_ok pool' \<and> prefix (entries pool) (entries pool') \<and> max_peers pool' = max_peers pool \<and>
   length (entries pool') = length (entries pool) + n"
proof (induction cs arbitrary: pool n)
  case (Cons c cs)
  obtain ok p1 where f: "admit_and_follow (dc_connection c) (dc_address c) (dc_origin c) now pool = (ok, p1)"
    by (cases "admit_and_follow (dc_connection c) (dc_address c) (dc_origin c) now pool") auto
  obtain m where m: "admit_all cs now p1 = (m, pool')" "n = (if ok then Suc m else m)"
    using Cons.prems(1) f by (auto simp: Let_def split: prod.splits)
  have "addresses_ok p1 \<and> prefix (entries pool) (entries p1)"
    by (rule follow_addresses [OF f Cons.prems(2)])
  moreover from this have "addresses_ok pool' \<and> prefix (entries p1) (entries pool') \<and>
      max_peers pool' = max_peers p1 \<and> length (entries pool') = length (entries p1) + m"
    using Cons.IH [OF m(1)] by blast
  moreover have "max_peers p1 = max_peers pool"
    "length (entries p1) = length (entries pool) + (if ok then 1 else 0)"
    using follow_entries [OF f] by auto
  ultimately show ?case using m(2) by (auto intro: prefix_order.trans)
qed simp

lemma admit_all_fresh:
  assumes "distinct (map dc_address cs)" "dc_address ` set cs \<inter> pe_address ` set (entries pool) = {}"
    "length (entries pool) + length cs \<le> max_peers pool"
  shows "\<exists>pool'. admit_all cs now pool = (length cs, pool') \<and>
    map pe_address (entries pool') = map pe_address (entries pool) @ map dc_address cs \<and>
    map pe_origin (entries pool') = map pe_origin (entries pool) @ map dc_origin cs"
  using assms
proof (induction cs arbitrary: pool)
  case (Cons c cs)
  obtain ok p1 where f: "admit_and_follow (dc_connection c) (dc_address c) (dc_origin c) now pool = (ok, p1)"
    by (cases "admit_and_follow (dc_connection c) (dc_address c) (dc_origin c) now pool") auto
  have ok: ok using follow_entries [OF f] Cons.prems by auto
  with follow_entries [OF f] obtain sess where e: "max_peers p1 = max_peers pool"
    "entries p1 = entries pool @ [\<lparr>pe_peer = dc_connection c, pe_address = dc_address c,
       pe_session = sess, pe_origin = dc_origin c, last_peak = 0, admitted_at = now\<rparr>]"
    by auto
  have "dc_address ` set cs \<inter> pe_address ` set (entries p1) = {}"
    using Cons.prems(1,2) by (auto simp: e(2))
  then obtain p2 where "admit_all cs now p1 = (length cs, p2)"
    "map pe_address (entries p2) = map pe_address (entries p1) @ map dc_address cs"
    "map pe_origin (entries p2) = map pe_origin (entries p1) @ map dc_origin cs"
    using Cons.IH [of p1] Cons.prems e by auto
  then show ?case using f ok e by (auto simp: Let_def)
qed simp

lemma fill_rounds_addresses:
  "addresses_ok pool \<Longrightarrow> addresses_ok (fill_rounds dial r pool) \<and>
     prefix (entries pool) (entries (fill_rounds dial r pool)) \<and>
     max_peers (fill_rounds dial r pool) = max_peers pool"
proof (induction r arbitrary: pool)
  case (Suc r)
  define held where "held = map pe_address (entries pool)"
  define wanted where "wanted = max_peers pool - length held"
  obtain cs now where d: "dial r held (dials_for wanted) = (cs, now)"
    by (cases "dial r held (dials_for wanted)")
  obtain n p1 where a: "admit_most_credible cs wanted now pool = (n, p1)"
    by (cases "admit_most_credible cs wanted now pool")
  have p1: "addresses_ok p1 \<and> prefix (entries pool) (entries p1) \<and> max_peers p1 = max_peers pool"
    using admit_all_addresses [OF a [unfolded admit_most_credible_def] Suc.prems] by blast
  have "fill_rounds dial (Suc r) pool =
      (if wanted = 0 then pool else if n = 0 then p1 else fill_rounds dial r p1)"
    using d a by (simp add: Let_def held_def wanted_def)
  then show ?case
    using p1 Suc.IH [of p1] Suc.prems by (auto intro: prefix_order.trans)
qed simp

text \<open>A round spends its slots on distinct peers: with fresh candidates it admits as many as
  there are slots, or all of them.\<close>

lemma round_budget:
  assumes ok: "addresses_ok pool" and w: "wanted = max_peers pool - length (entries pool)"
    and fresh: "dc_address ` set cs \<inter> pe_address ` set (entries pool) = {}"
  shows "fst (admit_most_credible cs wanted now pool) = min wanted (card (dc_address ` set cs))"
proof -
  have "dc_address ` set (most_credible cs wanted) \<subseteq> dc_address ` set cs"
    using most_credible_in_ranked [of cs wanted] ranked_subset [of cs] by blast
  then have "dc_address ` set (most_credible cs wanted) \<inter> pe_address ` set (entries pool) = {}"
    using fresh by blast
  moreover have "length (entries pool) + length (most_credible cs wanted) \<le> max_peers pool"
    using ok min.cobounded1 [of wanted "card (dc_address ` set cs)"]
    unfolding most_credible_length addresses_ok_def w by linarith
  ultimately obtain p where "admit_all (most_credible cs wanted) now pool =
      (length (most_credible cs wanted), p)"
    using admit_all_fresh [OF most_credible_distinct] by blast
  then show ?thesis by (simp add: admit_most_credible_def most_credible_length)
qed

section \<open>Maintenance\<close>

lemma refill_inv:
  "pool_inv pool \<Longrightarrow> next_session (fan pool) + 1 \<noteq> 0 \<Longrightarrow> pool_inv (try_refill dial now pool)"
  by (auto simp: try_refill_def intro: follow_inv split: option.splits)

lemma cycle_frame:
  "fan (snd (cycle_expired_peers now pool)) = fan pool"
  "tasks (snd (cycle_expired_peers now pool)) = tasks pool"
  "dead_sessions (snd (cycle_expired_peers now pool)) = dead_sessions pool"
  by (auto simp: cycle_expired_peers_def split: option.splits)

lemma evict_frame:
  "fan (snd (evict_lagging_peers pool)) = fan pool"
  "tasks (snd (evict_lagging_peers pool)) = tasks pool"
  "dead_sessions (snd (evict_lagging_peers pool)) = dead_sessions pool"
  by (auto simp: evict_lagging_peers_def split: option.splits)

definition swept :: "nat \<Rightarrow> 'p peer_pool \<Rightarrow> 'p peer_pool" where
  "swept now pool = snd (cycle_expired_peers now (snd (evict_lagging_peers (eject_dead_sessions pool))))"

lemma swept_facts:
  "pool_inv pool \<Longrightarrow> pool_inv (swept now pool)" "fan (swept now pool) = fan pool"
  "dead_sessions (swept now pool) = []"
  by (simp_all add: swept_def cycle_inv evict_inv eject_dead_inv cycle_frame evict_frame)
    (simp_all add: eject_dead_eq)

lemma maintain_swept: "maintain dial now pool = try_refill dial now (swept now pool)"
  by (simp add: maintain_def swept_def)

lemma maintain_inv:
  "pool_inv pool \<Longrightarrow> next_session (fan pool) + 1 \<noteq> 0 \<Longrightarrow> pool_inv (maintain dial now pool)"
  unfolding maintain_swept by (rule refill_inv) (simp_all add: swept_facts)

lemma follow_dead: "dead_sessions (snd (admit_and_follow peer a org now p)) = dead_sessions p"
  by (auto simp: admit_and_follow_def begin_cases Let_def start_session_def)

lemma maintain_no_dead: "dead_sessions (maintain dial now pool) = []"
  by (auto simp: maintain_swept try_refill_def swept_facts follow_dead split: option.splits)

lemma maintain_live:
  assumes "pool_inv pool" "next_session (fan pool) + 1 \<noteq> 0"
    and "e \<in> set (entries (maintain dial now pool))"
  shows "entry_source e \<in> set (unannounced (maintain dial now pool)) \<union> set (tasks (maintain dial now pool))"
  using pool_invD(10) [OF maintain_inv [OF assms(1,2)]] assms(3)
  by (auto simp: sources_def maintain_no_dead)

section \<open>Round robin\<close>

fun select_many :: "nat \<Rightarrow> 'p peer_pool \<Rightarrow> socket_addr list" where
  "select_many 0 pool = []"
| "select_many (Suc n) pool =
     (case select_peer pool of
        (None, pool') \<Rightarrow> select_many n pool'
      | (Some (p, a), pool') \<Rightarrow> a # select_many n pool')"

lemma select_many_nth:
  assumes "entries pool \<noteq> []" "next_idx pool + m \<le> 2 ^ 64" "next_idx pool < 2 ^ 64"
  shows "select_many m pool =
    map (\<lambda>i. pe_address (entries pool ! ((next_idx pool + i) mod length (entries pool)))) [0..<m]"
  using assms
proof (induction m arbitrary: pool)
  case (Suc m)
  let ?p = "next_idx_add pool"
  have e: "entries ?p = entries pool" by (simp add: next_idx_add_def)
  show ?case
  proof (cases m)
    case 0
    then show ?thesis using Suc.prems by (simp add: select_peer_def Let_def)
  next
    case (Suc k)
    then have n: "next_idx ?p = next_idx pool + 1" using Suc.prems by (simp add: next_idx_add_def)
    have "select_many m ?p =
        map (\<lambda>i. pe_address (entries pool ! ((next_idx pool + 1 + i) mod length (entries pool)))) [0..<m]"
      using Suc.IH [of ?p] Suc.prems Suc n by (simp add: e)
    moreover have "[0..<Suc m] = 0 # map Suc [0..<m]" by (simp add: upt_conv_Cons map_Suc_upt del: upt_Suc)
    ultimately show ?thesis
      using Suc.prems by (simp add: select_peer_def Let_def comp_def del: upt_Suc)
  qed
qed simp

lemma map_round_robin:
  "map (\<lambda>i. f (xs ! ((k + i) mod length xs))) [0..<length xs] = map f (rotate k xs)"
proof (rule nth_equalityI)
  fix i assume "i < length (map (\<lambda>i. f (xs ! ((k + i) mod length xs))) [0..<length xs])"
  then have "i < length xs" by simp
  then show "map (\<lambda>i. f (xs ! ((k + i) mod length xs))) [0..<length xs] ! i = map f (rotate k xs) ! i"
    by (simp add: nth_rotate)
qed simp

lemma mset_rotate_list: "mset (rotate k xs) = mset xs"
proof (induction k)
  case (Suc k)
  have "mset (rotate1 ys) = mset ys" for ys :: "'a list" by (cases ys) simp_all
  with Suc show ?case by simp
qed simp

lemma select_many_round:
  assumes "entries pool \<noteq> []" "next_idx pool + length (entries pool) \<le> 2 ^ 64" "next_idx pool < 2 ^ 64"
  shows "mset (select_many (length (entries pool)) pool) = mset (map pe_address (entries pool))"
proof -
  have "select_many (length (entries pool)) pool =
      map pe_address (rotate (next_idx pool) (entries pool))"
    by (simp only: select_many_nth [OF assms] map_round_robin)
  then show ?thesis by (simp add: mset_rotate_list)
qed

section \<open>Properties\<close>

definition example_entry :: "32 word \<Rightarrow> peer_origin \<Rightarrow> u32 \<Rightarrow> nat \<Rightarrow> unit peer_entry" where
  "example_entry w org peak t =
     \<lparr>pe_peer = (), pe_address = example_addr w, pe_session = SessionId (ucast w), pe_origin = org,
      last_peak = peak, admitted_at = t\<rparr>"

definition example_pool :: "unit peer_entry list \<Rightarrow> unit peer_pool" where
  "example_pool es = (empty_pool 8)\<lparr>entries := es\<rparr>"

lemma example_entry_simps [simp]:
  "pe_address (example_entry w org peak t) = example_addr w" "pe_origin (example_entry w org peak t) = org"
  "last_peak (example_entry w org peak t) = peak" "admitted_at (example_entry w org peak t) = t"
  "entries (example_pool es) = es" "next_idx (example_pool es) = 0" "max_peers (example_pool es) = 8"
  by (simp_all add: example_entry_def example_pool_def empty_pool_def)

text \<open>C6: However the pool's tasks interleave, no two held peers share an address or a session,
  the pool never exceeds its capacity, exactly the announced running sessions can be
  subscribed to, and every held peer's session is running, about to be announced, or recorded
  as dead and waiting for the next maintenance pass.\<close>

theorem pool_invariant:
  assumes "reachable n k pool" "k < 2 ^ 64"
  shows "distinct (map pe_address (entries pool)) \<and> distinct (map pe_session (entries pool)) \<and>
    length (entries pool) \<le> n \<and>
    (subscribers (fan pool) s \<noteq> None \<longleftrightarrow> s \<in> set (tasks pool)) \<and>
    entry_source ` set (entries pool) \<subseteq>
      set (unannounced pool) \<union> set (tasks pool) \<union> set (dead_sessions pool) \<and>
    set (dead_sessions pool) \<inter> set (tasks pool) = {}"
proof -
  from reachable_facts [OF assms] have inv: "pool_inv pool" and n: "max_peers pool = n" by auto
  show ?thesis
    using pool_invD(1,2,3,5,9,10) [OF inv] n unfolding sources_def by blast
qed

definition example_begun :: "unit peer_pool" where
  "example_begun = snd (begin_session () public_a Discovered 0 (empty_pool 1))"

lemma example_begun_reachable: "reachable 1 1 example_begun"
  using reachable.Step [OF reachable.New pool_step.Begin] by (simp add: example_begun_def)

lemma pool_invariant_witness:
  "reachable 1 1 example_begun \<and> entries example_begun \<noteq> [] \<and> length (entries example_begun) \<le> 1"
proof -
  have "entries example_begun \<noteq> []"
    by (simp add: example_begun_def begin_cases empty_pool_def Let_def)
  moreover have "length (entries example_begun) \<le> 1"
    using pool_invariant [OF example_begun_reachable] by simp
  ultimately show ?thesis using example_begun_reachable by simp
qed


definition example_lagging :: "unit peer_pool" where
  "example_lagging = example_pool [example_entry 1 Discovered 100 0, example_entry 2 Discovered 10 0,
     example_entry 3 Discovered 101 0, example_entry 4 Priority 1 0]"

lemma example_lagging_evicts:
  "evict_lagging_peers example_lagging = ([example_addr 2], example_lagging\<lparr>entries :=
     [example_entry 1 Discovered 100 0, example_entry 3 Discovered 101 0, example_entry 4 Priority 1 0]\<rparr>)"
  by (simp add: example_lagging_def evict_lagging_peers_def voting_peaks_def reference_peak_def
      lagging_def saturating_sub_def PEAK_LAG_EVICTION_def PEAK_LAG_TOLERANCE_def)


text \<open>One hostile peer cannot raise the reported peak: the peak never exceeds a height that
  at least half of the announcing peers are at or below, and it is a height some held peer
  announced, or zero when none has.\<close>

theorem peak_is_plural:
  fixes pool :: "'p peer_pool"
  defines "announced \<equiv> filter (\<lambda>h. 0 < h) (map last_peak (entries pool))"
  assumes "length announced \<le> 2 * length (filter (\<lambda>h. h \<le> b) announced)"
  shows "peak_height pool \<le> b \<and> (peak_height pool \<in> set announced \<or> (announced = [] \<and> peak_height pool = 0))"
proof (cases "reference_peak announced")
  case None
  moreover from this have "announced = []" by (simp only: reference_peak_None)
  ultimately show ?thesis by (simp add: peak_height_def announced_def [symmetric])
next
  case (Some r)
  then show ?thesis
    using reference_peak_bounded [OF Some assms(2)] reference_peak_mem [OF Some]
    by (simp add: peak_height_def announced_def [symmetric])
qed

lemma peak_witness:
  "peak_height (example_pool [example_entry 1 Discovered 100 0, example_entry 2 Discovered 0xFFFFFFFF 0]) \<le> 100"
  using peak_is_plural [of "example_pool [example_entry 1 Discovered 100 0, example_entry 2 Discovered 0xFFFFFFFF 0]" 100]
  by simp

text \<open>Corroborated reads are gated on distinct hosts. The peers asked to corroborate an answer
  are exactly one per discovered host other than the host that answered; the pool is armed
  exactly when there are at least two such hosts, and reports their number.\<close>

theorem corroboration_counts_hosts:
  fixes pool :: "'p peer_pool" and a :: socket_addr
  defines "hosts \<equiv> {ip (pe_address e) |e. e \<in> set (entries pool) \<and> pe_origin e = Discovered} - {ip a}"
  shows "(\<lambda>p. ip (snd p)) ` set (select_corroborating_peers pool a) = hosts \<and>
    length (select_corroborating_peers pool a) = card hosts \<and>
    corroboration_readiness pool a =
      (if 2 \<le> card hosts then Armed (card hosts) else Insufficient (card hosts) 2)"
proof -
  let ?k = "\<lambda>e :: 'p peer_entry. ip (pe_address e)"
  have h: "?k ` set (corroborators (entries pool) a) = hosts"
    unfolding hosts_def by (rule corroborators_facts(4))
  moreover from this have "length (corroborators (entries pool) a) = card hosts"
    using distinct_card [OF corroborators_facts(1) [of "entries pool" a]] by simp
  ultimately show ?thesis
    by (simp add: select_corroborating_peers_def corroboration_readiness_def Let_def
        CORROBORATION_FLOOR_def image_image)
qed



text \<open>Rotation is by age alone and one at a time: it removes the discovered peer that has been
  held longest if it has been held for the peer lifetime, and changes nothing when no discovered
  peer has.\<close>

theorem rotation_by_age:
  "case cycle_expired_peers now pool of
     (None, pool') \<Rightarrow> pool' = pool \<and>
       (\<forall>e \<in> set (entries pool). pe_origin e = Discovered \<longrightarrow> now - admitted_at e < PEER_LIFETIME)
   | (Some a, pool') \<Rightarrow>
       (\<exists>idx < length (entries pool). let e = entries pool ! idx in
          pe_address e = a \<and> pe_origin e = Discovered \<and> PEER_LIFETIME \<le> now - admitted_at e \<and>
          (\<forall>d \<in> set (entries pool). pe_origin d = Discovered \<longrightarrow> PEER_LIFETIME \<le> now - admitted_at d \<longrightarrow>
             admitted_at e \<le> admitted_at d) \<and>
          pool' = pool\<lparr>entries := take idx (entries pool) @ drop (Suc idx) (entries pool)\<rparr>)"
proof (cases "cycle_expired_peers now pool")
  case (Pair r pool')
  show ?thesis
  proof (cases r)
    case None
    then show ?thesis
      using cycle_None [of now pool pool'] Pair by (auto simp: expired_def not_le)
  next
    case (Some a)
    then show ?thesis
      using cycle_Some [of now pool a pool'] Pair by (auto simp: expired_def Let_def)
  qed
qed

definition example_aging :: "unit peer_pool" where
  "example_aging = example_pool [example_entry 1 Discovered 0 5, example_entry 2 Priority 0 0,
     example_entry 3 Discovered 0 2]"

lemma rotation_witness:
  "\<exists>pool'. cycle_expired_peers (300 * 10 ^ 9 + 9) example_aging = (Some (example_addr 3), pool') \<and>
     entries pool' = [example_entry 1 Discovered 0 5, example_entry 2 Priority 0 0]"
proof -
  have "\<exists>pool'. cycle_expired_peers (300 * 10 ^ 9 + 9) example_aging = (Some (example_addr 3), pool')"
    by (simp add: cycle_expired_peers_def example_aging_def expired_def PEER_LIFETIME_def)
  then show ?thesis
    using rotation_by_age [where now = "300 * 10 ^ 9 + 9" and pool = example_aging]
    by (auto simp: example_aging_def Let_def less_Suc_eq numeral_3_eq_3)
qed

text \<open>A dial round fills the slots it was dialled for. Offered candidates none of which the
  pool already holds, it admits as many peers as there are free slots or distinct addresses,
  whichever is fewer, however many duplicates the round produced.\<close>

theorem round_fills_slots:
  assumes "distinct (map pe_address (entries pool))" "length (entries pool) \<le> max_peers pool"
    and "dc_address ` set cs \<inter> pe_address ` set (entries pool) = {}"
  shows "fst (admit_most_credible cs (max_peers pool - length (entries pool)) now pool) =
    min (max_peers pool - length (entries pool)) (card (dc_address ` set cs))"
  using round_budget [OF _ refl assms(3)] assms(1,2) by (simp add: addresses_ok_def)

definition example_round :: "unit dial_candidate list" where
  "example_round = map (\<lambda>w. \<lparr>dc_origin = Discovered, dc_address = example_addr w, dc_handshake = 1,
     dc_connection = ()\<rparr>) [5, 5, 5, 6]"

lemma round_fills_witness:
  "fst (admit_most_credible example_round 8 0 (example_pool [])) = 2"
proof -
  have "dc_address ` set example_round = {example_addr 5, example_addr 6}"
    by (auto simp: example_round_def)
  then show ?thesis using round_fills_slots [of "example_pool []" example_round 0] by simp
qed

text \<open>Selection is round robin: as many consecutive selections as there are peers, with the
  pool unchanged between them, name every held peer exactly once.\<close>

theorem selection_is_round_robin:
  assumes "entries pool \<noteq> []" "next_idx pool < 2 ^ 64"
    and "next_idx pool + length (entries pool) \<le> 2 ^ 64"
  shows "mset (select_many (length (entries pool)) pool) = mset (map pe_address (entries pool))"
  by (rule select_many_round [OF assms(1,3,2)])

lemma round_robin_witness:
  "mset (select_many 3 example_aging) = {#example_addr 1, example_addr 2, example_addr 3#}"
proof -
  have "entries example_aging \<noteq> []" "length (entries example_aging) = 3" "next_idx example_aging = 0"
    "mset (map pe_address (entries example_aging)) = {#example_addr 1, example_addr 2, example_addr 3#}"
    by (simp_all add: example_aging_def)
  then show ?thesis using selection_is_round_robin [of example_aging] by simp
qed

text \<open>The independence count is by the spelling of the address.\<close>

definition same_host_pool :: "32 word \<Rightarrow> unit peer_pool" where
  "same_host_pool w = (example_pool [])\<lparr>entries :=
     [example_entry w Discovered 0 0,
      (example_entry w Discovered 0 0)\<lparr>pe_address := \<lparr>ip = V6 (to_ipv6_mapped w), port = 8444\<rparr>\<rparr>]\<rparr>"


end
