(* ===== verification/Set_Agreement.thy ===== *)
theory Set_Agreement
  imports Types Dialling
begin

text \<open>
  \<open>src/peer/set_agreement.rs\<close>: what agreement means for a read that returns a set. The trait
  \<open>SetMember\<close> is a dictionary of its methods; what its implementations promise is the locale
  \<open>set_member_laws\<close>, and \<open>CoinRecord\<close>'s implementation interprets it.
\<close>

section \<open>Answers\<close>

datatype 'a set_answer = Corroborated "'a list" u32 | Uncorroborated "'a list" u32

fun sa_items :: "'a set_answer \<Rightarrow> 'a list" where
  "sa_items (Corroborated xs _) = xs"
| "sa_items (Uncorroborated xs _) = xs"

fun sa_as_of :: "'a set_answer \<Rightarrow> u32" where
  "sa_as_of (Corroborated _ h) = h"
| "sa_as_of (Uncorroborated _ h) = h"

record 'a corroborated_set =
  cset_items :: "'a list"
  cset_as_of :: u32

record 'a heighted_set =
  hs_items :: "'a list"
  hs_as_of :: u32

record set_projection =
  start_height :: "u32 option"
  end_height :: "u32 option"
  include_spent :: bool

section \<open>The trait\<close>

record 'a set_member =
  sm_identity :: "'a \<Rightarrow> string"
  sm_created :: "'a \<Rightarrow> u32"
  sm_spent :: "'a \<Rightarrow> u32 option"
  sm_drop :: "'a \<Rightarrow> 'a"
  sm_claim :: "'a \<Rightarrow> string"

definition coin_identity :: "coin_record \<Rightarrow> string" where
  "coin_identity r = parent_coin_info (cr_coin r) @ '':'' @ puzzle_hash (cr_coin r) @ '':'' @
     show_word (amount (cr_coin r))"

definition with_spend_dropped :: "coin_record \<Rightarrow> coin_record" where
  "with_spend_dropped r = r\<lparr>spent := False, spent_block_index := 0\<rparr>"

definition coin_record_member :: "coin_record set_member" where
  "coin_record_member =
     \<lparr>sm_identity = coin_identity, sm_created = confirmed_block_index,
      sm_spent = (\<lambda>r. if spent r then Some (spent_block_index r) else None),
      sm_drop = with_spend_dropped, sm_claim = chain_claim_record\<rparr>"

section \<open>The rule\<close>

fun min_height :: "u32 list \<Rightarrow> u32 option" where
  "min_height [] = None"
| "min_height (x # xs) = (case min_height xs of None \<Rightarrow> Some x | Some y \<Rightarrow> Some (min x y))"

definition common_height :: "u32 list \<Rightarrow> u32 option \<Rightarrow> u32 option" where
  "common_height as_of end_h =
     (case min_height as_of of
        None \<Rightarrow> None
      | Some m \<Rightarrow>
          (case checked_sub m SETTLED_LAG of
             None \<Rightarrow> None
           | Some settled \<Rightarrow> Some (case end_h of Some e \<Rightarrow> min settled e | None \<Rightarrow> settled)))"

definition as_of_is_supported :: "u32 option \<Rightarrow> u32 \<Rightarrow> bool" where
  "as_of_is_supported announced as_of =
     (case announced of
        None \<Rightarrow> False
      | Some peak \<Rightarrow> saturating_sub peak as_of \<le> PEAK_LAG_EVICTION)"

definition normalise_at :: "'a set_member \<Rightarrow> 'a list \<Rightarrow> u32 \<Rightarrow> 'a list" where
  "normalise_at d items h =
     map (\<lambda>x. case sm_spent d x of
                Some s \<Rightarrow> if h < s then sm_drop d x else x
              | None \<Rightarrow> x)
       (filter (\<lambda>x. sm_created d x \<le> h) items)"

definition fingerprint :: "'a set_member \<Rightarrow> 'a list \<Rightarrow> (string, string) btree_map" where
  "fingerprint d items = bt_collect (map (\<lambda>x. (sm_identity d x, sm_claim d x)) items)"

text \<open>The two loops of \<open>contradiction\<close>.\<close>

fun asked_differs ::
  "string \<Rightarrow> (string \<times> string) list \<Rightarrow> string \<Rightarrow> (string, string) btree_map \<Rightarrow> string option" where
  "asked_differs asked [] other other_set = None"
| "asked_differs asked ((identity, claim) # rest) other other_set =
     (case bt_get other_set identity of
        Some other_claim \<Rightarrow>
          if other_claim = claim then asked_differs asked rest other other_set
          else Some (asked @ '' claims `'' @ claim @ ''` for coin '' @ identity @ '', '' @ other @
                     '' claims `'' @ other_claim @ ''`'')
      | None \<Rightarrow> Some (asked @ '' reports coin '' @ identity @ '' (`'' @ claim @ ''`), '' @ other @
                     '' omits it''))"

fun other_adds ::
  "string \<Rightarrow> (string, string) btree_map \<Rightarrow> string \<Rightarrow> (string \<times> string) list \<Rightarrow> string option" where
  "other_adds asked asked_set other [] = None"
| "other_adds asked asked_set other ((identity, claim) # rest) =
     (if \<not> bt_contains_key asked_set identity
      then Some (other @ '' reports coin '' @ identity @ '' (`'' @ claim @ ''`), '' @ asked @
                 '' omits it'')
      else other_adds asked asked_set other rest)"

definition contradiction ::
  "string \<Rightarrow> (string, string) btree_map \<Rightarrow> string \<Rightarrow> (string, string) btree_map \<Rightarrow> string option" where
  "contradiction asked asked_set other other_set =
     (case asked_differs asked asked_set other other_set of
        Some e \<Rightarrow> Some e
      | None \<Rightarrow> other_adds asked asked_set other other_set)"

definition project :: "'a set_member \<Rightarrow> 'a list \<Rightarrow> set_projection \<Rightarrow> 'a list" where
  "project d items p =
     filter (\<lambda>x.
       (case start_height p of None \<Rightarrow> True | Some s \<Rightarrow> s \<le> sm_created d x) \<and>
       (include_spent p \<or> sm_spent d x = None)) items"

section \<open>Heights\<close>

lemma min_height_Some:
  "min_height xs = Some m \<Longrightarrow> m \<in> set xs \<and> (\<forall>x \<in> set xs. m \<le> x)"
proof (induction xs arbitrary: m)
  case (Cons x xs)
  show ?case
  proof (cases "min_height xs")
    case None
    then have "xs = []" by (cases xs) (auto split: option.splits)
    with Cons.prems show ?thesis by simp
  next
    case (Some y)
    with Cons.IH [OF Some] Cons.prems show ?thesis
      by (auto simp: min_def intro: order_trans split: if_splits)
  qed
qed simp

lemma min_height_None: "min_height xs = None \<longleftrightarrow> xs = []"
  by (cases xs) (auto split: option.splits)

lemma common_height_Some:
  assumes "common_height as_of end_h = Some h"
  shows "\<forall>x \<in> set as_of. unat h + 2 \<le> unat x" and "end_h = Some e \<Longrightarrow> h \<le> e"
    and "as_of \<noteq> []"
proof -
  obtain m s where m: "min_height as_of = Some m" "checked_sub m SETTLED_LAG = Some s"
    "h = (case end_h of Some e \<Rightarrow> min s e | None \<Rightarrow> s)"
    using assms by (auto simp: common_height_def split: option.splits)
  have s: "unat s + 2 \<le> unat m"
    using unat_checked_sub [OF m(2)] unfolding SETTLED_LAG_def by (simp, arith)
  have "h \<le> s" using m(3) by (auto split: option.splits)
  then show "\<forall>x \<in> set as_of. unat h + 2 \<le> unat x"
    using s min_height_Some [OF m(1)] by (fastforce simp: word_le_nat_alt)
  show "end_h = Some e \<Longrightarrow> h \<le> e" using m(3) by simp
  show "as_of \<noteq> []" using m(1) by auto
qed

lemma common_height_le: "common_height as_of e = Some h \<Longrightarrow> x \<in> set as_of \<Longrightarrow> h \<le> x"
  using common_height_Some(1) by (fastforce simp: word_le_nat_alt)

section \<open>What a member promises\<close>

locale set_member_laws =
  fixes d :: "'a set_member" and ok :: "'a \<Rightarrow> bool"
  assumes drop_identity: "sm_identity d (sm_drop d x) = sm_identity d x"
    and drop_created: "sm_created d (sm_drop d x) = sm_created d x"
    and drop_spent: "sm_spent d (sm_drop d x) = None"
    and drop_ok: "ok x \<Longrightarrow> ok (sm_drop d x)"
    and claim_faithful: "ok x \<Longrightarrow> ok y \<Longrightarrow> sm_identity d x = sm_identity d y \<Longrightarrow>
      sm_claim d x = sm_claim d y \<longleftrightarrow>
      sm_created d x = sm_created d y \<and> sm_spent d x = sm_spent d y"
begin

text \<open>What a record says: which coin, and where it sits on the chain.\<close>

definition view :: "'a \<Rightarrow> string \<times> u32 \<times> u32 option" where
  "view x = (sm_identity d x, sm_created d x, sm_spent d x)"

definition at_height :: "u32 \<Rightarrow> 'a \<Rightarrow> 'a" where
  "at_height h x = (case sm_spent d x of Some s \<Rightarrow> if h < s then sm_drop d x else x | None \<Rightarrow> x)"

lemma normalise_eq: "normalise_at d xs h = map (at_height h) (filter (\<lambda>x. sm_created d x \<le> h) xs)"
  by (simp add: normalise_at_def at_height_def)

lemma at_height_facts:
  "sm_identity d (at_height h x) = sm_identity d x"
  "sm_created d (at_height h x) = sm_created d x"
  "sm_spent d (at_height h x) =
     (case sm_spent d x of Some s \<Rightarrow> if h < s then None else Some s | None \<Rightarrow> None)"
  "ok x \<Longrightarrow> ok (at_height h x)"
  by (auto simp: at_height_def drop_identity drop_created drop_spent drop_ok split: option.splits)

lemma at_height_at_height: "h \<le> k \<Longrightarrow> at_height h (at_height k x) = at_height h x"
  by (auto simp: at_height_def drop_spent split: option.splits if_splits)

text \<open>Holding an answer to a height and then to a lower one is holding it to the lower one.\<close>

lemma normalise_down: "h \<le> k \<Longrightarrow> normalise_at d (normalise_at d xs k) h = normalise_at d xs h"
  by (induction xs)
    (auto simp: normalise_eq at_height_facts at_height_at_height)

lemma normalise_ok: "list_all ok xs \<Longrightarrow> list_all ok (normalise_at d xs h)"
  by (auto simp: normalise_eq list_all_iff at_height_facts)

lemma normalise_distinct:
  "distinct (map (sm_identity d) xs) \<Longrightarrow> distinct (map (sm_identity d) (normalise_at d xs h))"
  by (simp add: normalise_eq comp_def at_height_facts distinct_map inj_on_def)

text \<open>A normalised answer depends only on the views of the records, as a set.\<close>

definition view_at :: "u32 \<Rightarrow> string \<times> u32 \<times> u32 option \<Rightarrow> string \<times> u32 \<times> u32 option" where
  "view_at h v = (case v of (i, c, s) \<Rightarrow>
     (i, c, case s of Some t \<Rightarrow> if h < t then None else Some t | None \<Rightarrow> None))"

lemma view_normalise:
  "view ` set (normalise_at d xs h) = view_at h ` {v \<in> view ` set xs. fst (snd v) \<le> h}"
proof -
  have v: "view (at_height h x) = view_at h (view x)" for x
    by (simp add: view_def view_at_def at_height_facts)
  have c: "{v \<in> view ` set xs. fst (snd v) \<le> h} = view ` {x \<in> set xs. sm_created d x \<le> h}"
    by (auto simp: view_def)
  show ?thesis unfolding c by (simp add: normalise_eq image_image v)
qed

lemma map_of_fingerprint:
  assumes "distinct (map (sm_identity d) xs)"
  shows "map_of (rev (map (\<lambda>x. (sm_identity d x, sm_claim d x)) xs)) i = Some c \<longleftrightarrow>
    (\<exists>x \<in> set xs. sm_identity d x = i \<and> sm_claim d x = c)"
proof -
  let ?l = "rev (map (\<lambda>x. (sm_identity d x, sm_claim d x)) xs)"
  have "map fst ?l = rev (map (sm_identity d) xs)" by (simp add: rev_map comp_def)
  then have "distinct (map fst ?l)" using assms by simp
  then show ?thesis by (auto simp: map_of_eq_Some_iff)
qed

lemma fingerprint_eq_view:
  assumes "distinct (map (sm_identity d) xs)" "distinct (map (sm_identity d) ys)"
    and "list_all ok xs" "list_all ok ys"
  shows "fingerprint d xs = fingerprint d ys \<longleftrightarrow> view ` set xs = view ` set ys"
proof -
  let ?m = "\<lambda>xs. map_of (rev (map (\<lambda>x. (sm_identity d x, sm_claim d x)) xs))"
  have half: "view ` set us \<subseteq> view ` set vs"
    if eq: "?m us = ?m vs" and das: "distinct (map (sm_identity d) us)"
      and dbs: "distinct (map (sm_identity d) vs)" and ok: "list_all ok us" "list_all ok vs" for us vs
  proof
    fix v assume "v \<in> view ` set us"
    then obtain x where x: "x \<in> set us" "v = view x" by blast
    then have "?m us (sm_identity d x) = Some (sm_claim d x)" using map_of_fingerprint [OF das] by blast
    then obtain y where y: "y \<in> set vs" "sm_identity d y = sm_identity d x" "sm_claim d y = sm_claim d x"
      using map_of_fingerprint [OF dbs] eq by auto
    have "view y = v"
      using claim_faithful [of y x] x y ok by (auto simp: view_def list_all_iff)
    with y(1) show "v \<in> view ` set vs" by blast
  qed
  have conv: "?m us i = Some c \<Longrightarrow> ?m vs i = Some c"
    if eq: "view ` set us = view ` set vs" and das: "distinct (map (sm_identity d) us)"
      and dbs: "distinct (map (sm_identity d) vs)" and ok: "list_all ok us" "list_all ok vs" for us vs i c
  proof -
    assume "?m us i = Some c"
    then obtain x where x: "x \<in> set us" "sm_identity d x = i" "sm_claim d x = c"
      using map_of_fingerprint [OF das] by blast
    then obtain y where "y \<in> set vs" "view y = view x" using eq by (metis imageE imageI)
    then have "sm_identity d y = i \<and> sm_claim d y = c"
      using claim_faithful [of y x] x ok by (auto simp: view_def list_all_iff)
    with \<open>y \<in> set vs\<close> show "?m vs i = Some c" using map_of_fingerprint [OF dbs] by blast
  qed
  show ?thesis
    unfolding fingerprint_def bt_collect_eq_iff
  proof
    assume eq: "?m xs = ?m ys"
    show "view ` set xs = view ` set ys"
      using half [OF eq assms] half [OF eq [symmetric] assms(2,1,4,3)] by blast
  next
    assume eq: "view ` set xs = view ` set ys"
    show "?m xs = ?m ys"
    proof
      fix i
      show "?m xs i = ?m ys i"
        using conv [OF eq assms, of i] conv [OF eq [symmetric] assms(2,1,4,3), of i]
        by (cases "?m xs i"; cases "?m ys i") auto
    qed
  qed
qed

text \<open>An honest source that has followed the chain to height \<open>p\<close> answers with the history held
  to \<open>p\<close>. Held further down, all honest sources say the same.\<close>

lemma honest_agree:
  assumes "h \<le> p" "view ` set answer = view ` set (normalise_at d history p)"
  shows "view ` set (normalise_at d answer h) = view ` set (normalise_at d history h)"
proof -
  have "view ` set (normalise_at d answer h) = view ` set (normalise_at d (normalise_at d history p) h)"
    using assms(2) by (simp only: view_normalise)
  then show ?thesis by (simp only: normalise_down [OF assms(1)])
qed

end

section \<open>Contradiction is inequality\<close>

lemma asked_differs_None:
  "asked_differs a kvs b m = None \<longleftrightarrow> (\<forall>(i, c) \<in> set kvs. bt_get m i = Some c)"
  by (induction a kvs b m rule: asked_differs.induct) (auto split: option.splits)

lemma other_adds_None:
  "other_adds a m b kvs = None \<longleftrightarrow> (\<forall>(i, c) \<in> set kvs. bt_get m i \<noteq> None)"
  by (induction a m b kvs rule: other_adds.induct) (auto simp: bt_contains_key_def)

lemma contradiction_None:
  assumes "bt_inv m" "bt_inv n"
  shows "contradiction a m b n = None \<longleftrightarrow> m = n"
proof
  assume c: "contradiction a m b n = None"
  then have "asked_differs a m b n = None" "other_adds a m b n = None"
    by (auto simp: contradiction_def split: option.splits)
  then have sub: "\<forall>(i, c) \<in> set m. bt_get n i = Some c" and dom: "\<forall>(i, c) \<in> set n. bt_get m i \<noteq> None"
    by (simp_all only: asked_differs_None other_adds_None)
  have "bt_get m i = bt_get n i" for i
  proof (cases "bt_get m i")
    case (Some c)
    then have "(i, c) \<in> set m" using btree.entries_iff [OF assms(1)] by blast
    with sub Some show ?thesis by auto
  next
    case None
    show ?thesis
    proof (cases "bt_get n i")
      case (Some c)
      then have "(i, c) \<in> set n" using btree.entries_iff [OF assms(2)] by blast
      with dom None show ?thesis by auto
    qed (simp add: None)
  qed
  then show "m = n" using btree.get_ext [OF assms] by blast
next
  assume "m = n"
  then have "asked_differs a m b n = None" "other_adds a m b n = None"
    unfolding asked_differs_None other_adds_None
    using btree.entries_iff [OF assms(1)] by auto
  then show "contradiction a m b n = None" by (simp add: contradiction_def)
qed

lemma fingerprint_inv: "bt_inv (fingerprint d xs)"
  by (simp add: fingerprint_def bt_collect_inv)

lemmas contradiction_fingerprint = contradiction_None [OF fingerprint_inv fingerprint_inv]

section \<open>Coin records\<close>

definition plain_record :: "coin_record \<Rightarrow> bool" where
  "plain_record r \<longleftrightarrow> plain_coin (cr_coin r)"

lemma coin_identity_eq:
  assumes "plain_record r" "plain_record s"
  shows "coin_identity r = coin_identity s \<longleftrightarrow> cr_coin r = cr_coin s"
proof
  assume "coin_identity r = coin_identity s"
  then have "parent_coin_info (cr_coin r) = parent_coin_info (cr_coin s)"
    "puzzle_hash (cr_coin r) = puzzle_hash (cr_coin s)" "amount (cr_coin r) = amount (cr_coin s)"
    using assms by (auto simp: coin_identity_def plain_record_def plain_coin_def plain_field_def
        word_unat_eq_iff dest!: delim_eq)
  then show "cr_coin r = cr_coin s" by simp
qed (simp add: coin_identity_def)

interpretation coins: set_member_laws coin_record_member plain_record
proof
  fix x y :: coin_record
  show "sm_identity coin_record_member (sm_drop coin_record_member x) = sm_identity coin_record_member x"
    "sm_created coin_record_member (sm_drop coin_record_member x) = sm_created coin_record_member x"
    "sm_spent coin_record_member (sm_drop coin_record_member x) = None"
    by (simp_all add: coin_record_member_def with_spend_dropped_def coin_identity_def)
  show "plain_record x \<Longrightarrow> plain_record (sm_drop coin_record_member x)"
    by (simp add: coin_record_member_def with_spend_dropped_def plain_record_def)
  assume "plain_record x" "plain_record y" "sm_identity coin_record_member x = sm_identity coin_record_member y"
  then show "sm_claim coin_record_member x = sm_claim coin_record_member y \<longleftrightarrow>
      sm_created coin_record_member x = sm_created coin_record_member y \<and>
      sm_spent coin_record_member x = sm_spent coin_record_member y"
    using record_claim_eq [of x y]
    by (auto simp: coin_record_member_def coin_identity_eq plain_record_def spent_at_def)
qed

section \<open>What a set of records says of the chain\<close>

text \<open>A record's fact: the coin, where it was created and where, if anywhere, it was spent. A
  well-formed answer names each coin once; \<open>honest_at\<close> is the answer of a source that has followed
  the chain \<open>history\<close> up to height \<open>p\<close>.\<close>

definition chain_fact :: "coin_record \<Rightarrow> coin \<times> u32 \<times> u32 option" where
  "chain_fact r = (cr_coin r, confirmed_block_index r, spent_at r)"

definition chain_facts :: "coin_record list \<Rightarrow> (coin \<times> u32 \<times> u32 option) set" where
  "chain_facts xs = chain_fact ` set xs"

definition one_per_coin :: "coin_record list \<Rightarrow> bool" where
  "one_per_coin xs \<longleftrightarrow> list_all plain_record xs \<and> distinct (map cr_coin xs)"

definition honest_at :: "coin_record list \<Rightarrow> u32 \<Rightarrow> coin_record list \<Rightarrow> bool" where
  "honest_at history p xs \<longleftrightarrow> one_per_coin history \<and> one_per_coin xs \<and>
     chain_facts xs = chain_facts (normalise_at coin_record_member history p)"

abbreviation coins_at :: "coin_record list \<Rightarrow> u32 \<Rightarrow> coin_record list" where
  "coins_at \<equiv> normalise_at coin_record_member"

lemma member_simps [simp]:
  "sm_identity coin_record_member = coin_identity" "sm_created coin_record_member = confirmed_block_index"
  "sm_drop coin_record_member = with_spend_dropped" "sm_spent coin_record_member = spent_at"
  "sm_claim coin_record_member = chain_claim_record"
  by (simp_all add: coin_record_member_def spent_at_def fun_eq_iff)

lemma image_transfer:
  assumes "\<And>r s. r \<in> A \<union> B \<Longrightarrow> s \<in> A \<union> B \<Longrightarrow> g r = g s \<Longrightarrow> f r = f s" and "g ` A \<subseteq> g ` B"
  shows "f ` A \<subseteq> f ` B"
proof
  fix v assume "v \<in> f ` A"
  then obtain r where r: "r \<in> A" "v = f r" by blast
  then have "g r \<in> g ` B" using assms(2) by blast
  then obtain s where s: "s \<in> B" "g r = g s" by blast
  have "f r = f s" by (rule assms(1)) (use r s in auto)
  with r s show "v \<in> f ` B" by blast
qed

lemma view_facts:
  assumes "list_all plain_record xs" "list_all plain_record ys"
  shows "coins.view ` set xs = coins.view ` set ys \<longleftrightarrow> chain_facts xs = chain_facts ys"
proof -
  have eq: "coins.view r = coins.view s \<longleftrightarrow> chain_fact r = chain_fact s"
    if "r \<in> set xs \<union> set ys" "s \<in> set xs \<union> set ys" for r s
    using that assms coin_identity_eq [of r s]
    by (auto simp: coins.view_def chain_fact_def list_all_iff)
  note half = image_transfer
  show ?thesis
    unfolding chain_facts_def
  proof
    assume e: "coins.view ` set xs = coins.view ` set ys"
    show "chain_fact ` set xs = chain_fact ` set ys"
    proof (rule subset_antisym)
      show "chain_fact ` set xs \<subseteq> chain_fact ` set ys"
        by (rule half [where g = coins.view]) (use eq e in auto)
      show "chain_fact ` set ys \<subseteq> chain_fact ` set xs"
        by (rule half [where g = coins.view]) (use eq e in auto)
    qed
  next
    assume e: "chain_fact ` set xs = chain_fact ` set ys"
    show "coins.view ` set xs = coins.view ` set ys"
    proof (rule subset_antisym)
      show "coins.view ` set xs \<subseteq> coins.view ` set ys"
        by (rule half [where g = chain_fact]) (use eq e in auto)
      show "coins.view ` set ys \<subseteq> coins.view ` set xs"
        by (rule half [where g = chain_fact]) (use eq e in auto)
    qed
  qed
qed

lemma one_per_coin_identity:
  "one_per_coin xs \<Longrightarrow> distinct (map coin_identity xs) \<and> list_all plain_record xs"
proof -
  assume "one_per_coin xs"
  then have p: "list_all plain_record xs" and d: "distinct (map cr_coin xs)" by (auto simp: one_per_coin_def)
  then have "distinct (map coin_identity xs)"
    by (auto simp: distinct_map inj_on_def list_all_iff coin_identity_eq)
  with p show ?thesis by simp
qed

lemma coins_at_ok:
  assumes "one_per_coin xs"
  shows "distinct (map coin_identity (coins_at xs h))" "list_all plain_record (coins_at xs h)"
  using coins.normalise_distinct [of xs h] coins.normalise_ok [of xs h] one_per_coin_identity [OF assms]
  by simp_all

lemma agree_iff_facts:
  assumes "one_per_coin xs" "one_per_coin ys"
  shows "contradiction a (fingerprint coin_record_member (coins_at xs h)) b
      (fingerprint coin_record_member (coins_at ys h)) = None \<longleftrightarrow>
    chain_facts (coins_at xs h) = chain_facts (coins_at ys h)"
  unfolding contradiction_fingerprint
  using coins.fingerprint_eq_view [of "coins_at xs h" "coins_at ys h"] coins_at_ok [OF assms(1), of h]
    coins_at_ok [OF assms(2), of h] view_facts [of "coins_at xs h" "coins_at ys h"]
  by simp

lemma honest_facts:
  assumes "honest_at history p xs" "h \<le> p"
  shows "chain_facts (coins_at xs h) = chain_facts (coins_at history h)"
proof -
  have o: "one_per_coin history" "one_per_coin xs"
    and f: "chain_facts xs = chain_facts (coins_at history p)"
    using assms(1) by (auto simp: honest_at_def)
  have "coins.view ` set xs = coins.view ` set (coins_at history p)"
    using f view_facts [of xs "coins_at history p"] one_per_coin_identity [OF o(2)] coins_at_ok [OF o(1)]
    by simp
  from coins.honest_agree [OF assms(2) this] show ?thesis
    using view_facts [of "coins_at xs h" "coins_at history h"] coins_at_ok [OF o(1)] coins_at_ok [OF o(2)]
    by simp
qed

section \<open>Properties\<close>

text \<open>C9: The common height can only be pulled down. It is settled - at least two blocks below the
  height of every source in the round - never above the caller's end height, and exists whenever
  every source is at height two or more; adding a source to the round never raises it.\<close>

theorem common_height_settled:
  "(case common_height as_of end_h of
      None \<Rightarrow> as_of = [] \<or> (\<exists>x \<in> set as_of. x < 2)
    | Some h \<Rightarrow> as_of \<noteq> [] \<and> (\<forall>x \<in> set as_of. unat h + 2 \<le> unat x) \<and>
        (\<forall>e. end_h = Some e \<longrightarrow> h \<le> e) \<and>
        (\<forall>k x. common_height (x # as_of) end_h = Some k \<longrightarrow> k \<le> h))"
proof (cases "common_height as_of end_h")
  case no: None
  show ?thesis
  proof (cases "min_height as_of")
    case (Some m)
    then have "checked_sub m SETTLED_LAG = None"
      using no by (auto simp: common_height_def split: option.splits)
    then have "m < 2" by (simp add: checked_sub_None SETTLED_LAG_def)
    with min_height_Some [OF Some] no show ?thesis by auto
  next
    case None
    then have "as_of = []" by (simp only: min_height_None)
    with no show ?thesis by simp
  qed
next
  case (Some h)
  have "k \<le> h" if k: "common_height (x # as_of) end_h = Some k" for k x
  proof -
    obtain m s where m: "min_height as_of = Some m" "checked_sub m SETTLED_LAG = Some s"
      "h = (case end_h of Some e \<Rightarrow> min s e | None \<Rightarrow> s)"
      using Some by (auto simp: common_height_def split: option.splits)
    from k m(1) obtain t where t: "checked_sub (min x m) SETTLED_LAG = Some t"
      "k = (case end_h of Some e \<Rightarrow> min t e | None \<Rightarrow> t)"
      by (auto simp: common_height_def split: option.splits)
    have "t \<le> s" using checked_sub_mono [of "min x m" m, OF _ t(1)] m(2) by auto
    then show ?thesis using t(2) m(3) by (auto simp: min_le_iff_disj split: option.splits)
  qed
  then show ?thesis
    using common_height_Some [OF Some] by (auto simp: Some)
qed

lemma common_height_witness:
  "common_height [10, 7] None = Some 5 \<and> unat (5 :: u32) + 2 \<le> unat (7 :: u32)"
proof -
  have "common_height [10, 7] None = Some 5"
    by (simp add: common_height_def checked_sub_def SETTLED_LAG_def min_def)
  then show ?thesis using common_height_settled [of "[10, 7]" None] by simp
qed

definition example_coin_record :: "string \<Rightarrow> u32 \<Rightarrow> u32 option \<Rightarrow> coin_record" where
  "example_coin_record i created spent_h =
     \<lparr>cr_coin = \<lparr>parent_coin_info = i, puzzle_hash = ''0xbb'', amount = 1\<rparr>,
      confirmed_block_index = created,
      spent_block_index = (case spent_h of None \<Rightarrow> 0 | Some h \<Rightarrow> h), spent = (spent_h \<noteq> None),
      coinbase = False, cr_timestamp = 0\<rparr>"

definition example_history :: "coin_record list" where
  "example_history = [example_coin_record ''0x01'' 3 (Some 9), example_coin_record ''0x02'' 8 None]"

lemma example_history_ok: "one_per_coin example_history"
  by (simp add: one_per_coin_def example_history_def example_coin_record_def plain_record_def
      plain_coin_def plain_field_def)

lemma example_coins_at:
  "coins_at example_history 7 = [example_coin_record ''0x01'' 3 None]"
  "coins_at example_history 8 = [example_coin_record ''0x01'' 3 None, example_coin_record ''0x02'' 8 None]"
  "coins_at example_history 10 = example_history"
  by (simp_all add: normalise_at_def example_history_def example_coin_record_def spent_at_def
      with_spend_dropped_def)

lemma example_honest: "honest_at example_history 8 (coins_at example_history 8)"
  "honest_at example_history 10 example_history"
  using example_history_ok
  by (simp_all add: honest_at_def example_coins_at one_per_coin_def example_coin_record_def
      plain_record_def plain_coin_def plain_field_def)





text \<open>C33: An answer that repeats a coin is not held to that. A source that sends a coin twice -
  first with an invented height, then truthfully - is not contradicted by an honest source,
  because only the last record of a coin is compared; and the projection hands the caller both
  records, so what is reported as agreed says something the chain does not.\<close>

theorem repeated_coin_escapes_comparison:
  fixes true_rec :: coin_record and h k :: u32
  assumes "plain_record true_rec" "confirmed_block_index true_rec \<le> h" "k \<le> h" "spent_at true_rec = None"
    and "k \<noteq> confirmed_block_index true_rec"
  defines "forged \<equiv> true_rec\<lparr>confirmed_block_index := k\<rparr>"
    and "all \<equiv> \<lparr>start_height = None, end_height = None, include_spent = True\<rparr>"
  shows "contradiction a (fingerprint coin_record_member (coins_at [forged, true_rec] h)) b
      (fingerprint coin_record_member (coins_at [true_rec] h)) = None \<and>
    project coin_record_member (coins_at [forged, true_rec] h) all = [forged, true_rec] \<and>
    chain_fact forged \<notin> chain_facts (coins_at [true_rec] h)"
proof -
  have sp: "spent_at forged = None" using assms(4) by (simp add: forged_def spent_at_def split: if_splits)
  have n: "coins_at [forged, true_rec] h = [forged, true_rec]" "coins_at [true_rec] h = [true_rec]"
    using assms(2-4) sp by (simp_all add: normalise_at_def forged_def)
  have "coin_identity forged = coin_identity true_rec" by (simp add: forged_def coin_identity_def)
  then have "fingerprint coin_record_member [forged, true_rec] = fingerprint coin_record_member [true_rec]"
    unfolding fingerprint_def bt_collect_eq_iff by (auto simp: fun_eq_iff)
  then show ?thesis
    using assms(5) unfolding n contradiction_fingerprint
    by (simp add: project_def all_def chain_facts_def chain_fact_def) (simp add: forged_def)
qed

lemma repeated_coin_witness:
  "project coin_record_member
     (coins_at [(example_coin_record ''0x01'' 3 None)\<lparr>confirmed_block_index := 1\<rparr>, example_coin_record ''0x01'' 3 None] 7)
     \<lparr>start_height = None, end_height = None, include_spent = True\<rparr> =
   [(example_coin_record ''0x01'' 3 None)\<lparr>confirmed_block_index := 1\<rparr>, example_coin_record ''0x01'' 3 None]"
  using repeated_coin_escapes_comparison [of "example_coin_record ''0x01'' 3 None" 7 1]
  by (simp add: example_coin_record_def plain_record_def plain_coin_def plain_field_def spent_at_def)

end
