(* ===== verification/Corroboration.thy ===== *)
theory Corroboration
  imports Pool Set_Agreement
begin

text \<open>
  The corroborated reads of \<open>src/peer/mod.rs\<close>: \<open>read_opt_corroborated\<close> with its two rounds,
  and \<open>read_set_corroborated\<close>. A peer's answer to the question at hand is a function of the
  peer; what other tasks do to the shared pool between two awaits is a function of the pool,
  so every statement here holds whatever they do.
\<close>

section \<open>Answers and the grading rule\<close>

datatype 'a opt_answer = Found 'a | UncorroboratedFound 'a | CorroboratedAbsent | UncorroboratedAbsent

definition corroborated :: "pool_readiness \<Rightarrow> nat \<Rightarrow> bool" where
  "corroborated readiness agreed \<longleftrightarrow>
     (case readiness of Armed _ \<Rightarrow> True | Insufficient _ _ \<Rightarrow> False) \<and> CORROBORATION_FLOOR \<le> agreed"

text \<open>\<open>Option::get_or_insert\<close>.\<close>

definition get_or_insert :: "'a option \<Rightarrow> 'a \<Rightarrow> 'a option" where
  "get_or_insert x v = (case x of None \<Rightarrow> Some v | Some w \<Rightarrow> Some w)"

type_synonym tally = "nat \<times> string option \<times> socket_addr list"

fun tally_presence ::
  "('a \<Rightarrow> string) \<Rightarrow> socket_addr \<Rightarrow> string \<Rightarrow> (socket_addr \<times> 'a option query) list \<Rightarrow> tally \<Rightarrow> tally" where
  "tally_presence claim addr c [] t = t"
| "tally_presence claim addr c ((a, answer) # rest) (agreed, disagreement, failed) =
     tally_presence claim addr c rest
       (case answer of
          Inr (Some other) \<Rightarrow>
            if claim other = c then (Suc agreed, disagreement, failed)
            else (agreed, get_or_insert disagreement
                    (''peer '' @ show_addr addr @ '' claims `'' @ c @ ''`, peer '' @ show_addr a @
                     '' claims `'' @ claim other @ ''`''), failed)
        | Inr None \<Rightarrow>
            (agreed, get_or_insert disagreement
                    (''peer '' @ show_addr addr @ '' reports present, peer '' @ show_addr a @
                     '' reports absent''), failed)
        | Inl e \<Rightarrow> (agreed, disagreement, failed @ [a]))"

fun tally_absence ::
  "socket_addr \<Rightarrow> (socket_addr \<times> 'a option query) list \<Rightarrow> tally \<Rightarrow> tally" where
  "tally_absence addr [] t = t"
| "tally_absence addr ((a, answer) # rest) (agreed, disagreement, failed) =
     tally_absence addr rest
       (case answer of
          Inr None \<Rightarrow> (Suc agreed, disagreement, failed)
        | Inr (Some _) \<Rightarrow>
            (agreed, get_or_insert disagreement
                    (''peer '' @ show_addr addr @ '' reports absent, peer '' @ show_addr a @
                     '' reports present''), failed)
        | Inl e \<Rightarrow> (agreed, disagreement, failed @ [a]))"

definition eject_all :: "socket_addr list \<Rightarrow> 'p peer_pool \<Rightarrow> 'p peer_pool" where
  "eject_all = fold eject_peer"

section \<open>Scalar reads\<close>

text \<open>\<open>env i\<close>: what the other tasks did to the pool before the \<open>i\<close>-th look at it.\<close>

type_synonym 'p interference = "nat \<Rightarrow> 'p peer_pool \<Rightarrow> 'p peer_pool"

definition corroborate_presence ::
  "('a \<Rightarrow> string) \<Rightarrow> 'a \<Rightarrow> socket_addr \<Rightarrow> ('p \<Rightarrow> 'a option query) \<Rightarrow> 'p interference \<Rightarrow>
   'p peer_pool \<Rightarrow> 'a opt_answer query \<times> 'p peer_pool" where
  "corroborate_presence claim found addr read env pool =
     (let readiness = corroboration_readiness pool addr;
          pool = env 1 pool;
          corroborators = select_corroborating_peers pool addr
      in if corroborators = [] then (Inr (UncorroboratedFound found), pool)
         else
           let answers = map (\<lambda>(p, a). (a, read p)) corroborators;
               (agreed, disagreement, failed) = tally_presence claim addr (claim found) answers (0, None, []);
               pool = eject_all failed (env 2 pool)
           in (case disagreement of
                 Some detail \<Rightarrow> Inl (SourcesDisagree detail)
               | None \<Rightarrow> Inr (if \<not> corroborated readiness agreed then UncorroboratedFound found
                              else Found found), pool))"

definition corroborate_absence ::
  "socket_addr \<Rightarrow> ('p \<Rightarrow> 'a option query) \<Rightarrow> 'p interference \<Rightarrow> 'p peer_pool \<Rightarrow>
   'a opt_answer query \<times> 'p peer_pool" where
  "corroborate_absence addr read env pool =
     (let readiness = corroboration_readiness pool addr;
          pool = env 1 pool;
          corroborators = select_corroborating_peers pool addr
      in if corroborators = [] then (Inr UncorroboratedAbsent, pool)
         else
           let answers = map (\<lambda>(p, a). (a, read p)) corroborators;
               (agreed, disagreement, failed) = tally_absence addr answers (0, None, []);
               pool = eject_all failed (env 2 pool)
           in (case disagreement of
                 Some detail \<Rightarrow> Inl (SourcesDisagree detail)
               | None \<Rightarrow> Inr (if \<not> corroborated readiness agreed then UncorroboratedAbsent
                              else CorroboratedAbsent), pool))"

text \<open>\<open>pick\<close>: one maintenance pass, then round robin.\<close>

type_synonym 'p dial = "socket_addr list \<Rightarrow> ('p \<times> socket_addr \<times> peer_origin) option"

definition pick ::
  "'p dial \<Rightarrow> nat \<Rightarrow> 'p peer_pool \<Rightarrow> ('p \<times> socket_addr) query \<times> 'p peer_pool" where
  "pick dial now pool =
     (case select_peer (maintain dial now pool) of
        (r, pool') \<Rightarrow> (ok_or (PeerConnection ''no peers available'') r, pool'))"

definition read_opt_corroborated ::
  "'p dial \<Rightarrow> nat \<Rightarrow> 'p interference \<Rightarrow> ('a \<Rightarrow> string) \<Rightarrow> ('p \<Rightarrow> 'a option query) \<Rightarrow> 'p peer_pool \<Rightarrow>
   'a opt_answer query \<times> 'p peer_pool" where
  "read_opt_corroborated dial now env claim read pool =
     (case pick dial now pool of
        (Inl e, pool) \<Rightarrow> (Inl e, pool)
      | (Inr (peer, addr), pool) \<Rightarrow>
          (case read peer of
             Inl e \<Rightarrow> (Inl e, eject_peer addr (env 0 pool))
           | Inr (Some found) \<Rightarrow> corroborate_presence claim found addr read env (env 0 pool)
           | Inr None \<Rightarrow> corroborate_absence addr read env (env 0 pool)))"

text \<open>The other single-peer reads share this shape: one peer, ejected if the read fails.\<close>

definition read_single ::
  "'p dial \<Rightarrow> nat \<Rightarrow> 'p interference \<Rightarrow> ('p \<Rightarrow> 'a query) \<Rightarrow> 'p peer_pool \<Rightarrow> 'a query \<times> 'p peer_pool" where
  "read_single dial now env read pool =
     (case pick dial now pool of
        (Inl e, pool) \<Rightarrow> (Inl e, pool)
      | (Inr (peer, addr), pool) \<Rightarrow>
          (let res = read peer; pool = env 0 pool
           in (res, if is_err res then eject_peer addr pool else pool)))"

section \<open>Set reads\<close>

fun split_answers ::
  "(socket_addr \<times> 'a query) list \<Rightarrow> (socket_addr \<times> 'a) list \<times> socket_addr list" where
  "split_answers [] = ([], [])"
| "split_answers ((a, answer) # rest) =
     (let (others, failed) = split_answers rest
      in case answer of Inr s \<Rightarrow> ((a, s) # others, failed) | Inl e \<Rightarrow> (others, a # failed))"

definition peer_label :: "socket_addr \<Rightarrow> string" where
  "peer_label a = ''peer '' @ show_addr a"

fun tally_sets ::
  "'a set_member \<Rightarrow> u32 \<Rightarrow> socket_addr \<Rightarrow> (string, string) btree_map \<Rightarrow>
   (socket_addr \<times> 'a heighted_set) list \<Rightarrow> nat \<times> string option \<Rightarrow> nat \<times> string option" where
  "tally_sets d h addr claim [] t = t"
| "tally_sets d h addr claim ((a, s) # rest) (agreed, disagreement) =
     tally_sets d h addr claim rest
       (case contradiction (peer_label addr) claim (peer_label a)
               (fingerprint d (normalise_at d (hs_items s) h)) of
          None \<Rightarrow> (Suc agreed, disagreement)
        | Some detail \<Rightarrow>
            (agreed, get_or_insert disagreement (''at height '' @ show_word h @ '': '' @ detail)))"

definition show_heights :: "u32 list \<Rightarrow> string" where
  "show_heights hs = ''['' @ sep_by '', '' (map show_word hs) @ '']''"

text \<open>The verdict on a round, from the asked peer's set and the sets of those that answered.\<close>

definition grade_sets ::
  "'a set_member \<Rightarrow> pool_readiness \<Rightarrow> socket_addr \<Rightarrow> 'a heighted_set \<Rightarrow>
   (socket_addr \<times> 'a heighted_set) list \<Rightarrow> set_projection \<Rightarrow> 'a set_answer query" where
  "grade_sets d readiness addr first others projection =
     (let as_of = hs_as_of first # map (\<lambda>(_, s). hs_as_of s) others
      in case common_height as_of (end_height projection) of
           None \<Rightarrow> Inl (UncorroboratedPresence
             (''no settled common height exists for the sources that answered ('' @ show_heights as_of @ '')''))
         | Some height \<Rightarrow>
             let normalised = normalise_at d (hs_items first) height;
                 claim = fingerprint d normalised;
                 (agreed, disagreement) = tally_sets d height addr claim others (0, None)
             in case disagreement of
                  Some detail \<Rightarrow> Inl (SourcesDisagree detail)
                | None \<Rightarrow>
                    let items = project d normalised projection;
                        window_has_settled =
                          (case start_height projection of None \<Rightarrow> True | Some s \<Rightarrow> s \<le> height)
                    in Inr (if \<not> window_has_settled then Uncorroborated items height
                            else if \<not> corroborated readiness agreed then Uncorroborated items height
                            else Corroborated items height))"

definition read_set_corroborated ::
  "'p dial \<Rightarrow> nat \<Rightarrow> 'p interference \<Rightarrow> 'a set_member \<Rightarrow> ('p \<Rightarrow> 'a heighted_set query) \<Rightarrow>
   set_projection \<Rightarrow> 'p peer_pool \<Rightarrow> 'a set_answer query \<times> 'p peer_pool" where
  "read_set_corroborated dial now env d read projection pool =
     (case pick dial now pool of
        (Inl e, pool) \<Rightarrow> (Inl e, pool)
      | (Inr (peer, addr), pool) \<Rightarrow>
          (let pool = env 0 pool; readiness = corroboration_readiness pool addr; pool = env 1 pool
           in case read peer of
                Inl e \<Rightarrow> (Inl e, eject_peer addr pool)
              | Inr first \<Rightarrow>
                  (let corroborators = select_corroborating_peers pool addr;
                       (others, failed) = split_answers (map (\<lambda>(p, a). (a, read p)) corroborators)
                   in (grade_sets d readiness addr first others projection,
                       eject_all failed (env 2 pool)))))"

section \<open>Independent voices\<close>

text \<open>What the rounds rely on of the pool: the voices they are given are different hosts, none of
  them the asked one, and a pool that says it is armed names the size of that set.\<close>

locale independent_voices =
  fixes readiness :: "'s \<Rightarrow> socket_addr \<Rightarrow> pool_readiness"
    and select :: "'s \<Rightarrow> socket_addr \<Rightarrow> ('p \<times> socket_addr) list"
  assumes select_distinct: "distinct (map (\<lambda>c. ip (snd c)) (select s a))"
    and select_other: "c \<in> set (select s a) \<Longrightarrow> ip (snd c) \<noteq> ip a"
    and armed_iff: "readiness s a = Armed n \<longleftrightarrow> n = length (select s a) \<and> CORROBORATION_FLOOR \<le> n"
begin

lemma counted_hosts:
  "card ((\<lambda>c. ip (snd c)) ` {c \<in> set (select s a). P c}) = length (filter P (select s a))"
proof -
  have "distinct (map (\<lambda>c. ip (snd c)) (filter P (select s a)))"
    using select_distinct by (rule distinct_map_filter)
  then have "card (set (map (\<lambda>c. ip (snd c)) (filter P (select s a)))) = length (filter P (select s a))"
    by (simp only: distinct_card length_map)
  moreover have "set (map (\<lambda>c. ip (snd c)) (filter P (select s a))) =
      (\<lambda>c. ip (snd c)) ` {c \<in> set (select s a). P c}"
    by auto
  ultimately show ?thesis by simp
qed

lemma armed_voices: "readiness s a = Armed n \<Longrightarrow> n \<le> card ((\<lambda>c. ip (snd c)) ` set (select s a))"
  using counted_hosts [of s a "\<lambda>_. True"] by (simp add: armed_iff)

lemma never_asked_itself: "ip a \<notin> (\<lambda>c. ip (snd c)) ` {c \<in> set (select s a). P c}"
  using select_other by fastforce

end

interpretation pool_voices: independent_voices corroboration_readiness select_corroborating_peers
proof
  fix pool :: "'p peer_pool" and a n
  show "distinct (map (\<lambda>c. ip (snd c)) (select_corroborating_peers pool a))"
    using corroborators_facts(1) [of "entries pool" a]
    by (simp add: select_corroborating_peers_def comp_def)
  show "ip (snd c) \<noteq> ip a" if "c \<in> set (select_corroborating_peers pool a)" for c
    using that corroborators_facts(3) [of _ "entries pool" a]
    by (auto simp: select_corroborating_peers_def)
  show "corroboration_readiness pool a = Armed n \<longleftrightarrow>
      n = length (select_corroborating_peers pool a) \<and> CORROBORATION_FLOOR \<le> n"
    by (auto simp: corroboration_readiness_def select_corroborating_peers_def Let_def)
qed

section \<open>What a round counts\<close>

lemma get_or_insert_None: "get_or_insert d v = None \<longleftrightarrow> False"
  by (simp add: get_or_insert_def split: option.split)

lemmas tally_split = sum.splits option.splits if_splits

lemma tally_presence_agreed:
  "fst (tally_presence claim addr c answers t) =
     fst t + length (filter (\<lambda>(_, r). case r of Inr (Some x) \<Rightarrow> claim x = c | _ \<Rightarrow> False) answers)"
  by (induction claim addr c answers t rule: tally_presence.induct) (auto split: tally_split)

lemma tally_presence_failed:
  "snd (snd (tally_presence claim addr c answers t)) =
     snd (snd t) @ map fst (filter (\<lambda>(_, r). is_err r) answers)"
  by (induction claim addr c answers t rule: tally_presence.induct) (auto split: tally_split)

lemma tally_presence_disagreement:
  "fst (snd (tally_presence claim addr c answers t)) = None \<longleftrightarrow>
     fst (snd t) = None \<and> (\<forall>(_, r) \<in> set answers.
       case r of Inr (Some x) \<Rightarrow> claim x = c | Inr None \<Rightarrow> False | Inl _ \<Rightarrow> True)"
  by (induction claim addr c answers t rule: tally_presence.induct)
    (auto simp: get_or_insert_None split: tally_split)

lemma tally_absence_agreed:
  "fst (tally_absence addr answers t) = fst t + length (filter (\<lambda>(_, r). r = Inr None) answers)"
  by (induction addr answers t rule: tally_absence.induct) (auto split: tally_split)

lemma tally_absence_failed:
  "snd (snd (tally_absence addr answers t)) =
     snd (snd t) @ map fst (filter (\<lambda>(_, r). is_err r) answers)"
  by (induction addr answers t rule: tally_absence.induct) (auto split: tally_split)

lemma tally_absence_disagreement:
  "fst (snd (tally_absence addr answers t)) = None \<longleftrightarrow>
     fst (snd t) = None \<and> (\<forall>(_, r) \<in> set answers. r = Inr None \<or> is_err r)"
  by (induction addr answers t rule: tally_absence.induct)
    (auto simp: get_or_insert_None split: tally_split)

lemma split_answers_eq:
  "split_answers answers =
     (concat (map (\<lambda>(a, r). case r of Inr s \<Rightarrow> [(a, s)] | Inl _ \<Rightarrow> []) answers),
      map fst (filter (\<lambda>(_, r). is_err r) answers))"
  by (induction answers) (auto split: sum.splits)

lemma split_answers_mem: "(a, s) \<in> set (fst (split_answers answers)) \<longleftrightarrow> (a, Inr s) \<in> set answers"
  by (force simp: split_answers_eq split: sum.splits)

abbreviation same_set ::
  "'a set_member \<Rightarrow> u32 \<Rightarrow> (string, string) btree_map \<Rightarrow> 'a heighted_set \<Rightarrow> bool" where
  "same_set d h claim s \<equiv> fingerprint d (normalise_at d (hs_items s) h) = claim"

lemma tally_sets_agreed:
  assumes "bt_inv claim"
  shows "fst (tally_sets d h addr claim others t) =
     fst t + length (filter (\<lambda>(a, s). same_set d h claim s) others)"
  using assms
proof (induction d h addr claim others t rule: tally_sets.induct)
  case (2 d h addr claim a s rest agreed disagreement)
  note c = contradiction_None [OF 2(2) fingerprint_inv, of "peer_label addr" "peer_label a" d "normalise_at d (hs_items s) h"]
  show ?case
    using 2(1) [OF 2(2)] c by (cases "same_set d h claim s") (auto split: option.split)
qed simp

lemma tally_sets_disagreement:
  assumes "bt_inv claim"
  shows "snd (tally_sets d h addr claim others t) = None \<longleftrightarrow>
     snd t = None \<and> (\<forall>(a, s) \<in> set others. same_set d h claim s)"
  using assms
proof (induction d h addr claim others t rule: tally_sets.induct)
  case (2 d h addr claim a s rest agreed disagreement)
  note c = contradiction_None [OF 2(2) fingerprint_inv, of "peer_label addr" "peer_label a" d "normalise_at d (hs_items s) h"]
  show ?case
    using 2(1) [OF 2(2)] c
    by (cases "same_set d h claim s") (auto simp: get_or_insert_None split: option.split)
qed simp


section \<open>What a round decides\<close>

definition repeats :: "('a \<Rightarrow> string) \<Rightarrow> 'a \<Rightarrow> 'a option query \<Rightarrow> bool" where
  "repeats claim x r \<longleftrightarrow> (case r of Inr (Some y) \<Rightarrow> claim y = claim x | _ \<Rightarrow> False)"

definition hosts_of :: "('p \<times> socket_addr) set \<Rightarrow> ip_addr set" where
  "hosts_of vs = (\<lambda>v. ip (snd v)) ` vs"

lemma eject_all_eq:
  "eject_all as pool = pool\<lparr>entries := filter (\<lambda>e. pe_address e \<notin> set as) (entries pool)\<rparr>"
proof (induction as arbitrary: pool)
  case (Cons a as)
  have "eject_all (a # as) pool = eject_all as (eject_peer a pool)" by (simp add: eject_all_def)
  also have "\<dots> = pool\<lparr>entries := filter (\<lambda>e. pe_address e \<notin> set (a # as)) (entries pool)\<rparr>"
    unfolding Cons.IH by (auto simp: eject_peer_def intro!: filter_cong)
  finally show ?case .
qed (simp add: eject_all_def)

lemma filter_answers:
  "length (filter (\<lambda>(_, r). P r) (map (\<lambda>(p, a). (a, read p)) vs)) =
   length (filter (\<lambda>(p, a). P (read p)) vs)"
  "map fst (filter (\<lambda>(_, r). P r) (map (\<lambda>(p, a). (a, read p)) vs)) =
   map snd (filter (\<lambda>(p, a). P (read p)) vs)"
  by (induction vs) auto

lemma agreeing_hosts:
  "card (hosts_of {(p, a) \<in> set (select_corroborating_peers pool addr). P p}) =
   length (filter (\<lambda>(p, a). P p) (select_corroborating_peers pool addr))"
  using pool_voices.counted_hosts [of pool addr "\<lambda>(p, a). P p"]
  by (simp add: hosts_of_def case_prod_beta')

lemma asked_host_absent: "ip addr \<notin> hosts_of (set (select_corroborating_peers pool addr))"
  using pool_voices.never_asked_itself [of addr pool "\<lambda>_. True"] by (simp add: hosts_of_def)

text \<open>Both scalar rounds end the same way: from the tally, the verdict and the ejections.\<close>

definition scalar_verdict ::
  "pool_readiness \<Rightarrow> tally \<Rightarrow> 'v \<Rightarrow> 'v \<Rightarrow> 'v query" where
  "scalar_verdict readiness t weak strong =
     (case fst (snd t) of
        Some detail \<Rightarrow> Inl (SourcesDisagree detail)
      | None \<Rightarrow> Inr (if \<not> corroborated readiness (fst t) then weak else strong))"

lemma scalar_verdict_cases:
  fixes read :: "'p \<Rightarrow> 'a query"
  assumes "fst (snd t) = None \<longleftrightarrow> (\<forall>(p, a) \<in> set vs. good (read p) \<or> is_err (read p))"
  shows "(\<exists>(p, a) \<in> set vs. \<not> good (read p) \<and> \<not> is_err (read p)) \<Longrightarrow>
      \<exists>detail. scalar_verdict readiness t weak strong = Inl (SourcesDisagree detail)"
    and "\<forall>(p, a) \<in> set vs. good (read p) \<or> is_err (read p) \<Longrightarrow>
      scalar_verdict readiness t weak strong = Inr (if corroborated readiness (fst t) then strong else weak)"
proof -
  assume "\<exists>(p, a) \<in> set vs. \<not> good (read p) \<and> \<not> is_err (read p)"
  then have "\<not> (\<forall>(p, a) \<in> set vs. good (read p) \<or> is_err (read p))" by auto
  then have "fst (snd t) \<noteq> None" using assms by blast
  then show "\<exists>detail. scalar_verdict readiness t weak strong = Inl (SourcesDisagree detail)"
    by (auto simp: scalar_verdict_def)
next
  assume "\<forall>(p, a) \<in> set vs. good (read p) \<or> is_err (read p)"
  then have "fst (snd t) = None" using assms by blast
  then show "scalar_verdict readiness t weak strong = Inr (if corroborated readiness (fst t) then strong else weak)"
    by (simp add: scalar_verdict_def)
qed

text \<open>The pool after a round: the voices that failed to answer are gone, the others stay.\<close>

definition after_round ::
  "'p interference \<Rightarrow> ('p \<Rightarrow> 'a query) \<Rightarrow> ('p \<times> socket_addr) list \<Rightarrow> 'p peer_pool \<Rightarrow> 'p peer_entry list" where
  "after_round env read vs pool =
     (if vs = [] then entries pool
      else filter (\<lambda>e. pe_address e \<notin> snd ` {(p, a) \<in> set vs. is_err (read p)}) (entries (env 2 pool)))"

lemma failed_addresses:
  "set (map snd (filter (\<lambda>(p, a). is_err (read p)) vs)) = snd ` {(p, a) \<in> set vs. is_err (read p)}"
  by (auto simp: image_def)

lemma presence_round:
  fixes pool :: "'p peer_pool" and read :: "'p \<Rightarrow> 'a option query"
  assumes "corroborate_presence claim found addr read env pool = (r, pool')"
  defines "vs \<equiv> select_corroborating_peers (env 1 pool) addr"
  shows "(\<exists>(p, a) \<in> set vs. \<not> repeats claim found (read p) \<and> \<not> is_err (read p)) \<Longrightarrow>
      \<exists>detail. r = Inl (SourcesDisagree detail)"
    and "\<forall>(p, a) \<in> set vs. repeats claim found (read p) \<or> is_err (read p) \<Longrightarrow>
      r = Inr (if corroborated (corroboration_readiness pool addr)
                    (card (hosts_of {(p, a) \<in> set vs. repeats claim found (read p)}))
               then Found found else UncorroboratedFound found)"
    and "entries pool' = after_round env read vs (env 1 pool)"
proof -
  let ?t = "tally_presence claim addr (claim found) (map (\<lambda>(p, a). (a, read p)) vs) (0, None, [])"
  have sat: "(case q of Inr (Some x) \<Rightarrow> claim x = claim found | Inr None \<Rightarrow> False | Inl _ \<Rightarrow> True) \<longleftrightarrow>
      repeats claim found q \<or> is_err q" for q :: "'a option query"
    by (simp add: repeats_def split: sum.split option.split)
  have dis: "fst (snd ?t) = None \<longleftrightarrow> (\<forall>(p, a) \<in> set vs. repeats claim found (read p) \<or> is_err (read p))"
    unfolding tally_presence_disagreement sat by auto
  have agreed: "fst ?t = card (hosts_of {(p, a) \<in> set vs. repeats claim found (read p)})"
    using filter_answers(1) [of "repeats claim found" read vs]
    unfolding tally_presence_agreed vs_def agreeing_hosts by (simp add: repeats_def)
  have "r = scalar_verdict (corroboration_readiness pool addr) ?t (UncorroboratedFound found) (Found found) \<and>
      pool' = (if vs = [] then env 1 pool else eject_all (snd (snd ?t)) (env 2 (env 1 pool)))"
    using assms(1) unfolding corroborate_presence_def Let_def vs_def [symmetric]
    by (cases ?t; auto simp: scalar_verdict_def corroborated_def CORROBORATION_FLOOR_def
        split: option.splits if_splits)
  then have r: "r = scalar_verdict (corroboration_readiness pool addr) ?t (UncorroboratedFound found) (Found found)"
    and pool': "pool' = (if vs = [] then env 1 pool else eject_all (snd (snd ?t)) (env 2 (env 1 pool)))"
    by blast+
  note cases = scalar_verdict_cases [OF dis, of "corroboration_readiness pool addr" "UncorroboratedFound found" "Found found"]
  show "(\<exists>(p, a) \<in> set vs. \<not> repeats claim found (read p) \<and> \<not> is_err (read p)) \<Longrightarrow>
      \<exists>detail. r = Inl (SourcesDisagree detail)"
    unfolding r by (rule cases(1))
  show "\<forall>(p, a) \<in> set vs. repeats claim found (read p) \<or> is_err (read p) \<Longrightarrow>
      r = Inr (if corroborated (corroboration_readiness pool addr)
                    (card (hosts_of {(p, a) \<in> set vs. repeats claim found (read p)}))
               then Found found else UncorroboratedFound found)"
    unfolding r agreed [symmetric] by (rule cases(2))
  show "entries pool' = after_round env read vs (env 1 pool)"
    unfolding pool' after_round_def failed_addresses [symmetric] eject_all_eq tally_presence_failed
    by (simp add: filter_answers(2))
qed

lemma absence_round:
  fixes pool :: "'p peer_pool" and read :: "'p \<Rightarrow> 'a option query"
  assumes "corroborate_absence addr read env pool = (r, pool')"
  defines "vs \<equiv> select_corroborating_peers (env 1 pool) addr"
  shows "(\<exists>(p, a) \<in> set vs. read p \<noteq> Inr None \<and> \<not> is_err (read p)) \<Longrightarrow>
      \<exists>detail. r = Inl (SourcesDisagree detail)"
    and "\<forall>(p, a) \<in> set vs. read p = Inr None \<or> is_err (read p) \<Longrightarrow>
      r = Inr (if corroborated (corroboration_readiness pool addr)
                    (card (hosts_of {(p, a) \<in> set vs. read p = Inr None}))
               then CorroboratedAbsent else UncorroboratedAbsent)"
    and "entries pool' = after_round env read vs (env 1 pool)"
proof -
  let ?t = "tally_absence addr (map (\<lambda>(p, a). (a, read p)) vs) (0, None, [])"
  have dis: "fst (snd ?t) = None \<longleftrightarrow> (\<forall>(p, a) \<in> set vs. read p = Inr None \<or> is_err (read p))"
    unfolding tally_absence_disagreement by auto
  have agreed: "fst ?t = card (hosts_of {(p, a) \<in> set vs. read p = Inr None})"
    using filter_answers(1) [of "\<lambda>q. q = Inr None" read vs]
    unfolding tally_absence_agreed vs_def agreeing_hosts by simp
  have "r = scalar_verdict (corroboration_readiness pool addr) ?t UncorroboratedAbsent CorroboratedAbsent \<and>
      pool' = (if vs = [] then env 1 pool else eject_all (snd (snd ?t)) (env 2 (env 1 pool)))"
    using assms(1) unfolding corroborate_absence_def Let_def vs_def [symmetric]
    by (cases ?t; auto simp: scalar_verdict_def corroborated_def CORROBORATION_FLOOR_def
        split: option.splits if_splits)
  then have r: "r = scalar_verdict (corroboration_readiness pool addr) ?t UncorroboratedAbsent CorroboratedAbsent"
    and pool': "pool' = (if vs = [] then env 1 pool else eject_all (snd (snd ?t)) (env 2 (env 1 pool)))"
    by blast+
  note cases = scalar_verdict_cases [OF dis, of "corroboration_readiness pool addr"
      "UncorroboratedAbsent :: 'a opt_answer" CorroboratedAbsent]
  show "(\<exists>(p, a) \<in> set vs. read p \<noteq> Inr None \<and> \<not> is_err (read p)) \<Longrightarrow>
      \<exists>detail. r = Inl (SourcesDisagree detail)"
    unfolding r by (rule cases(1))
  show "\<forall>(p, a) \<in> set vs. read p = Inr None \<or> is_err (read p) \<Longrightarrow>
      r = Inr (if corroborated (corroboration_readiness pool addr)
                    (card (hosts_of {(p, a) \<in> set vs. read p = Inr None}))
               then CorroboratedAbsent else UncorroboratedAbsent)"
    unfolding r agreed [symmetric] by (rule cases(2))
  show "entries pool' = after_round env read vs (env 1 pool)"
    unfolding pool' after_round_def failed_addresses [symmetric] eject_all_eq tally_absence_failed
    by (simp add: filter_answers(2))
qed


lemma round_never_inverts:
  "corroborate_presence claim found addr read env pool = (Inr v, pool') \<Longrightarrow>
     v = Found found \<or> v = UncorroboratedFound found"
  "corroborate_absence addr read env pool = (Inr v, pool') \<Longrightarrow>
     v = CorroboratedAbsent \<or> v = UncorroboratedAbsent"
  using presence_round(1,2) [of claim found addr read env pool "Inr v" pool']
    absence_round(1,2) [of addr read env pool "Inr v" pool']
  by (fastforce split: if_splits)+

section \<open>Properties of the scalar reads\<close>

definition voting_entry :: "32 word \<Rightarrow> nat peer_entry" where
  "voting_entry w =
     \<lparr>pe_peer = unat w, pe_address = example_addr w, pe_session = SessionId (ucast w),
      pe_origin = Discovered, last_peak = 100, admitted_at = 0\<rparr>"

definition voting_pool :: "nat peer_pool" where
  "voting_pool = (empty_pool 3)\<lparr>entries := [voting_entry 1, voting_entry 2, voting_entry 3]\<rparr>"

lemma voting_pick:
  "pick (\<lambda>_. None) 0 voting_pool = (Inr (1, example_addr 1), voting_pool\<lparr>next_idx := 1\<rparr>)"
  by (simp add: pick_def voting_pool_def voting_entry_def empty_pool_def maintain_def eject_dead_eq
      evict_lagging_peers_def voting_peaks_def reference_peak_def lagging_def saturating_sub_def
      cycle_expired_peers_def expired_def PEER_LIFETIME_def try_refill_def select_peer_def next_idx_add_def
      Let_def)

lemma voting_voices:
  "select_corroborating_peers (voting_pool\<lparr>next_idx := n\<rparr>) (example_addr 1) =
     [(2, example_addr 2), (3, example_addr 3)]"
  "corroboration_readiness (voting_pool\<lparr>next_idx := n\<rparr>) (example_addr 1) = Armed 2"
  by (simp_all add: select_corroborating_peers_def corroboration_readiness_def corroborators_def
      is_corroborator_def voting_pool_def voting_entry_def empty_pool_def dedup_by_def example_addr_def
      CORROBORATION_FLOOR_def Let_def)

lemma found_attested:
  assumes "read_opt_corroborated dial now env claim read pool = (Inr (Found x), pool')"
  shows "\<exists>peer addr asked. pick dial now pool = (Inr (peer, addr), asked) \<and> read peer = Inr (Some x) \<and>
    (let vs = set (select_corroborating_peers (env 1 (env 0 asked)) addr);
         same = hosts_of {(p, a) \<in> vs. repeats claim x (read p)}
     in 2 \<le> card same \<and> ip addr \<notin> same \<and>
        (\<forall>(p, a) \<in> vs. repeats claim x (read p) \<or> is_err (read p)) \<and>
        (\<exists>n. corroboration_readiness (env 0 asked) addr = Armed n))"
proof -
  obtain peer addr asked found where
    pick: "pick dial now pool = (Inr (peer, addr), asked)" and
    found: "read peer = Inr (Some found)" and
    r: "corroborate_presence claim found addr read env (env 0 asked) = (Inr (Found x), pool')"
    using assms
    by (auto simp: read_opt_corroborated_def split: prod.splits sum.splits option.splits
        dest: round_never_inverts(2))
  let ?vs = "select_corroborating_peers (env 1 (env 0 asked)) addr"
  have x: "found = x" using round_never_inverts(1) [OF r] by simp
  have all: "\<forall>(p, a) \<in> set ?vs. repeats claim x (read p) \<or> is_err (read p)"
    using presence_round(1) [OF r] unfolding x by blast
  have "corroborated (corroboration_readiness (env 0 asked) addr)
      (card (hosts_of {(p, a) \<in> set ?vs. repeats claim x (read p)}))"
    using presence_round(2) [OF r] all unfolding x by (simp split: if_splits)
  moreover have "ip addr \<notin> hosts_of {(p, a) \<in> set ?vs. repeats claim x (read p)}"
    using asked_host_absent [of addr "env 1 (env 0 asked)"] by (auto simp: hosts_of_def)
  moreover from calculation(1) obtain n where "corroboration_readiness (env 0 asked) addr = Armed n"
    by (auto simp: corroborated_def split: pool_readiness.splits)
  ultimately show ?thesis
    using pick found all unfolding x Let_def
    by (intro exI conjI) (auto simp: corroborated_def CORROBORATION_FLOOR_def)
qed

lemma found_asked:
  assumes "read_opt_corroborated dial now env claim read pool = (Inr v, pool')"
    and "v = Found x \<or> v = UncorroboratedFound x"
  shows "\<exists>peer addr asked. pick dial now pool = (Inr (peer, addr), asked) \<and> read peer = Inr (Some x)"
proof -
  obtain peer addr asked q where pick: "pick dial now pool = (Inr (peer, addr), asked)"
    and q: "read peer = Inr q"
    and r: "(case q of Some found \<Rightarrow> corroborate_presence claim found addr read env (env 0 asked)
       | None \<Rightarrow> corroborate_absence addr read env (env 0 asked)) = (Inr v, pool')"
    using assms(1) by (auto simp: read_opt_corroborated_def split: prod.splits sum.splits option.splits)
  have "q = Some x"
    using r assms(2) by (cases q) (auto dest: round_never_inverts)
  with pick q show ?thesis by blast
qed





text \<open>C5: A contradiction is an error and keeps its sources. A presence round fails with
  \<open>SourcesDisagree\<close> exactly when a voice answered and did not repeat the claim; it never turns a
  presence into an absence; and it ejects exactly the voices that failed to answer, so the
  contradicting ones are kept.\<close>

theorem contradiction_surfaces:
  fixes pool :: "'p peer_pool" and read :: "'p \<Rightarrow> 'a option query"
  assumes "corroborate_presence claim found addr read env pool = (r, pool')"
  defines "vs \<equiv> select_corroborating_peers (env 1 pool) addr"
  shows "((\<exists>detail. r = Inl (SourcesDisagree detail)) \<longleftrightarrow>
      (\<exists>(p, a) \<in> set vs. \<not> repeats claim found (read p) \<and> \<not> is_err (read p))) \<and>
    (\<forall>v. r = Inr v \<longrightarrow> v = Found found \<or> v = UncorroboratedFound found) \<and>
    entries pool' =
      (if vs = [] then entries (env 1 pool)
       else filter (\<lambda>e. pe_address e \<notin> snd ` {(p, a) \<in> set vs. is_err (read p)})
              (entries (env 2 (env 1 pool))))"
proof -
  note round = presence_round [OF assms(1), folded vs_def]
  have "(\<exists>detail. r = Inl (SourcesDisagree detail)) \<longleftrightarrow>
      (\<exists>(p, a) \<in> set vs. \<not> repeats claim found (read p) \<and> \<not> is_err (read p))"
  proof
    assume d: "\<exists>detail. r = Inl (SourcesDisagree detail)"
    show "\<exists>(p, a) \<in> set vs. \<not> repeats claim found (read p) \<and> \<not> is_err (read p)"
    proof (rule ccontr)
      assume "\<not> ?thesis"
      then have "\<forall>(p, a) \<in> set vs. repeats claim found (read p) \<or> is_err (read p)" by auto
      from round(2) [OF this] d show False by auto
    qed
  qed (rule round(1))
  moreover have "v = Found found \<or> v = UncorroboratedFound found" if "r = Inr v" for v
    by (rule round_never_inverts(1) [OF assms(1) [unfolded that]])
  ultimately show ?thesis using round(3) by (simp add: after_round_def)
qed

lemma contradiction_surfaces_witness:
  "\<exists>detail pool'. corroborate_presence (\<lambda>s. s) ''x'' (example_addr 1)
     (\<lambda>p. if p = (2 :: nat) then Inr (Some ''y'') else Inl (PeerRejection [])) (\<lambda>_ p. p) voting_pool =
     (Inl (SourcesDisagree detail), pool') \<and>
   entries pool' = [voting_entry 1, voting_entry 2]"
proof -
  let ?read = "\<lambda>p. if p = (2 :: nat) then Inr (Some ''y'') else Inl (PeerRejection [])"
  obtain r pool' where
    r: "corroborate_presence (\<lambda>s. s) ''x'' (example_addr 1) ?read (\<lambda>_ p. p) voting_pool = (r, pool')"
    by (cases "corroborate_presence (\<lambda>s. s) ''x'' (example_addr 1) ?read (\<lambda>_ p. p) voting_pool")
  have vs: "select_corroborating_peers voting_pool (example_addr 1) =
      [(2, example_addr 2), (3, example_addr 3)]"
    using voting_voices(1) [of 0] by (simp add: voting_pool_def empty_pool_def)
  have es: "entries voting_pool = [voting_entry 1, voting_entry 2, voting_entry 3]"
    and ad: "pe_address (voting_entry w) = example_addr w" for w
    by (simp_all add: voting_pool_def voting_entry_def)
  have bad: "{(p, a). (p = 2 \<and> a = example_addr 2 \<or> p = 3 \<and> a = example_addr 3) \<and> is_err (?read p)} =
      {(3, example_addr 3)}"
    by auto
  show ?thesis
    using contradiction_surfaces [OF r] unfolding vs
    by (auto simp: r repeats_def es ad bad)
qed


section \<open>Properties of the set reads\<close>

lemma grade_sets_Corroborated:
  assumes "grade_sets d readiness addr first others projection = Inr (Corroborated items h)"
  shows "common_height (hs_as_of first # map (\<lambda>(_, s). hs_as_of s) others) (end_height projection) = Some h"
    and "items = project d (normalise_at d (hs_items first) h) projection"
    and "\<forall>(a, s) \<in> set others. same_set d h (fingerprint d (normalise_at d (hs_items first) h)) s"
    and "corroborated readiness (length others)"
proof -
  let ?as_of = "hs_as_of first # map (\<lambda>(_, s). hs_as_of s) others"
  obtain k where k: "common_height ?as_of (end_height projection) = Some k"
    using assms by (cases "common_height ?as_of (end_height projection)") (auto simp: grade_sets_def)
  let ?claim = "fingerprint d (normalise_at d (hs_items first) k)"
  let ?t = "tally_sets d k addr ?claim others (0, None)"
  have kh: "k = h" "items = project d (normalise_at d (hs_items first) k) projection"
    "snd ?t = None" "corroborated readiness (fst ?t)"
    using assms k by (auto simp: grade_sets_def Let_def split: prod.splits option.splits if_splits)
  have all: "\<forall>(a, s) \<in> set others. same_set d k ?claim s"
    using kh(3) by (simp add: tally_sets_disagreement fingerprint_inv)
  have "fst ?t = length (filter (\<lambda>(a, s). same_set d k ?claim s) others)"
    by (simp add: tally_sets_agreed fingerprint_inv)
  also have "filter (\<lambda>(a, s). same_set d k ?claim s) others = others"
    using all by (intro filter_True) auto
  finally have "fst ?t = length others" .
  then show "common_height ?as_of (end_height projection) = Some h"
    "items = project d (normalise_at d (hs_items first) h) projection"
    "\<forall>(a, s) \<in> set others. same_set d h (fingerprint d (normalise_at d (hs_items first) h)) s"
    "corroborated readiness (length others)"
    using k kh all by simp_all
qed

lemma answering_hosts:
  fixes read :: "'p \<Rightarrow> 'a query"
  shows "length (fst (split_answers (map (\<lambda>(p, a). (a, read p)) vs))) =
    length (filter (\<lambda>(p, a). \<not> is_err (read p)) vs)"
  by (induction vs) (auto simp: case_prod_beta split: sum.splits)

lemma read_set_Corroborated:
  fixes read :: "'p \<Rightarrow> 'a heighted_set query"
  assumes "read_set_corroborated dial now env d read projection pool = (Inr (Corroborated items h), pool')"
  obtains peer addr asked first where
    "pick dial now pool = (Inr (peer, addr), asked)" "read peer = Inr first"
    "items = project d (normalise_at d (hs_items first) h) projection"
    "unat h + 2 \<le> unat (hs_as_of first)"
    "\<And>p a s. (p, a) \<in> set (select_corroborating_peers (env 1 (env 0 asked)) addr) \<Longrightarrow> read p = Inr s \<Longrightarrow>
       same_set d h (fingerprint d (normalise_at d (hs_items first) h)) s \<and> unat h + 2 \<le> unat (hs_as_of s)"
    "\<And>e. end_height projection = Some e \<Longrightarrow> h \<le> e"
    "2 \<le> card (hosts_of {(p, a) \<in> set (select_corroborating_peers (env 1 (env 0 asked)) addr). \<not> is_err (read p)})"
proof -
  obtain peer addr asked first where pick: "pick dial now pool = (Inr (peer, addr), asked)"
    and first: "read peer = Inr first"
    and g: "grade_sets d (corroboration_readiness (env 0 asked) addr) addr first
      (fst (split_answers (map (\<lambda>(p, a). (a, read p)) (select_corroborating_peers (env 1 (env 0 asked)) addr))))
      projection = Inr (Corroborated items h)"
    using assms by (auto simp: read_set_corroborated_def Let_def split: prod.splits sum.splits)
  let ?vs = "select_corroborating_peers (env 1 (env 0 asked)) addr"
  let ?others = "fst (split_answers (map (\<lambda>(p, a). (a, read p)) ?vs))"
  note gs = grade_sets_Corroborated [OF g]
  note ch = common_height_Some [OF gs(1)]
  have mem: "(a, s) \<in> set ?others" if "(p, a) \<in> set ?vs" "read p = Inr s" for p a s
    using that unfolding split_answers_mem by force
  show ?thesis
  proof (rule that [OF pick first gs(2)])
    show "unat h + 2 \<le> unat (hs_as_of first)" using ch(1) by simp
    show "same_set d h (fingerprint d (normalise_at d (hs_items first) h)) s \<and> unat h + 2 \<le> unat (hs_as_of s)"
      if "(p, a) \<in> set ?vs" "read p = Inr s" for p a s
      using gs(3) ch(1) mem [OF that] by auto
    show "h \<le> e" if "end_height projection = Some e" for e using ch(2) that .
    have "2 \<le> length ?others"
      using gs(4) by (simp add: corroborated_def CORROBORATION_FLOOR_def)
    then show "2 \<le> card (hosts_of {(p, a) \<in> set ?vs. \<not> is_err (read p)})"
      by (simp only: answering_hosts agreeing_hosts)
  qed
qed

text \<open>C4: A corroborated set was attested by independent hosts. When a set read reports
  \<open>Corroborated items h\<close>, then \<open>items\<close> is the asked peer's answer held to height \<open>h\<close> and narrowed to
  what the caller asked for; at least two other discovered hosts answered; every voice that
  answered gave, at \<open>h\<close>, the same identities with the same claims; and \<open>h\<close> is at least two blocks
  below every answer's height and not above the caller's end height.\<close>

theorem corroborated_set_is_attested:
  fixes read :: "'p \<Rightarrow> 'a heighted_set query"
  assumes "read_set_corroborated dial now env d read projection pool = (Inr (Corroborated items h), pool')"
  shows "\<exists>peer addr asked first. pick dial now pool = (Inr (peer, addr), asked) \<and> read peer = Inr first \<and>
    items = project d (normalise_at d (hs_items first) h) projection \<and>
    unat h + 2 \<le> unat (hs_as_of first) \<and> (\<forall>e. end_height projection = Some e \<longrightarrow> h \<le> e) \<and>
    (let vs = set (select_corroborating_peers (env 1 (env 0 asked)) addr);
         answering = hosts_of {(p, a) \<in> vs. \<not> is_err (read p)}
     in 2 \<le> card answering \<and> ip addr \<notin> answering \<and>
        (\<forall>(p, a) \<in> vs. \<forall>s. read p = Inr s \<longrightarrow> unat h + 2 \<le> unat (hs_as_of s) \<and>
          fingerprint d (normalise_at d (hs_items s) h) = fingerprint d (normalise_at d (hs_items first) h)))"
  using assms
proof (rule read_set_Corroborated)
  fix peer addr asked first
  let ?vs = "set (select_corroborating_peers (env 1 (env 0 asked)) addr)"
  assume pick: "pick dial now pool = (Inr (peer, addr), asked)" "read peer = Inr first"
    and items: "items = project d (normalise_at d (hs_items first) h) projection"
      "unat h + 2 \<le> unat (hs_as_of first)"
    and all: "\<And>p a s. (p, a) \<in> ?vs \<Longrightarrow> read p = Inr s \<Longrightarrow>
      same_set d h (fingerprint d (normalise_at d (hs_items first) h)) s \<and> unat h + 2 \<le> unat (hs_as_of s)"
    and e: "\<And>e. end_height projection = Some e \<Longrightarrow> h \<le> e"
    and two: "2 \<le> card (hosts_of {(p, a) \<in> ?vs. \<not> is_err (read p)})"
  have "ip addr \<notin> hosts_of {(p, a) \<in> ?vs. \<not> is_err (read p)}"
    using asked_host_absent [of addr "env 1 (env 0 asked)"] by (auto simp: hosts_of_def)
  moreover have "\<forall>(p, a) \<in> ?vs. \<forall>s. read p = Inr s \<longrightarrow> unat h + 2 \<le> unat (hs_as_of s) \<and>
      fingerprint d (normalise_at d (hs_items s) h) = fingerprint d (normalise_at d (hs_items first) h)"
    using all by blast
  ultimately show ?thesis
    using pick items e two unfolding Let_def by blast
qed

definition example_reads :: "nat \<Rightarrow> coin_record heighted_set query" where
  "example_reads p =
     (if p = 3 then Inr \<lparr>hs_items = coins_at example_history 10, hs_as_of = 10\<rparr>
      else Inr \<lparr>hs_items = coins_at example_history 10, hs_as_of = 11\<rparr>)"

definition whole_history :: set_projection where
  "whole_history = \<lparr>start_height = None, end_height = None, include_spent = True\<rparr>"

lemma example_set_read:
  "read_set_corroborated (\<lambda>_. None) 0 (\<lambda>_ p. p) coin_record_member example_reads whole_history voting_pool =
     (Inr (Corroborated (coins_at example_history 8) 8), voting_pool\<lparr>next_idx := 1\<rparr>)"
proof -
  have ch: "common_height [11, 11, 10] None = Some 8"
    by (simp add: common_height_def checked_sub_def SETTLED_LAG_def min_def)
  have "coins_at (coins_at example_history 10) 8 = coins_at example_history 8"
    by (rule coins.normalise_down) simp
  moreover have "project coin_record_member (coins_at example_history 8) whole_history = coins_at example_history 8"
    by (simp add: project_def whole_history_def)
  moreover have "end_height whole_history = None" "start_height whole_history = None"
    by (simp_all add: whole_history_def)
  moreover have "tally_sets coin_record_member 8 (example_addr 1)
      (fingerprint coin_record_member (coins_at example_history 8))
      [(example_addr 2, \<lparr>hs_items = coins_at example_history 10, hs_as_of = 11\<rparr>),
       (example_addr 3, \<lparr>hs_items = coins_at example_history 10, hs_as_of = 10\<rparr>)] (0, None) = (2, None)"
    by (rule prod_eqI)
      (simp_all add: tally_sets_disagreement [OF fingerprint_inv] tally_sets_agreed [OF fingerprint_inv]
        calculation(1) del: tally_sets.simps)
  ultimately show ?thesis
    using ch
    by (simp add: read_set_corroborated_def voting_pick voting_voices example_reads_def grade_sets_def
        corroborated_def CORROBORATION_FLOOR_def eject_all_def Let_def
        del: tally_sets.simps)
qed

lemma example_reads_ok: "\<not> is_err (example_reads p)"
  by (simp add: example_reads_def)

lemma corroborated_set_witness:
  "read_set_corroborated (\<lambda>_. None) 0 (\<lambda>_ p. p) coin_record_member example_reads whole_history voting_pool =
     (Inr (Corroborated (coins_at example_history 8) 8), voting_pool\<lparr>next_idx := 1\<rparr>) \<and>
   2 \<le> card (hosts_of {(2 :: nat, example_addr 2), (3, example_addr 3)})"
  using corroborated_set_is_attested [OF example_set_read] example_set_read
  by (auto simp: voting_pick voting_voices Let_def example_reads_ok)


definition asked_for :: "set_projection \<Rightarrow> coin \<times> u32 \<times> u32 option \<Rightarrow> bool" where
  "asked_for q f = (case f of (c, created, spent_h) \<Rightarrow>
     (case start_height q of None \<Rightarrow> True | Some s \<Rightarrow> s \<le> created) \<and> (include_spent q \<or> spent_h = None))"

lemma project_facts:
  "chain_facts (project coin_record_member xs q) = {f \<in> chain_facts xs. asked_for q f}"
  by (cases "start_height q") (auto simp: chain_facts_def project_def asked_for_def chain_fact_def)



end
