(* ===== verification/Block.thy ===== *)
theory Block
  imports Translate
begin

text \<open>
  \<open>src/peer/block.rs\<close>: additions, removals and spends of a full block, and the reading of a
  puzzle's output conditions. The CLVM (\<open>clvmr\<close>, \<open>chia_consensus\<close>) is a parameter: a record
  \<open>clvm\<close> of the calls the file makes on it. What it documents of its list cursor is \<open>clvm_ok\<close>.
  Nothing bounds the cursor loops but the finiteness of the value they walk, so they are
  partial functions, and that they end is a theorem.
\<close>

section \<open>The CLVM as the file uses it\<close>

datatype 'n sexp = SAtom | SPair 'n 'n

record 'n spend_cond =
  sc_parent_id :: 'n
  sc_puzzle_hash :: 'n
  sc_coin_amount :: u64

text \<open>Errors carry their \<open>Debug\<close> text where the file renders it.\<close>

record 'n clvm =
  sexp_of :: "'n \<Rightarrow> 'n sexp"
  atom_of :: "'n \<Rightarrow> bytes"
  cl_next :: "'n \<Rightarrow> unit + ('n \<times> 'n) option"
  cl_first :: "'n \<Rightarrow> unit + 'n"
  cl_rest :: "'n \<Rightarrow> unit + 'n"
  node_to_bytes :: "'n \<Rightarrow> unit + bytes"
  cl_additions_and_removals ::
    "bytes \<Rightarrow> string + (proto_coin \<times> bytes option) list \<times> (bytes \<times> proto_coin) list"
  run_block_generator2 :: "bytes \<Rightarrow> string + 'n spend_cond list"
  node_from_bytes_backrefs :: "bytes \<Rightarrow> string + 'n"
  setup_generator_args :: "string + 'n"
  run_program :: "'n \<Rightarrow> 'n \<Rightarrow> string + 'n"
  puzzle_and_solution_for_coin :: "'n \<Rightarrow> proto_coin \<Rightarrow> unit + ('n \<times> 'n)"

record full_block =
  transactions_generator :: "bytes option"
  reward_claims_incorporated :: "proto_coin list option"
  fb_timestamp :: "u64 option"

section \<open>Reward coins and additions\<close>

definition block_timestamp :: "full_block \<Rightarrow> u64" where
  "block_timestamp b = (case fb_timestamp b of None \<Rightarrow> 0 | Some t \<Rightarrow> t)"

definition reward_coins :: "hex_codec \<Rightarrow> full_block \<Rightarrow> u32 \<Rightarrow> coin_record list" where
  "reward_coins hx b height =
     (case reward_claims_incorporated b of
        None \<Rightarrow> []
      | Some claims \<Rightarrow> map (\<lambda>c.
          \<lparr>cr_coin = from_protocol hx c, confirmed_block_index = height, spent_block_index = 0,
           spent = False, coinbase = True, cr_timestamp = block_timestamp b\<rparr>) claims)"

definition block_additions_and_removals ::
  "hex_codec \<Rightarrow> 'n clvm \<Rightarrow> full_block \<Rightarrow> u32 \<Rightarrow> additions_and_removals query" where
  "block_additions_and_removals hx cl b height =
     (case transactions_generator b of
        None \<Rightarrow> Inr \<lparr>additions = reward_coins hx b height, removals = []\<rparr>
      | Some gen \<Rightarrow>
          rbind (map_err (\<lambda>e. PeerConnection (''CLVM execution failed: '' @ e))
                  (cl_additions_and_removals cl gen)) (\<lambda>(adds, rems).
            Inr \<lparr>additions =
                   map (\<lambda>(c, _).
                     \<lparr>cr_coin = from_protocol hx c, confirmed_block_index = height,
                      spent_block_index = 0, spent = False, coinbase = False,
                      cr_timestamp = block_timestamp b\<rparr>) adds @ reward_coins hx b height,
                 removals =
                   map (\<lambda>(_, c).
                     \<lparr>cr_coin = from_protocol hx c, confirmed_block_index = 0,
                      spent_block_index = height, spent = True, coinbase = False,
                      cr_timestamp = 0\<rparr>) rems\<rparr>))"

section \<open>Conditions\<close>

text \<open>The inner loop: the argument list, each argument in hex; a pair whose serialisation fails is
  skipped.\<close>

partial_function (option) parse_args ::
  "hex_codec \<Rightarrow> 'n clvm \<Rightarrow> 'n \<Rightarrow> string list \<Rightarrow> string list option" where
  "parse_args hx cl it vs =
     (case cl_next cl it of
        Inl e \<Rightarrow> Some vs
      | Inr nxt \<Rightarrow>
          (case nxt of
             None \<Rightarrow> Some vs
           | Some p \<Rightarrow>
               (case sexp_of cl (fst p) of
                  SAtom \<Rightarrow> parse_args hx cl (snd p) (vs @ [''0x'' @ hex_encode hx (atom_of cl (fst p))])
                | SPair x y \<Rightarrow>
                    (case node_to_bytes cl (fst p) of
                       Inl e \<Rightarrow> parse_args hx cl (snd p) vs
                     | Inr b \<Rightarrow> parse_args hx cl (snd p) (vs @ [''0x'' @ hex_encode hx b])))))"

text \<open>One condition: \<open>Some None\<close> is the \<open>continue\<close>, \<open>None\<close> a loop that does not end.\<close>

definition parse_condition :: "hex_codec \<Rightarrow> 'n clvm \<Rightarrow> 'n \<Rightarrow> condition option option" where
  "parse_condition hx cl c =
     (case cl_first cl c of
        Inl e \<Rightarrow> Some None
      | Inr op_node \<Rightarrow>
          (case sexp_of cl op_node of
             SPair x y \<Rightarrow> Some None
           | SAtom \<Rightarrow>
               (case cl_rest cl c of
                  Inl e \<Rightarrow> Some None
                | Inr args \<Rightarrow>
                    map_option (\<lambda>vs. Some
                      \<lparr>opcode = JString (''0x'' @ hex_encode hx (atom_of cl op_node)), vars = vs\<rparr>)
                      (parse_args hx cl args []))))"

partial_function (option) parse_conditions_from ::
  "hex_codec \<Rightarrow> 'n clvm \<Rightarrow> 'n \<Rightarrow> condition list \<Rightarrow> condition list option" where
  "parse_conditions_from hx cl output cs =
     (case cl_next cl output of
        Inl e \<Rightarrow> Some cs
      | Inr nxt \<Rightarrow>
          (case nxt of
             None \<Rightarrow> Some cs
           | Some p \<Rightarrow>
               (case parse_condition hx cl (fst p) of
                  None \<Rightarrow> None
                | Some r \<Rightarrow>
                    parse_conditions_from hx cl (snd p) (case r of None \<Rightarrow> cs | Some c \<Rightarrow> cs @ [c]))))"

definition parse_conditions_public ::
  "hex_codec \<Rightarrow> 'n clvm \<Rightarrow> 'n \<Rightarrow> condition list option" where
  "parse_conditions_public hx cl output = parse_conditions_from hx cl output []"

section \<open>Spends\<close>

text \<open>The coin of a spend condition. \<open>try_into().unwrap()\<close> panics unless both atoms are 32 bytes.\<close>

definition removal_of :: "'n clvm \<Rightarrow> 'n spend_cond \<Rightarrow> proto_coin option" where
  "removal_of cl sc =
     (let parent = atom_of cl (sc_parent_id sc); ph = atom_of cl (sc_puzzle_hash sc)
      in if length parent = 32 \<and> length ph = 32
         then Some \<lparr>pc_parent_coin_info = parent, pc_puzzle_hash = ph, pc_amount = sc_coin_amount sc\<rparr>
         else None)"

definition unwrap_or_default :: "unit + bytes \<Rightarrow> bytes" where
  "unwrap_or_default r = (case r of Inl _ \<Rightarrow> [] | Inr b \<Rightarrow> b)"

text \<open>The shared opening of both readers: the spend conditions and the generator's output.\<close>

definition generator_output ::
  "'n clvm \<Rightarrow> bytes \<Rightarrow> ('n spend_cond list \<times> 'n) query" where
  "generator_output cl gen =
     rbind (map_err (\<lambda>e. PeerConnection (''run_block_generator2 failed: '' @ e))
             (run_block_generator2 cl gen)) (\<lambda>conds.
     rbind (map_err (\<lambda>e. PeerConnection (''parse generator: '' @ e))
             (node_from_bytes_backrefs cl gen)) (\<lambda>program.
     rbind (map_err (\<lambda>e. PeerConnection (''setup args: '' @ e)) (setup_generator_args cl)) (\<lambda>args.
     rbind (map_err (\<lambda>e. PeerConnection (''run_program: '' @ e)) (run_program cl program args)) (\<lambda>out.
       Inr (conds, out)))))"

definition spend_of :: "hex_codec \<Rightarrow> 'n clvm \<Rightarrow> proto_coin \<Rightarrow> 'n \<Rightarrow> 'n \<Rightarrow> coin_spend" where
  "spend_of hx cl c puzzle sol =
     \<lparr>cs_coin = from_protocol hx c,
      puzzle_reveal = ''0x'' @ hex_encode hx (unwrap_or_default (node_to_bytes cl puzzle)),
      solution = ''0x'' @ hex_encode hx (unwrap_or_default (node_to_bytes cl sol))\<rparr>"

fun collect_spends ::
  "hex_codec \<Rightarrow> 'n clvm \<Rightarrow> 'n \<Rightarrow> 'n spend_cond list \<Rightarrow> coin_spend list option" where
  "collect_spends hx cl out [] = Some []"
| "collect_spends hx cl out (sc # scs) =
     (case removal_of cl sc of
        None \<Rightarrow> None
      | Some c \<Rightarrow>
          map_option
            (\<lambda>rest. case puzzle_and_solution_for_coin cl out c of
               Inr (p, s) \<Rightarrow> spend_of hx cl c p s # rest
             | Inl _ \<Rightarrow> rest)
            (collect_spends hx cl out scs))"

text \<open>\<open>None\<close> is the panic of \<open>removal_of\<close>.\<close>

definition block_spends :: "hex_codec \<Rightarrow> 'n clvm \<Rightarrow> full_block \<Rightarrow> coin_spend list query option" where
  "block_spends hx cl b =
     (case transactions_generator b of
        None \<Rightarrow> Some (Inr [])
      | Some gen \<Rightarrow>
          (case generator_output cl gen of
             Inl e \<Rightarrow> Some (Inl e)
           | Inr (conds, out) \<Rightarrow> map_option Inr (collect_spends hx cl out conds)))"

definition spend_conditions :: "hex_codec \<Rightarrow> 'n clvm \<Rightarrow> 'n \<Rightarrow> 'n \<Rightarrow> condition list option" where
  "spend_conditions hx cl puzzle sol =
     (case run_program cl puzzle sol of
        Inr output \<Rightarrow> parse_conditions_public hx cl output
      | Inl _ \<Rightarrow> Some [])"

fun collect_spends_with_conditions ::
  "hex_codec \<Rightarrow> 'n clvm \<Rightarrow> 'n \<Rightarrow> 'n spend_cond list \<Rightarrow> coin_spend_with_conditions list option" where
  "collect_spends_with_conditions hx cl out [] = Some []"
| "collect_spends_with_conditions hx cl out (sc # scs) =
     (case removal_of cl sc of
        None \<Rightarrow> None
      | Some c \<Rightarrow>
          (case puzzle_and_solution_for_coin cl out c of
             Inl _ \<Rightarrow> collect_spends_with_conditions hx cl out scs
           | Inr (p, s) \<Rightarrow>
               (case spend_conditions hx cl p s of
                  None \<Rightarrow> None
                | Some conds \<Rightarrow>
                    map_option (\<lambda>rest. \<lparr>cond_spend = spend_of hx cl c p s, conditions = conds\<rparr> # rest)
                      (collect_spends_with_conditions hx cl out scs))))"

definition block_spends_with_conditions ::
  "hex_codec \<Rightarrow> 'n clvm \<Rightarrow> full_block \<Rightarrow> coin_spend_with_conditions list query option" where
  "block_spends_with_conditions hx cl b =
     (case transactions_generator b of
        None \<Rightarrow> Some (Inr [])
      | Some gen \<Rightarrow>
          (case generator_output cl gen of
             Inl e \<Rightarrow> Some (Inl e)
           | Inr (conds, out) \<Rightarrow> map_option Inr (collect_spends_with_conditions hx cl out conds)))"

section \<open>What the CLVM documents\<close>

text \<open>A CLVM value is a binary tree of byte strings. The cursor \<open>next\<close> takes a pair apart, stops
  at the empty atom and fails at any other; \<open>ser\<close> is the serialisation, which may refuse.\<close>

datatype ctree = CAtom bytes | CPair ctree ctree

definition clvm_ok :: "'n clvm \<Rightarrow> ('n \<Rightarrow> ctree) \<Rightarrow> (ctree \<Rightarrow> unit + bytes) \<Rightarrow> bool" where
  "clvm_ok cl tr ser \<longleftrightarrow>
     (\<forall>n. node_to_bytes cl n = ser (tr n) \<and>
       (case tr n of
          CAtom b \<Rightarrow> sexp_of cl n = SAtom \<and> atom_of cl n = b \<and> cl_first cl n = Inl () \<and>
            cl_rest cl n = Inl () \<and> cl_next cl n = (if b = [] then Inr None else Inl ())
        | CPair l r \<Rightarrow> \<exists>x y. tr x = l \<and> tr y = r \<and> sexp_of cl n = SPair x y \<and>
            cl_first cl n = Inr x \<and> cl_rest cl n = Inr y \<and> cl_next cl n = Inr (Some (x, y))))"

section \<open>The reference: conditions of a tree\<close>

text \<open>The elements of a list, improper or not, and what each becomes.\<close>

fun elems :: "ctree \<Rightarrow> ctree list" where
  "elems (CAtom _) = []"
| "elems (CPair l r) = l # elems r"

definition arg_text :: "hex_codec \<Rightarrow> (ctree \<Rightarrow> unit + bytes) \<Rightarrow> ctree \<Rightarrow> string option" where
  "arg_text hx ser t =
     (case t of
        CAtom b \<Rightarrow> Some (''0x'' @ hex_encode hx b)
      | CPair _ _ \<Rightarrow> (case ser t of Inl _ \<Rightarrow> None | Inr b \<Rightarrow> Some (''0x'' @ hex_encode hx b)))"

fun condition_of :: "hex_codec \<Rightarrow> (ctree \<Rightarrow> unit + bytes) \<Rightarrow> ctree \<Rightarrow> condition option" where
  "condition_of hx ser (CPair (CAtom op) args) =
     Some \<lparr>opcode = JString (''0x'' @ hex_encode hx op),
           vars = List.map_filter (arg_text hx ser) (elems args)\<rparr>"
| "condition_of hx ser _ = None"

definition conditions_of :: "hex_codec \<Rightarrow> (ctree \<Rightarrow> unit + bytes) \<Rightarrow> ctree \<Rightarrow> condition list" where
  "conditions_of hx ser t = List.map_filter (condition_of hx ser) (elems t)"

lemma clvm_atom:
  assumes "clvm_ok cl tr ser" "tr n = CAtom b"
  shows "sexp_of cl n = SAtom" "atom_of cl n = b" "cl_first cl n = Inl ()"
    "cl_next cl n = (if b = [] then Inr None else Inl ())"
proof -
  have "case tr n of
          CAtom b \<Rightarrow> sexp_of cl n = SAtom \<and> atom_of cl n = b \<and> cl_first cl n = Inl () \<and>
            cl_rest cl n = Inl () \<and> cl_next cl n = (if b = [] then Inr None else Inl ())
        | CPair l r \<Rightarrow> \<exists>x y. tr x = l \<and> tr y = r \<and> sexp_of cl n = SPair x y \<and>
            cl_first cl n = Inr x \<and> cl_rest cl n = Inr y \<and> cl_next cl n = Inr (Some (x, y))"
    using assms(1) unfolding clvm_ok_def by blast
  then show "sexp_of cl n = SAtom" "atom_of cl n = b" "cl_first cl n = Inl ()"
    "cl_next cl n = (if b = [] then Inr None else Inl ())"
    unfolding assms(2) by simp_all
qed

lemma clvm_pair:
  assumes "clvm_ok cl tr ser" "tr n = CPair l r"
  obtains x y where "tr x = l" "tr y = r" "sexp_of cl n = SPair x y" "cl_first cl n = Inr x"
    "cl_rest cl n = Inr y" "cl_next cl n = Inr (Some (x, y))"
proof -
  have "case tr n of
          CAtom b \<Rightarrow> sexp_of cl n = SAtom \<and> atom_of cl n = b \<and> cl_first cl n = Inl () \<and>
            cl_rest cl n = Inl () \<and> cl_next cl n = (if b = [] then Inr None else Inl ())
        | CPair l r \<Rightarrow> \<exists>x y. tr x = l \<and> tr y = r \<and> sexp_of cl n = SPair x y \<and>
            cl_first cl n = Inr x \<and> cl_rest cl n = Inr y \<and> cl_next cl n = Inr (Some (x, y))"
    using assms(1) unfolding clvm_ok_def by blast
  then show ?thesis unfolding assms(2) using that by auto
qed

lemma clvm_bytes: "clvm_ok cl tr ser \<Longrightarrow> node_to_bytes cl n = ser (tr n)"
  by (simp add: clvm_ok_def)

lemma map_filter_Cons:
  "List.map_filter f (x # xs) = (case f x of None \<Rightarrow> [] | Some y \<Rightarrow> [y]) @ List.map_filter f xs"
  by (simp split: option.split)

lemma parse_args_eq:
  assumes ok: "clvm_ok cl tr ser"
  shows "parse_args hx cl it vs = Some (vs @ List.map_filter (arg_text hx ser) (elems (tr it)))"
proof (induction "tr it" arbitrary: it vs)
  case (CAtom b)
  from CAtom [symmetric] have "cl_next cl it = (if b = [] then Inr None else Inl ())"
    by (rule clvm_atom(4) [OF ok])
  then show ?case
    using CAtom by (subst parse_args.simps) (simp add: CAtom [symmetric])
next
  case (CPair l r)
  obtain x y where n: "tr x = l" "tr y = r" "cl_next cl it = Inr (Some (x, y))"
    using clvm_pair [OF ok CPair(3) [symmetric]] by blast
  note IH = CPair(2) [OF n(2) [symmetric]]
  show ?case
  proof (cases l)
    case (CAtom b)
    note a = clvm_atom [OF ok, of x b]
    show ?thesis
      using n a CAtom IH CPair(3) [symmetric]
      by (subst parse_args.simps) (simp add: map_filter_Cons arg_text_def)
  next
    case (CPair u v)
    obtain p q where s: "sexp_of cl x = SPair p q"
      using clvm_pair [OF ok, of x u v] n(1) CPair by metis
    show ?thesis
      using n s CPair IH CPair.hyps(3) [symmetric] clvm_bytes [OF ok, of x]
      by (subst parse_args.simps) (simp add: map_filter_Cons arg_text_def split: sum.split)
  qed
qed

lemma parse_condition_eq:
  assumes ok: "clvm_ok cl tr ser"
  shows "parse_condition hx cl c = Some (condition_of hx ser (tr c))"
proof (cases "tr c")
  case (CAtom b)
  then show ?thesis using clvm_atom(3) [OF ok CAtom] by (simp add: parse_condition_def)
next
  case (CPair l r)
  obtain x y where n: "tr x = l" "tr y = r" "cl_first cl c = Inr x" "cl_rest cl c = Inr y"
    using clvm_pair [OF ok CPair] by blast
  show ?thesis
  proof (cases l)
    case (CAtom b)
    then show ?thesis
      using n CPair clvm_atom(1,2) [OF ok, of x b]
      by (simp add: parse_condition_def parse_args_eq [OF ok])
  next
    case (CPair u v)
    obtain p q where "sexp_of cl x = SPair p q"
      using clvm_pair [OF ok, of x u v] n(1) CPair by metis
    then show ?thesis
      using n CPair \<open>tr c = CPair l r\<close> by (simp add: parse_condition_def)
  qed
qed

lemma parse_conditions_from_eq:
  assumes ok: "clvm_ok cl tr ser"
  shows "parse_conditions_from hx cl nd cs = Some (cs @ conditions_of hx ser (tr nd))"
proof (induction "tr nd" arbitrary: nd cs)
  case (CAtom b)
  from CAtom [symmetric] have "cl_next cl nd = (if b = [] then Inr None else Inl ())"
    by (rule clvm_atom(4) [OF ok])
  then show ?case
    by (subst parse_conditions_from.simps) (simp add: CAtom [symmetric] conditions_of_def)
next
  case (CPair l r)
  obtain x y where n: "tr x = l" "tr y = r" "cl_next cl nd = Inr (Some (x, y))"
    using clvm_pair [OF ok CPair(3) [symmetric]] by blast
  show ?case
    using n CPair(2) [OF n(2) [symmetric]] CPair(3) [symmetric]
    by (subst parse_conditions_from.simps)
      (simp add: parse_condition_eq [OF ok] conditions_of_def map_filter_Cons split: option.split)
qed

text \<open>C23: Reading conditions always ends and is exact. On a CLVM that behaves as documented, the
  two nested cursor loops return for every nd, and what they return is one condition for each
  element of the nd list whose head is an atom, in order, with the hex of every argument that
  can be serialised - nothing more, whatever the puzzle produced.\<close>

theorem conditions_are_exact:
  assumes "clvm_ok cl tr ser"
  shows "parse_conditions_public hx cl nd = Some (conditions_of hx ser (tr nd))"
  by (simp add: parse_conditions_public_def parse_conditions_from_eq [OF assms])

definition tree_clvm :: "(ctree \<Rightarrow> unit + bytes) \<Rightarrow> ctree clvm" where
  "tree_clvm ser =
     \<lparr>sexp_of = (\<lambda>t. case t of CAtom _ \<Rightarrow> SAtom | CPair l r \<Rightarrow> SPair l r),
      atom_of = (\<lambda>t. case t of CAtom b \<Rightarrow> b | CPair _ _ \<Rightarrow> []),
      cl_next = (\<lambda>t. case t of CAtom b \<Rightarrow> if b = [] then Inr None else Inl () | CPair l r \<Rightarrow> Inr (Some (l, r))),
      cl_first = (\<lambda>t. case t of CAtom _ \<Rightarrow> Inl () | CPair l _ \<Rightarrow> Inr l),
      cl_rest = (\<lambda>t. case t of CAtom _ \<Rightarrow> Inl () | CPair _ r \<Rightarrow> Inr r),
      node_to_bytes = ser,
      cl_additions_and_removals = (\<lambda>_. Inl []), run_block_generator2 = (\<lambda>_. Inl []),
      node_from_bytes_backrefs = (\<lambda>_. Inl []), setup_generator_args = Inl [],
      run_program = (\<lambda>_ _. Inl []), puzzle_and_solution_for_coin = (\<lambda>_ _. Inl ())\<rparr>"

lemma tree_clvm_ok: "clvm_ok (tree_clvm ser) (\<lambda>t. t) ser"
  by (simp add: clvm_ok_def tree_clvm_def split: ctree.split)

lemma conditions_witness:
  "parse_conditions_public example_codec (tree_clvm (\<lambda>_. Inl ()))
     (CPair (CPair (CAtom [51]) (CPair (CAtom [1]) (CPair (CPair (CAtom []) (CAtom [])) (CAtom []))))
       (CPair (CAtom [7]) (CAtom [9]))) =
   Some [\<lparr>opcode = JString (''0x'' @ hex_encode example_codec [51]),
          vars = [''0x'' @ hex_encode example_codec [1]]\<rparr>]"
  unfolding conditions_are_exact [OF tree_clvm_ok]
  by (simp add: conditions_of_def map_filter_Cons arg_text_def)

end
