(* ===== verification/Mempool_Refusal.thy ===== *)
theory Mempool_Refusal
  imports Types
begin

text \<open>
  \<open>src/mempool_refusal.rs\<close>: which refusals of a pushed bundle are facts about the bundle.
  The allowlist is matched exactly, after trimming, ignoring ASCII case; a verdict is final
  when it is an admission or such a refusal.
\<close>

definition bundle_intrinsic_refusals :: "string list" where
  "bundle_intrinsic_refusals =
     [''BAD_AGGREGATE_SIGNATURE'', ''COIN_AMOUNT_NEGATIVE'', ''COIN_AMOUNT_EXCEEDS_MAXIMUM'',
      ''DUPLICATE_OUTPUT'', ''MINTING_COIN'', ''RESERVE_FEE_CONDITION_FAILED'',
      ''WRONG_PUZZLE_HASH'', ''ASSERT_MY_COIN_ID_FAILED'', ''ASSERT_MY_PARENT_ID_FAILED'',
      ''ASSERT_MY_PUZZLEHASH_FAILED'', ''ASSERT_MY_AMOUNT_FAILED'']"

definition is_bundle_intrinsic_refusal :: "string \<Rightarrow> bool" where
  "is_bundle_intrinsic_refusal reason =
     list_ex (\<lambda>intrinsic. eq_ignore_ascii_case (trim reason) intrinsic) bundle_intrinsic_refusals"

definition is_final :: "tx_status \<Rightarrow> bool" where
  "is_final status \<longleftrightarrow>
     is_admitted (tx_inclusion status) \<or>
     (case tx_error status of None \<Rightarrow> False | Some e \<Rightarrow> is_bundle_intrinsic_refusal e)"

text \<open>\<open>ack_to_tx_status\<close> (\<open>src/peer/translate.rs\<close>): a full node's ack byte as a verdict.\<close>

definition ack_label :: "u8 \<Rightarrow> string \<times> mempool_inclusion" where
  "ack_label status =
     (if status = 1 then (''SUCCESS'', Admitted)
      else if status = 2 then (''PENDING'', NotAdmitted)
      else if status = 3 then (''FAILED'', Failed)
      else (''UNKNOWN'', Unknown))"

definition ack_to_tx_status :: "u8 \<Rightarrow> string option \<Rightarrow> tx_status" where
  "ack_to_tx_status status err =
     (let (label, inclusion) = ack_label status
      in \<lparr>tx_label = label, tx_success = is_admitted inclusion, tx_inclusion = inclusion,
          tx_error = err\<rparr>)"

section \<open>The allowlist is matched exactly\<close>

lemma trim_trim [simp]: "trim (trim s) = trim s"
proof -
  let ?t = "trim s"
  have lead: "dropWhile is_whitespace ?t = ?t"
    by (cases ?t) (auto dest: trim_no_lead)
  have "dropWhile is_whitespace (rev ?t) = rev ?t"
    by (simp add: trim_def)
  with lead show ?thesis unfolding trim_def [of ?t] trim_start_def by simp
qed

lemma trim_length: "length (trim s) \<le> length s"
  using length_dropWhile_le [of is_whitespace "rev (dropWhile is_whitespace s)"]
    length_dropWhile_le [of is_whitespace s]
  by (simp add: trim_def trim_start_def)

lemma eq_ignore_ascii_case_length: "eq_ignore_ascii_case s t \<Longrightarrow> length s = length t"
  unfolding eq_ignore_ascii_case_def to_ascii_lowercase_def by (metis length_map)

lemma intrinsic_iff:
  "is_bundle_intrinsic_refusal reason \<longleftrightarrow>
     to_ascii_lowercase (trim reason) \<in> to_ascii_lowercase ` set bundle_intrinsic_refusals"
  by (auto simp: is_bundle_intrinsic_refusal_def eq_ignore_ascii_case_def list_ex_iff)

lemma is_final_ack:
  "is_final (ack_to_tx_status status err) \<longleftrightarrow>
     status = 1 \<or> (\<exists>e. err = Some e \<and> is_bundle_intrinsic_refusal e)"
  by (auto simp: is_final_def ack_to_tx_status_def ack_label_def is_admitted_def split: option.splits)

text \<open>A listed name with anything but white space around it is not listed: a reason longer than
  every listed name is view-dependent, whatever it contains.\<close>

lemma intrinsic_length:
  "is_bundle_intrinsic_refusal reason \<Longrightarrow> length (trim reason) \<le> 28"
proof -
  assume "is_bundle_intrinsic_refusal reason"
  then obtain n where "n \<in> set bundle_intrinsic_refusals" "eq_ignore_ascii_case (trim reason) n"
    by (auto simp: is_bundle_intrinsic_refusal_def list_ex_iff)
  then have "length (trim reason) = length n" by (simp add: eq_ignore_ascii_case_length)
  moreover have "\<forall>n \<in> set bundle_intrinsic_refusals. length n \<le> 28"
    by (simp add: bundle_intrinsic_refusals_def)
  ultimately show ?thesis using \<open>n \<in> set bundle_intrinsic_refusals\<close> by simp
qed

text \<open>The reasons that depend on who was asked are not in the list.\<close>

definition view_dependent_names :: "string list" where
  "view_dependent_names =
     [''DOUBLE_SPEND'', ''MEMPOOL_CONFLICT'', ''ALREADY_INCLUDING_TRANSACTION'',
      ''UNKNOWN_UNSPENT'', ''INVALID_FEE_LOW_FEE'', ''INVALID_FEE_TOO_CLOSE_TO_ZERO'',
      ''TOO_MANY_ANNOUNCEMENTS'', ''GENERATOR_RUNTIME_ERROR'', ''BLOCK_COST_EXCEEDS_MAX'',
      ''INVALID_BLOCK_COST'', ''INVALID_SPEND_BUNDLE'']"

lemma lowercase_refusals:
  "to_ascii_lowercase ` set bundle_intrinsic_refusals = set
     [''bad_aggregate_signature'', ''coin_amount_negative'', ''coin_amount_exceeds_maximum'',
      ''duplicate_output'', ''minting_coin'', ''reserve_fee_condition_failed'',
      ''wrong_puzzle_hash'', ''assert_my_coin_id_failed'', ''assert_my_parent_id_failed'',
      ''assert_my_puzzlehash_failed'', ''assert_my_amount_failed'']"
  by (simp add: bundle_intrinsic_refusals_def string_eval)

lemma view_dependent_lowercase:
  "map (\<lambda>n. to_ascii_lowercase (trim n)) view_dependent_names =
     [''double_spend'', ''mempool_conflict'', ''already_including_transaction'',
      ''unknown_unspent'', ''invalid_fee_low_fee'', ''invalid_fee_too_close_to_zero'',
      ''too_many_announcements'', ''generator_runtime_error'', ''block_cost_exceeds_max'',
      ''invalid_block_cost'', ''invalid_spend_bundle'']"
  by (simp add: view_dependent_names_def string_eval)

lemma view_dependent_not_intrinsic:
  assumes "n \<in> set view_dependent_names"
  shows "\<not> is_bundle_intrinsic_refusal n"
proof -
  have "to_ascii_lowercase (trim n) \<in> set (map (\<lambda>n. to_ascii_lowercase (trim n)) view_dependent_names)"
    using assms by simp
  then show ?thesis
    by (simp only: view_dependent_lowercase intrinsic_iff lowercase_refusals) auto
qed

section \<open>Properties\<close>

text \<open>A pushed bundle's verdict is final exactly when the ack byte was 1 (admitted) or the
  stated reason, trimmed and compared without case, is one of the eleven bundle-intrinsic names;
  none of the view-dependent names is one of those, and success is reported for byte 1 alone.\<close>

theorem verdict_final_iff:
  "(is_final (ack_to_tx_status status err) \<longleftrightarrow>
     status = 1 \<or> (\<exists>e n. err = Some e \<and> n \<in> set bundle_intrinsic_refusals \<and>
       to_ascii_lowercase (trim e) = to_ascii_lowercase n)) \<and>
   (tx_success (ack_to_tx_status status err) \<longleftrightarrow> status = 1) \<and>
   set view_dependent_names \<inter> {n. is_bundle_intrinsic_refusal n} = {} \<and>
   is_bundle_intrinsic_refusal (trim reason) = is_bundle_intrinsic_refusal reason"
proof (intro conjI)
  show "is_final (ack_to_tx_status status err) \<longleftrightarrow>
     status = 1 \<or> (\<exists>e n. err = Some e \<and> n \<in> set bundle_intrinsic_refusals \<and>
       to_ascii_lowercase (trim e) = to_ascii_lowercase n)"
    unfolding is_final_ack intrinsic_iff by blast
  show "tx_success (ack_to_tx_status status err) \<longleftrightarrow> status = 1"
    by (simp add: ack_to_tx_status_def ack_label_def is_admitted_def)
  show "set view_dependent_names \<inter> {n. is_bundle_intrinsic_refusal n} = {}"
    using view_dependent_not_intrinsic by blast
  show "is_bundle_intrinsic_refusal (trim reason) = is_bundle_intrinsic_refusal reason"
    by (simp add: intrinsic_iff)
qed

end
