(* ===== verification/Peer_Requests.thy ===== *)
theory Peer_Requests
  imports Corroboration Block Mempool_Refusal
begin

text \<open>
  The requests of \<open>src/peer/mod.rs\<close>: each \<open>do_*\<close> asks one peer one question over the wire and
  judges the reply; each \<open>try_*\<close> picks the peer, or runs a corroboration round over the read.
  The wire (\<open>chia_wallet_sdk\<close>'s \<open>Peer\<close>, under \<open>tokio\<close>'s timeout) is a parameter: what each
  request comes back with.
\<close>

section \<open>The wire\<close>

datatype 'a reply = TimedOut | ClientError string | Rejected | Reply 'a

record puzzle_state_page =
  ps_coin_states :: "coin_state list"
  ps_height :: u32
  ps_header_hash :: bytes
  ps_is_finished :: bool

record puzzle_solution_response =
  psr_coin_name :: bytes
  psr_puzzle :: bytes
  psr_solution :: bytes

record coin_state_filters =
  f_include_spent :: bool
  f_include_unspent :: bool
  f_include_hinted :: bool
  f_min_amount :: u64

record proto_coin_spend =
  pcs_coin :: proto_coin
  pcs_puzzle_reveal :: bytes
  pcs_solution :: bytes

record proto_bundle =
  pb_coin_spends :: "proto_coin_spend list"
  pb_aggregated_signature :: bytes

text \<open>\<open>w_puzzle_state w p n\<close>: what the peer answers to the \<open>n\<close>-th page request of a walk; it may
  answer one request differently at different times. The constants are the network's.\<close>

record 'p wire =
  w_addr :: "'p \<Rightarrow> socket_addr"
  w_coin_state :: "'p \<Rightarrow> bytes list \<Rightarrow> u32 option \<Rightarrow> bytes \<Rightarrow> bool \<Rightarrow> coin_state list reply"
  w_puzzle_state :: "'p \<Rightarrow> nat \<Rightarrow> bytes list \<Rightarrow> u32 option \<Rightarrow> bytes \<Rightarrow> coin_state_filters \<Rightarrow>
    puzzle_state_page reply"
  w_puzzle_and_solution :: "'p \<Rightarrow> bytes \<Rightarrow> u32 \<Rightarrow> puzzle_solution_response reply"
  w_children :: "'p \<Rightarrow> bytes \<Rightarrow> coin_state list reply"
  w_block_header :: "'p \<Rightarrow> u32 \<Rightarrow> header_block reply"
  w_block :: "'p \<Rightarrow> u32 \<Rightarrow> full_block reply"
  w_additions :: "'p \<Rightarrow> u32 \<Rightarrow> bytes \<Rightarrow> (bytes \<times> proto_coin list) list reply"
  w_removals :: "'p \<Rightarrow> u32 \<Rightarrow> bytes \<Rightarrow> (bytes \<times> proto_coin option) list reply"
  w_fee_estimates :: "'p \<Rightarrow> u64 list \<Rightarrow> u64 list reply"
  w_send_transaction :: "'p \<Rightarrow> proto_bundle \<Rightarrow> (u8 \<times> string option) reply"
  genesis_challenge :: bytes
  agg_sig_me_additional_data :: bytes
  w_network :: network_type
  tree_hash_from_bytes :: "bytes \<Rightarrow> string + bytes"
  bls_signature :: "bytes \<Rightarrow> string + bytes"
  u64_to_f64 :: "u64 \<Rightarrow> f64_bits"

text \<open>\<open>fallible\<close>: the three \<open>map_err\<close>s every request ends in. \<open>rejectable\<close>: those of a request
  whose rejection is an answer. \<open>infallible\<close>: those of a request that cannot be rejected.\<close>

fun fallible :: "string \<Rightarrow> string \<Rightarrow> 'a reply \<Rightarrow> 'a query" where
  "fallible late no TimedOut = Inl (PeerConnection late)"
| "fallible late no (ClientError e) = Inl (PeerConnection e)"
| "fallible late no Rejected = Inl (PeerRejection no)"
| "fallible late no (Reply x) = Inr x"

fun rejectable :: "'a reply \<Rightarrow> 'a option query" where
  "rejectable TimedOut = Inl (PeerConnection ''request timed out'')"
| "rejectable (ClientError e) = Inl (PeerConnection e)"
| "rejectable Rejected = Inr None"
| "rejectable (Reply x) = Inr (Some x)"

text \<open>The body of an infallible request that does not decode is a client error.\<close>

fun infallible :: "'a reply \<Rightarrow> 'a query" where
  "infallible TimedOut = Inl (PeerConnection ''request timed out'')"
| "infallible (ClientError e) = Inl (PeerConnection e)"
| "infallible Rejected = Inl (PeerConnection [])"
| "infallible (Reply x) = Inr x"

definition first_of :: "'a list \<Rightarrow> 'a option" where
  "first_of xs = (case xs of [] \<Rightarrow> None | x # _ \<Rightarrow> Some x)"

definition request_coin_state ::
  "'p wire \<Rightarrow> string \<Rightarrow> 'p \<Rightarrow> bytes list \<Rightarrow> coin_state list query" where
  "request_coin_state w no p ids =
     fallible ''request timed out'' no (w_coin_state w p ids None (genesis_challenge w) False)"

section \<open>Coin records\<close>

definition do_get_coin_record_by_name_opt ::
  "hex_codec \<Rightarrow> 'p wire \<Rightarrow> string \<Rightarrow> 'p \<Rightarrow> coin_record option query" where
  "do_get_coin_record_by_name_opt hx w name p =
     rbind (parse_bytes32 hx name) (\<lambda>coin_id.
     rbind (request_coin_state w ''coin state request rejected'' p [coin_id]) (\<lambda>states.
       Inr (map_option (coin_state_to_record hx) (first_of states))))"

definition do_get_coin_record_by_name ::
  "hex_codec \<Rightarrow> 'p wire \<Rightarrow> string \<Rightarrow> 'p \<Rightarrow> coin_record query" where
  "do_get_coin_record_by_name hx w name p =
     rbind (parse_bytes32 hx name) (\<lambda>coin_id.
     rbind (request_coin_state w ''coin state request rejected'' p [coin_id]) (\<lambda>states.
       ok_or (PeerRejection ''coin not found'')
         (map_option (coin_state_to_record hx) (first_of states))))"

definition do_coin_ids_query ::
  "hex_codec \<Rightarrow> 'p wire \<Rightarrow> string list \<Rightarrow> 'p \<Rightarrow> coin_record list query" where
  "do_coin_ids_query hx w names p =
     rbind (collect_results (parse_bytes32 hx) names) (\<lambda>ids.
     rbind (request_coin_state w ''coin state request rejected'' p ids) (\<lambda>states.
       Inr (coin_states_to_records hx states)))"

definition do_get_children ::
  "hex_codec \<Rightarrow> 'p wire \<Rightarrow> string \<Rightarrow> 'p \<Rightarrow> coin_record list query" where
  "do_get_children hx w parent_id p =
     rbind (parse_bytes32 hx parent_id) (\<lambda>coin_name.
     rbind (infallible (w_children w p coin_name)) (\<lambda>states.
       Inr (coin_states_to_records hx states)))"

section \<open>The puzzle-state walk\<close>

definition walk_filters :: "bool \<Rightarrow> coin_state_filters" where
  "walk_filters hinted =
     \<lparr>f_include_spent = True, f_include_unspent = True, f_include_hinted = hinted, f_min_amount = 0\<rparr>"

text \<open>The page loop, from the \<open>n\<close>-th request. Nothing in the code bounds it; \<open>None\<close> is not
  returning.\<close>

partial_function (option) page_walk ::
  "(nat \<Rightarrow> u32 option \<Rightarrow> bytes \<Rightarrow> puzzle_state_page query) \<Rightarrow> nat \<Rightarrow> u32 option \<Rightarrow> bytes \<Rightarrow>
   coin_state list \<Rightarrow> (coin_state list \<times> u32) query option" where
  "page_walk ask n prev_height prev_header acc =
     (case ask n prev_height prev_header of
        Inl e \<Rightarrow> Some (Inl e)
      | Inr page \<Rightarrow>
          (if ps_is_finished page then Some (Inr (acc @ ps_coin_states page, ps_height page))
           else page_walk ask (Suc n) (Some (ps_height page)) (ps_header_hash page)
                  (acc @ ps_coin_states page)))"

definition ask_page ::
  "'p wire \<Rightarrow> 'p \<Rightarrow> bytes list \<Rightarrow> bool \<Rightarrow> nat \<Rightarrow> u32 option \<Rightarrow> bytes \<Rightarrow> puzzle_state_page query" where
  "ask_page w p hashes hinted n prev_height prev_header =
     fallible ''request timed out'' ''puzzle state request rejected''
       (w_puzzle_state w p n hashes prev_height prev_header (walk_filters hinted))"

definition show_announced :: "u32 option \<Rightarrow> string" where
  "show_announced a = (case a of None \<Rightarrow> ''None'' | Some h \<Rightarrow> ''Some('' @ show_word h @ '')'')"

definition unsupported_as_of :: "socket_addr \<Rightarrow> u32 \<Rightarrow> u32 option \<Rightarrow> chia_query_error" where
  "unsupported_as_of a as_of announced =
     PeerRejection (''peer '' @ show_addr a @ '' answered as of height '' @ show_word as_of @
       '', which its own announced peak ('' @ show_announced announced @ '') does not support'')"

definition do_puzzle_hash_query ::
  "hex_codec \<Rightarrow> 'p wire \<Rightarrow> 'q peer_pool \<Rightarrow> string list \<Rightarrow> bool \<Rightarrow> 'p \<Rightarrow>
   coin_record heighted_set query option" where
  "do_puzzle_hash_query hx w pool hashes hinted p =
     (case collect_results (parse_bytes32 hx) hashes of
        Inl e \<Rightarrow> Some (Inl e)
      | Inr puzzle_hashes \<Rightarrow>
          map_option
            (\<lambda>r. rbind r (\<lambda>(states, as_of).
               let announced = announced_peak pool (w_addr w p)
               in if \<not> as_of_is_supported announced as_of
                  then Inl (unsupported_as_of (w_addr w p) as_of announced)
                  else Inr \<lparr>hs_items = coin_states_to_records hx states, hs_as_of = as_of\<rparr>))
            (page_walk (ask_page w p puzzle_hashes hinted) 0 None (genesis_challenge w) []))"

definition peer_as_of :: "'p wire \<Rightarrow> 'q peer_pool \<Rightarrow> 'p \<Rightarrow> u32 query" where
  "peer_as_of w pool p =
     ok_or (PeerConnection ''peer has announced no peak, so its answer cannot be held to a height'')
       (announced_peak pool (w_addr w p))"

section \<open>Spends\<close>

definition verify_reveal_against_puzzle_hash ::
  "hex_codec \<Rightarrow> 'p wire \<Rightarrow> coin_spend \<Rightarrow> unit query" where
  "verify_reveal_against_puzzle_hash hx w sp =
     rbind (parse_hex hx (puzzle_hash (cs_coin sp))) (\<lambda>expected.
     rbind (parse_hex hx (puzzle_reveal sp)) (\<lambda>reveal.
     rbind (map_err (\<lambda>e. PeerRejection (''puzzle reveal is not valid CLVM: '' @ e))
             (tree_hash_from_bytes w reveal)) (\<lambda>actual.
       if actual \<noteq> expected
       then Inl (PeerRejection (''puzzle reveal hashes to 0x'' @ hex_encode hx actual @ '' but coin '' @
              parent_coin_info (cs_coin sp) @ '' is locked with '' @ puzzle_hash (cs_coin sp)))
       else Inr ())))"

definition do_get_puzzle_and_solution_raw ::
  "hex_codec \<Rightarrow> 'p wire \<Rightarrow> string \<Rightarrow> u32 \<Rightarrow> 'p \<Rightarrow> coin_spend option query" where
  "do_get_puzzle_and_solution_raw hx w coin_id height p =
     rbind (parse_bytes32 hx coin_id) (\<lambda>i.
     rbind (rejectable (w_puzzle_and_solution w p i height)) (\<lambda>response.
       case response of
         None \<Rightarrow> Inr None
       | Some r \<Rightarrow>
           if psr_coin_name r \<noteq> i
           then Inl (PeerRejection (''peer answered about coin '' @ hex32 hx (psr_coin_name r) @
                  '' when asked about '' @ coin_id))
           else Inr (Some (make_coin_spend hx
                  \<lparr>pc_parent_coin_info = psr_coin_name r, pc_puzzle_hash = replicate 32 0, pc_amount = 0\<rparr>
                  (psr_puzzle r) (psr_solution r)))))"

text \<open>The raw spend on the coin of a coin state, refuted or accepted.\<close>

definition spend_on ::
  "hex_codec \<Rightarrow> 'p wire \<Rightarrow> string \<Rightarrow> u32 \<Rightarrow> 'p \<Rightarrow> coin_state \<Rightarrow> coin_spend option query" where
  "spend_on hx w coin_id height p cs =
     rbind (do_get_puzzle_and_solution_raw hx w coin_id height p) (\<lambda>raw.
       case raw of
         None \<Rightarrow> Inr None
       | Some sp \<Rightarrow>
           let sp = sp\<lparr>cs_coin := from_protocol hx (cst_coin cs)\<rparr>
           in rbind (verify_reveal_against_puzzle_hash hx w sp) (\<lambda>_. Inr (Some sp)))"

definition do_get_coin_spend_opt ::
  "hex_codec \<Rightarrow> 'p wire \<Rightarrow> string \<Rightarrow> 'p \<Rightarrow> coin_spend option query" where
  "do_get_coin_spend_opt hx w coin_id p =
     rbind (parse_bytes32 hx coin_id) (\<lambda>i.
     rbind (request_coin_state w ''coin state rejected'' p [i]) (\<lambda>states.
       case first_of states of
         None \<Rightarrow> Inr None
       | Some cs \<Rightarrow>
           (case spent_height cs of
              None \<Rightarrow> Inr None
            | Some h \<Rightarrow> spend_on hx w coin_id h p cs)))"

definition do_get_puzzle_and_solution_opt ::
  "hex_codec \<Rightarrow> 'p wire \<Rightarrow> string \<Rightarrow> u32 \<Rightarrow> 'p \<Rightarrow> coin_spend option query" where
  "do_get_puzzle_and_solution_opt hx w coin_id height p =
     rbind (parse_bytes32 hx coin_id) (\<lambda>i.
     rbind (request_coin_state w ''coin state rejected'' p [i]) (\<lambda>states.
       case first_of states of
         None \<Rightarrow> Inr None
       | Some cs \<Rightarrow> spend_on hx w coin_id height p cs))"

section \<open>Blocks, fees and transactions\<close>

definition fetch_full_block :: "'p wire \<Rightarrow> u32 \<Rightarrow> 'p \<Rightarrow> full_block query" where
  "fetch_full_block w height p =
     fallible ''block request timed out'' ''block request rejected'' (w_block w p height)"

definition do_get_block_by_height ::
  "(full_block \<Rightarrow> string + json) \<Rightarrow> 'p wire \<Rightarrow> u32 \<Rightarrow> 'p \<Rightarrow> json query" where
  "do_get_block_by_height to_value w height p =
     rbind (fetch_full_block w height p) (\<lambda>b.
       map_err (\<lambda>e. PeerConnection (''serialize block: '' @ e)) (to_value b))"

definition do_get_additions_and_removals_from_block ::
  "hex_codec \<Rightarrow> 'n clvm \<Rightarrow> 'p wire \<Rightarrow> u32 \<Rightarrow> 'p \<Rightarrow> additions_and_removals query" where
  "do_get_additions_and_removals_from_block hx cl w height p =
     rbind (fetch_full_block w height p) (\<lambda>b. block_additions_and_removals hx cl b height)"

definition do_get_block_spends ::
  "hex_codec \<Rightarrow> 'n clvm \<Rightarrow> 'p wire \<Rightarrow> u32 \<Rightarrow> 'p \<Rightarrow> coin_spend list query option" where
  "do_get_block_spends hx cl w height p =
     (case fetch_full_block w height p of
        Inl e \<Rightarrow> Some (Inl e)
      | Inr b \<Rightarrow> block_spends hx cl b)"

definition do_get_block_record_by_height_opt ::
  "hex_codec \<Rightarrow> 'p wire \<Rightarrow> u32 \<Rightarrow> 'p \<Rightarrow> block_record option query" where
  "do_get_block_record_by_height_opt hx w height p =
     rbind (rejectable (w_block_header w p height)) (\<lambda>r.
       Inr (map_option (header_block_to_block_record hx) r))"

definition do_get_block_record_by_height ::
  "hex_codec \<Rightarrow> 'p wire \<Rightarrow> u32 \<Rightarrow> 'p \<Rightarrow> block_record query" where
  "do_get_block_record_by_height hx w height p =
     rbind (do_get_block_record_by_height_opt hx w height p)
       (ok_or (PeerRejection ''header request rejected''))"

definition do_get_additions_and_removals ::
  "hex_codec \<Rightarrow> 'p wire \<Rightarrow> u32 \<Rightarrow> string \<Rightarrow> 'p \<Rightarrow> additions_and_removals query" where
  "do_get_additions_and_removals hx w height header_hash_hex p =
     rbind (parse_bytes32 hx header_hash_hex) (\<lambda>header_hash.
     rbind (fallible ''additions request timed out'' ''additions rejected''
             (w_additions w p height header_hash)) (\<lambda>adds.
     rbind (fallible ''removals request timed out'' ''removals rejected''
             (w_removals w p height header_hash)) (\<lambda>rems.
       Inr (additions_removals_to_response hx adds rems height))))"

definition do_get_fee_estimate :: "'p wire \<Rightarrow> u64 list \<Rightarrow> 'p \<Rightarrow> fee_estimate query" where
  "do_get_fee_estimate w ts p =
     rbind (infallible (w_fee_estimates w p ts)) (\<lambda>rates.
       Inr (make_fee_estimate (map (u64_to_f64 w) rates) ts))"

definition to_protocol_coin_spend :: "hex_codec \<Rightarrow> coin_spend \<Rightarrow> proto_coin_spend query" where
  "to_protocol_coin_spend hx cs =
     rbind (parse_bytes32 hx (parent_coin_info (cs_coin cs))) (\<lambda>parent.
     rbind (parse_bytes32 hx (puzzle_hash (cs_coin cs))) (\<lambda>ph.
     rbind (parse_hex hx (puzzle_reveal cs)) (\<lambda>reveal.
     rbind (parse_hex hx (solution cs)) (\<lambda>sol.
       Inr \<lparr>pcs_coin = \<lparr>pc_parent_coin_info = parent, pc_puzzle_hash = ph,
                        pc_amount = amount (cs_coin cs)\<rparr>,
            pcs_puzzle_reveal = reveal, pcs_solution = sol\<rparr>))))"

definition to_protocol_spend_bundle :: "hex_codec \<Rightarrow> 'p wire \<Rightarrow> spend_bundle \<Rightarrow> proto_bundle query" where
  "to_protocol_spend_bundle hx w bundle =
     rbind (collect_results (to_protocol_coin_spend hx) (coin_spends bundle)) (\<lambda>spends.
     rbind (parse_hex hx (aggregated_signature bundle)) (\<lambda>sig_bytes.
       if length sig_bytes \<noteq> 96 then Inl (InvalidRequest ''signature must be 96 bytes'')
       else rbind (map_err (\<lambda>e. InvalidRequest (''bad BLS signature: '' @ e)) (bls_signature w sig_bytes))
              (\<lambda>sig. Inr \<lparr>pb_coin_spends = spends, pb_aggregated_signature = sig\<rparr>)))"

definition do_push_tx :: "hex_codec \<Rightarrow> 'p wire \<Rightarrow> spend_bundle \<Rightarrow> 'p \<Rightarrow> tx_status query" where
  "do_push_tx hx w bundle p =
     rbind (to_protocol_spend_bundle hx w bundle) (\<lambda>proto.
     rbind (infallible (w_send_transaction w p proto)) (\<lambda>(status, err).
       Inr (ack_to_tx_status status err)))"


section \<open>The backend's network constants\<close>

definition network_id :: "network_type \<Rightarrow> string" where
  "network_id n = (case n of Mainnet \<Rightarrow> ''mainnet'' | Testnet11 \<Rightarrow> ''testnet11'')"

definition backend_network_info :: "hex_codec \<Rightarrow> 'p wire \<Rightarrow> network_info" where
  "backend_network_info hx w =
     \<lparr>network_name = network_id (w_network w),
      network_prefix = (case w_network w of Mainnet \<Rightarrow> ''xch'' | Testnet11 \<Rightarrow> ''txch''),
      ni_genesis_challenge = ''0x'' @ hex_encode hx (genesis_challenge w)\<rparr>"

definition aggsig_additional_data :: "hex_codec \<Rightarrow> 'p wire \<Rightarrow> string" where
  "aggsig_additional_data hx w = ''0x'' @ hex_encode hx (agg_sig_me_additional_data w)"

section \<open>The public reads\<close>

text \<open>What a public read runs in: the dialler and the clock of its maintenance pass, what other
  tasks do to the pool between its awaits, and the pool its peers' heights are read from.\<close>

record 'p setting =
  st_dial :: "'p dial"
  st_now :: nat
  st_env :: "'p interference"
  st_seen :: "'p peer_pool"

abbreviation single ::
  "'p setting \<Rightarrow> ('p \<Rightarrow> 'a query) \<Rightarrow> 'p peer_pool \<Rightarrow> 'a query \<times> 'p peer_pool" where
  "single st \<equiv> read_single (st_dial st) (st_now st) (st_env st)"

abbreviation graded ::
  "'p setting \<Rightarrow> ('a \<Rightarrow> string) \<Rightarrow> ('p \<Rightarrow> 'a option query) \<Rightarrow> 'p peer_pool \<Rightarrow>
   'a opt_answer query \<times> 'p peer_pool" where
  "graded st \<equiv> read_opt_corroborated (st_dial st) (st_now st) (st_env st)"

abbreviation graded_set ::
  "'p setting \<Rightarrow> ('p \<Rightarrow> coin_record heighted_set query) \<Rightarrow> set_projection \<Rightarrow> 'p peer_pool \<Rightarrow>
   coin_record set_answer query \<times> 'p peer_pool" where
  "graded_set st \<equiv> read_set_corroborated (st_dial st) (st_now st) (st_env st) coin_record_member"

definition try_get_coin_record_by_name ::
  "hex_codec \<Rightarrow> 'p wire \<Rightarrow> 'p setting \<Rightarrow> string \<Rightarrow> 'p peer_pool \<Rightarrow> coin_record query \<times> 'p peer_pool" where
  "try_get_coin_record_by_name hx w st name = single st (do_get_coin_record_by_name hx w name)"

definition try_get_coin_record_by_name_opt ::
  "hex_codec \<Rightarrow> 'p wire \<Rightarrow> 'p setting \<Rightarrow> string \<Rightarrow> 'p peer_pool \<Rightarrow>
   coin_record opt_answer query \<times> 'p peer_pool" where
  "try_get_coin_record_by_name_opt hx w st name =
     graded st chain_claim_record (do_get_coin_record_by_name_opt hx w name)"

definition try_get_coin_spend_opt ::
  "hex_codec \<Rightarrow> 'p wire \<Rightarrow> 'p setting \<Rightarrow> string \<Rightarrow> 'p peer_pool \<Rightarrow>
   coin_spend opt_answer query \<times> 'p peer_pool" where
  "try_get_coin_spend_opt hx w st coin_id =
     graded st chain_claim_spend (do_get_coin_spend_opt hx w coin_id)"

definition try_get_puzzle_and_solution ::
  "hex_codec \<Rightarrow> 'p wire \<Rightarrow> 'p setting \<Rightarrow> string \<Rightarrow> u32 \<Rightarrow> 'p peer_pool \<Rightarrow>
   coin_spend opt_answer query \<times> 'p peer_pool" where
  "try_get_puzzle_and_solution hx w st coin_id height =
     graded st chain_claim_spend (do_get_puzzle_and_solution_opt hx w coin_id height)"

definition try_get_block_record_by_height ::
  "hex_codec \<Rightarrow> 'p wire \<Rightarrow> 'p setting \<Rightarrow> u32 \<Rightarrow> 'p peer_pool \<Rightarrow> block_record query \<times> 'p peer_pool" where
  "try_get_block_record_by_height hx w st height = single st (do_get_block_record_by_height hx w height)"

definition try_get_block_record_by_height_opt ::
  "hex_codec \<Rightarrow> 'p wire \<Rightarrow> 'p setting \<Rightarrow> u32 \<Rightarrow> 'p peer_pool \<Rightarrow>
   block_record opt_answer query \<times> 'p peer_pool" where
  "try_get_block_record_by_height_opt hx w st height =
     graded st chain_claim_block (do_get_block_record_by_height_opt hx w height)"

text \<open>A list of records, held to the height the peer has announced.\<close>

definition at_announced_peak ::
  "'p wire \<Rightarrow> 'p setting \<Rightarrow> ('p \<Rightarrow> coin_record list query) \<Rightarrow> 'p \<Rightarrow> coin_record heighted_set query" where
  "at_announced_peak w st read p =
     rbind (read p) (\<lambda>items.
     rbind (peer_as_of w (st_seen st) p) (\<lambda>h. Inr \<lparr>hs_items = items, hs_as_of = h\<rparr>))"

definition try_get_coin_records_by_names ::
  "hex_codec \<Rightarrow> 'p wire \<Rightarrow> 'p setting \<Rightarrow> string list \<Rightarrow> u32 option \<Rightarrow> u32 option \<Rightarrow> bool \<Rightarrow> 'p peer_pool \<Rightarrow>
   coin_record set_answer query \<times> 'p peer_pool" where
  "try_get_coin_records_by_names hx w st names start_h end_h incl =
     graded_set st (at_announced_peak w st (do_coin_ids_query hx w names))
       \<lparr>start_height = start_h, end_height = end_h, include_spent = incl\<rparr>"

definition try_get_children ::
  "hex_codec \<Rightarrow> 'p wire \<Rightarrow> 'p setting \<Rightarrow> string \<Rightarrow> u32 option \<Rightarrow> u32 option \<Rightarrow> bool \<Rightarrow> 'p peer_pool \<Rightarrow>
   coin_record set_answer query \<times> 'p peer_pool" where
  "try_get_children hx w st parent_id start_h end_h incl =
     graded_set st (at_announced_peak w st (do_get_children hx w parent_id))
       \<lparr>start_height = start_h, end_height = end_h, include_spent = incl\<rparr>"

text \<open>A round over reads that may not return returns when the asked peer's read does and, once
  that has answered, every corroborator's does: the round awaits them all.\<close>

definition reads_return :: "'p setting \<Rightarrow> ('p \<Rightarrow> 'a query option) \<Rightarrow> 'p peer_pool \<Rightarrow> bool" where
  "reads_return st read pool =
     (case pick (st_dial st) (st_now st) pool of
        (Inl e, pool) \<Rightarrow> True
      | (Inr (peer, addr), pool) \<Rightarrow>
          (case read peer of
             None \<Rightarrow> False
           | Some (Inl e) \<Rightarrow> True
           | Some (Inr first) \<Rightarrow>
               list_all (\<lambda>(p, a). read p \<noteq> None)
                 (select_corroborating_peers (st_env st 1 (st_env st 0 pool)) addr)))"

definition puzzle_hash_round ::
  "hex_codec \<Rightarrow> 'p wire \<Rightarrow> 'p setting \<Rightarrow> string list \<Rightarrow> bool \<Rightarrow> set_projection \<Rightarrow> 'p peer_pool \<Rightarrow>
   (coin_record set_answer query \<times> 'p peer_pool) option" where
  "puzzle_hash_round hx w st hashes hinted projection pool =
     (let read = do_puzzle_hash_query hx w (st_seen st) hashes hinted
      in if reads_return st read pool then Some (graded_set st (\<lambda>p. the (read p)) projection pool) else None)"

definition try_get_coin_records_by_puzzle_hash ::
  "hex_codec \<Rightarrow> 'p wire \<Rightarrow> 'p setting \<Rightarrow> string \<Rightarrow> u32 option \<Rightarrow> u32 option \<Rightarrow> bool \<Rightarrow> 'p peer_pool \<Rightarrow>
   (coin_record set_answer query \<times> 'p peer_pool) option" where
  "try_get_coin_records_by_puzzle_hash hx w st h start_h end_h incl =
     puzzle_hash_round hx w st [h] False \<lparr>start_height = start_h, end_height = end_h, include_spent = incl\<rparr>"

definition try_get_coin_records_by_puzzle_hashes ::
  "hex_codec \<Rightarrow> 'p wire \<Rightarrow> 'p setting \<Rightarrow> string list \<Rightarrow> u32 option \<Rightarrow> u32 option \<Rightarrow> bool \<Rightarrow> 'p peer_pool \<Rightarrow>
   (coin_record set_answer query \<times> 'p peer_pool) option" where
  "try_get_coin_records_by_puzzle_hashes hx w st hs start_h end_h incl =
     puzzle_hash_round hx w st hs False \<lparr>start_height = start_h, end_height = end_h, include_spent = incl\<rparr>"

definition try_get_coin_records_by_hint ::
  "hex_codec \<Rightarrow> 'p wire \<Rightarrow> 'p setting \<Rightarrow> string \<Rightarrow> u32 option \<Rightarrow> u32 option \<Rightarrow> bool \<Rightarrow> 'p peer_pool \<Rightarrow>
   (coin_record set_answer query \<times> 'p peer_pool) option" where
  "try_get_coin_records_by_hint hx w st h start_h end_h incl =
     puzzle_hash_round hx w st [h] True \<lparr>start_height = start_h, end_height = end_h, include_spent = incl\<rparr>"

definition try_get_coin_records_by_hints ::
  "hex_codec \<Rightarrow> 'p wire \<Rightarrow> 'p setting \<Rightarrow> string list \<Rightarrow> u32 option \<Rightarrow> u32 option \<Rightarrow> bool \<Rightarrow> 'p peer_pool \<Rightarrow>
   (coin_record set_answer query \<times> 'p peer_pool) option" where
  "try_get_coin_records_by_hints hx w st hs start_h end_h incl =
     puzzle_hash_round hx w st hs True \<lparr>start_height = start_h, end_height = end_h, include_spent = incl\<rparr>"

section \<open>Single-peer requests\<close>

definition try_get_fee_estimate ::
  "'p wire \<Rightarrow> 'p setting \<Rightarrow> u64 list \<Rightarrow> 'p peer_pool \<Rightarrow> fee_estimate query \<times> 'p peer_pool" where
  "try_get_fee_estimate w st ts = single st (do_get_fee_estimate w ts)"

definition try_get_additions_and_removals ::
  "hex_codec \<Rightarrow> 'p wire \<Rightarrow> 'p setting \<Rightarrow> u32 \<Rightarrow> string \<Rightarrow> 'p peer_pool \<Rightarrow>
   additions_and_removals query \<times> 'p peer_pool" where
  "try_get_additions_and_removals hx w st height header_hash =
     single st (do_get_additions_and_removals hx w height header_hash)"

definition try_get_block_by_height ::
  "(full_block \<Rightarrow> string + json) \<Rightarrow> 'p wire \<Rightarrow> 'p setting \<Rightarrow> u32 \<Rightarrow> 'p peer_pool \<Rightarrow> json query \<times> 'p peer_pool" where
  "try_get_block_by_height to_value w st height = single st (do_get_block_by_height to_value w height)"

definition try_get_additions_and_removals_from_block ::
  "hex_codec \<Rightarrow> 'n clvm \<Rightarrow> 'p wire \<Rightarrow> 'p setting \<Rightarrow> u32 \<Rightarrow> 'p peer_pool \<Rightarrow>
   additions_and_removals query \<times> 'p peer_pool" where
  "try_get_additions_and_removals_from_block hx cl w st height =
     single st (do_get_additions_and_removals_from_block hx cl w height)"

text \<open>\<open>None\<close> in the first component is the panic of \<open>block_spends\<close>.\<close>

definition try_get_block_spends_by_height ::
  "hex_codec \<Rightarrow> 'n clvm \<Rightarrow> 'p wire \<Rightarrow> 'p setting \<Rightarrow> u32 \<Rightarrow> 'p peer_pool \<Rightarrow>
   coin_spend list query option \<times> 'p peer_pool" where
  "try_get_block_spends_by_height hx cl w st height pool =
     (case pick (st_dial st) (st_now st) pool of
        (Inl e, pool) \<Rightarrow> (Some (Inl e), pool)
      | (Inr (peer, addr), pool) \<Rightarrow>
          (let res = do_get_block_spends hx cl w height peer; pool = st_env st 0 pool
           in (res, case res of
                Some r \<Rightarrow> if is_err r then eject_peer addr pool else pool
              | None \<Rightarrow> pool)))"

text \<open>Here the peer is ejected when the fetch fails, not when the reading of the block does.\<close>

definition try_get_block_spends_with_conditions ::
  "hex_codec \<Rightarrow> 'n clvm \<Rightarrow> 'p wire \<Rightarrow> 'p setting \<Rightarrow> u32 \<Rightarrow> 'p peer_pool \<Rightarrow>
   coin_spend_with_conditions list query option \<times> 'p peer_pool" where
  "try_get_block_spends_with_conditions hx cl w st height pool =
     (case pick (st_dial st) (st_now st) pool of
        (Inl e, pool) \<Rightarrow> (Some (Inl e), pool)
      | (Inr (peer, addr), pool) \<Rightarrow>
          (let proto_block = fetch_full_block w height peer; pool = st_env st 0 pool
           in case proto_block of
                Inl e \<Rightarrow> (Some (Inl e), eject_peer addr pool)
              | Inr b \<Rightarrow> (block_spends_with_conditions hx cl b, pool)))"

text \<open>The early returns of \<open>try_get_puzzle_and_solution_auto\<close> leave the peer in the pool.\<close>

definition try_get_puzzle_and_solution_auto ::
  "hex_codec \<Rightarrow> 'p wire \<Rightarrow> 'p setting \<Rightarrow> string \<Rightarrow> 'p peer_pool \<Rightarrow> coin_spend query \<times> 'p peer_pool" where
  "try_get_puzzle_and_solution_auto hx w st coin_id pool =
     (case pick (st_dial st) (st_now st) pool of
        (Inl e, pool) \<Rightarrow> (Inl e, pool)
      | (Inr (peer, addr), pool) \<Rightarrow>
          (let pool' = st_env st 0 pool;
               spent = rbind (parse_bytes32 hx coin_id) (\<lambda>i.
                 rbind (request_coin_state w ''coin state rejected'' peer [i]) (\<lambda>states.
                 rbind (ok_or (PeerRejection ''coin not found'') (first_of states)) (\<lambda>cs.
                 rbind (ok_or (PeerRejection ''coin is not spent'') (spent_height cs)) (\<lambda>h. Inr (cs, h)))))
           in case spent of
                Inl e \<Rightarrow> (Inl e, pool')
              | Inr (cs, h) \<Rightarrow>
                  (let res = rbind (do_get_puzzle_and_solution_raw hx w coin_id h peer) (\<lambda>raw.
                         rbind (ok_or (PeerRejection ''puzzle solution rejected'') raw) (\<lambda>sp.
                           let sp = sp\<lparr>cs_coin := from_protocol hx (cst_coin cs)\<rparr>
                           in rbind (verify_reveal_against_puzzle_hash hx w sp) (\<lambda>_. Inr sp)))
                   in (res, if is_err res then eject_peer addr pool' else pool'))))"

section \<open>Ranges\<close>

text \<open>\<open>st h\<close> is the setting of the request at height \<open>h\<close>. \<open>None\<close>: the subtraction
  \<open>end - start\<close> that sizes the vector overflows.\<close>

fun read_each ::
  "(u32 \<Rightarrow> 'p peer_pool \<Rightarrow> 'a query \<times> 'p peer_pool) \<Rightarrow> u32 list \<Rightarrow> 'p peer_pool \<Rightarrow>
   'a list query \<times> 'p peer_pool" where
  "read_each f [] pool = (Inr [], pool)"
| "read_each f (h # hs) pool =
     (case f h pool of
        (Inl e, pool) \<Rightarrow> (Inl e, pool)
      | (Inr x, pool) \<Rightarrow>
          (case read_each f hs pool of
             (Inl e, pool) \<Rightarrow> (Inl e, pool)
           | (Inr xs, pool) \<Rightarrow> (Inr (x # xs), pool)))"

definition heights_between :: "u32 \<Rightarrow> u32 \<Rightarrow> u32 list" where
  "heights_between s e = map of_nat [unat s..<unat e]"

definition try_get_block_records ::
  "hex_codec \<Rightarrow> 'p wire \<Rightarrow> (u32 \<Rightarrow> 'p setting) \<Rightarrow> u32 \<Rightarrow> u32 \<Rightarrow> 'p peer_pool \<Rightarrow>
   (block_record list query \<times> 'p peer_pool) option" where
  "try_get_block_records hx w st start_h end_h pool =
     (case checked_sub end_h start_h of
        None \<Rightarrow> None
      | Some capacity \<Rightarrow>
          Some (read_each (\<lambda>h. try_get_block_record_by_height hx w (st h) h) (heights_between start_h end_h) pool))"

definition try_get_blocks_range ::
  "(full_block \<Rightarrow> string + json) \<Rightarrow> 'p wire \<Rightarrow> (u32 \<Rightarrow> 'p setting) \<Rightarrow> u32 \<Rightarrow> u32 \<Rightarrow> 'p peer_pool \<Rightarrow>
   (json list query \<times> 'p peer_pool) option" where
  "try_get_blocks_range to_value w st start_h end_h pool =
     (case checked_sub end_h start_h of
        None \<Rightarrow> None
      | Some capacity \<Rightarrow>
          Some (read_each (\<lambda>h. try_get_block_by_height to_value w (st h) h) (heights_between start_h end_h) pool))"

section \<open>Pushing a transaction\<close>

definition try_push_tx_attributed ::
  "hex_codec \<Rightarrow> 'p wire \<Rightarrow> 'p setting \<Rightarrow> spend_bundle \<Rightarrow> 'p peer_pool \<Rightarrow>
   (tx_status \<times> socket_addr) query \<times> 'p peer_pool" where
  "try_push_tx_attributed hx w st bundle pool =
     (case pick (st_dial st) (st_now st) pool of
        (Inl e, pool) \<Rightarrow> (Inl e, pool)
      | (Inr (peer, addr), pool) \<Rightarrow>
          (case do_push_tx hx w bundle peer of
             Inr status \<Rightarrow> (Inr (status, addr), st_env st 0 pool)
           | Inl e \<Rightarrow> (Inl e, eject_peer addr (st_env st 0 pool))))"

definition try_push_tx ::
  "hex_codec \<Rightarrow> 'p wire \<Rightarrow> 'p setting \<Rightarrow> spend_bundle \<Rightarrow> 'p peer_pool \<Rightarrow> tx_status query \<times> 'p peer_pool" where
  "try_push_tx hx w st bundle pool =
     (case try_push_tx_attributed hx w st bundle pool of (r, pool) \<Rightarrow> (map_ok fst r, pool))"

definition try_push_tx_excluding ::
  "hex_codec \<Rightarrow> 'p wire \<Rightarrow> 'p setting \<Rightarrow> spend_bundle \<Rightarrow> socket_addr \<Rightarrow> 'p peer_pool \<Rightarrow>
   tx_status query \<times> 'p peer_pool" where
  "try_push_tx_excluding hx w st bundle excluded pool =
     (case select_peer_excluding excluded pool of
        (None, pool) \<Rightarrow> (Inl (PeerConnection ''no peer other than the one that refused is held''), pool)
      | (Some (peer, addr), pool) \<Rightarrow>
          (let res = do_push_tx hx w bundle peer; pool = st_env st 0 pool
           in (res, if is_err res then eject_peer addr pool else pool)))"


section \<open>The walk, page by page\<close>

text \<open>The reference: what the peer answers to each request in turn, each asking after the page
  before it.\<close>

fun cursor ::
  "(nat \<Rightarrow> u32 option \<Rightarrow> bytes \<Rightarrow> 'e + puzzle_state_page) \<Rightarrow> bytes \<Rightarrow> nat \<Rightarrow> u32 option \<times> bytes" where
  "cursor ask genesis 0 = (None, genesis)"
| "cursor ask genesis (Suc n) =
     (case ask n (fst (cursor ask genesis n)) (snd (cursor ask genesis n)) of
        Inl e \<Rightarrow> cursor ask genesis n
      | Inr page \<Rightarrow> (Some (ps_height page), ps_header_hash page))"

definition nth_reply ::
  "(nat \<Rightarrow> u32 option \<Rightarrow> bytes \<Rightarrow> 'e + puzzle_state_page) \<Rightarrow> bytes \<Rightarrow> nat \<Rightarrow> 'e + puzzle_state_page" where
  "nth_reply ask genesis n = ask n (fst (cursor ask genesis n)) (snd (cursor ask genesis n))"

definition stops :: "'e + puzzle_state_page \<Rightarrow> bool" where
  "stops r = (case r of Inl _ \<Rightarrow> True | Inr page \<Rightarrow> ps_is_finished page)"

definition states_of :: "'e + puzzle_state_page \<Rightarrow> coin_state list" where
  "states_of r = (case r of Inl _ \<Rightarrow> [] | Inr page \<Rightarrow> ps_coin_states page)"

definition walk_result ::
  "(nat \<Rightarrow> puzzle_state_page query) \<Rightarrow> nat \<Rightarrow> (coin_state list \<times> u32) query" where
  "walk_result reply k =
     map_ok (\<lambda>page. (concat (map (\<lambda>i. states_of (reply i)) [0..<Suc k]), ps_height page)) (reply k)"

abbreviation walk_from ::
  "(nat \<Rightarrow> u32 option \<Rightarrow> bytes \<Rightarrow> puzzle_state_page query) \<Rightarrow> bytes \<Rightarrow> nat \<Rightarrow>
   (coin_state list \<times> u32) query option" where
  "walk_from ask g n \<equiv> page_walk ask n (fst (cursor ask g n)) (snd (cursor ask g n))
     (concat (map (\<lambda>i. states_of (nth_reply ask g i)) [0..<n]))"

lemma walk_stops:
  assumes "stops (nth_reply ask g n)"
  shows "walk_from ask g n = Some (walk_result (nth_reply ask g) n)"
  using assms
  by (subst page_walk.simps)
    (auto simp: nth_reply_def stops_def walk_result_def states_of_def split: sum.splits)

lemma walk_goes_on:
  assumes "\<not> stops (nth_reply ask g n)"
  shows "walk_from ask g n = walk_from ask g (Suc n)"
  using assms
  by (subst page_walk.simps) (auto simp: nth_reply_def stops_def states_of_def split: sum.splits)

lemma walk_reaches:
  "(\<And>i. i < n \<Longrightarrow> \<not> stops (nth_reply ask g i)) \<Longrightarrow> page_walk ask 0 None g [] = walk_from ask g n"
proof (induction n)
  case (Suc n)
  then have "page_walk ask 0 None g [] = walk_from ask g n" by simp
  also have "\<dots> = walk_from ask g (Suc n)" using Suc.prems by (intro walk_goes_on) simp
  finally show ?case .
qed simp

lemma walk_returned_stopped:
  assumes "page_walk ask n h hh acc = Some r"
    and "(h, hh) = cursor ask g n"
  shows "\<exists>k. stops (nth_reply ask g k)"
  using assms
proof (induction ask n h hh acc r rule: page_walk.raw_induct [rotated, consumes 1])
  case (1 walk ask n h hh acc r)
  have c: "fst (cursor ask g n) = h" "snd (cursor ask g n) = hh" using 1(3) by (metis fst_conv snd_conv)+
  show ?case
  proof (cases "stops (nth_reply ask g n)")
    case False
    then obtain page where p: "ask n h hh = Inr page" "\<not> ps_is_finished page"
      using c by (auto simp: nth_reply_def stops_def split: sum.splits)
    have "walk ask (Suc n) (Some (ps_height page)) (ps_header_hash page) (acc @ ps_coin_states page) = Some r"
      using 1(2) p by simp
    moreover have "(Some (ps_height page), ps_header_hash page) = cursor ask g (Suc n)"
      using p c by simp
    ultimately show ?thesis using 1(1) by blast
  qed blast
qed

text \<open>C21: The page walk is exact and returns only on a page that ends it. Asking each page after
  the one before, from the genesis challenge: if some reply is the last page or a failure, the
  walk returns at the first such - with that failure, or with the coin states of every page in
  order and the last page's height as the anchor; if no reply ever is, the walk never returns,
  for nothing in it counts the pages.\<close>

theorem page_walk_exact:
  "page_walk ask 0 None genesis [] =
     (if \<exists>k. stops (nth_reply ask genesis k)
      then Some (walk_result (nth_reply ask genesis) (LEAST k. stops (nth_reply ask genesis k)))
      else None)"
proof (cases "\<exists>k. stops (nth_reply ask genesis k)")
  case True
  let ?k = "LEAST k. stops (nth_reply ask genesis k)"
  have "stops (nth_reply ask genesis ?k)" using True by (rule LeastI_ex)
  moreover have "page_walk ask 0 None genesis [] = walk_from ask genesis ?k"
    by (rule walk_reaches) (rule not_less_Least)
  ultimately show ?thesis using True by (simp only: walk_stops if_True)
next
  case False
  have "page_walk ask 0 None genesis [] = None"
  proof (rule ccontr)
    assume "page_walk ask 0 None genesis [] \<noteq> None"
    then obtain r where "page_walk ask 0 None genesis [] = Some r" by blast
    from walk_returned_stopped [OF this, of genesis] False show False by simp
  qed
  with False show ?thesis by simp
qed

section \<open>What an accepted spend is\<close>

lemma verify_reveal_Inr:
  "verify_reveal_against_puzzle_hash hx w sp = Inr u \<longleftrightarrow>
     (\<exists>ph reveal. parse_hex hx (puzzle_hash (cs_coin sp)) = Inr ph \<and>
        parse_hex hx (puzzle_reveal sp) = Inr reveal \<and> tree_hash_from_bytes w reveal = Inr ph)"
  by (auto simp: verify_reveal_against_puzzle_hash_def result_Inr split: if_splits)

lemma raw_spend_Some:
  "do_get_puzzle_and_solution_raw hx w coin_id h p = Inr (Some sp) \<longleftrightarrow>
     (\<exists>i r. parse_bytes32 hx coin_id = Inr i \<and> w_puzzle_and_solution w p i h = Reply r \<and>
        psr_coin_name r = i \<and>
        sp = make_coin_spend hx \<lparr>pc_parent_coin_info = i, pc_puzzle_hash = replicate 32 0, pc_amount = 0\<rparr>
               (psr_puzzle r) (psr_solution r))"
proof -
  have "rejectable r = Inr (Some x) \<longleftrightarrow> r = Reply x" for r :: "puzzle_solution_response reply" and x
    by (cases r) auto
  then show ?thesis
    by (auto simp: do_get_puzzle_and_solution_raw_def result_Inr split: option.splits if_splits)
qed

lemma spend_on_Some:
  "spend_on hx w coin_id h p cs = Inr (Some sp) \<longleftrightarrow>
     (\<exists>raw. do_get_puzzle_and_solution_raw hx w coin_id h p = Inr (Some raw) \<and>
        sp = raw\<lparr>cs_coin := from_protocol hx (cst_coin cs)\<rparr> \<and>
        (\<exists>u. verify_reveal_against_puzzle_hash hx w sp = Inr u))"
  by (auto simp: spend_on_def result_Inr Let_def split: option.splits)

lemma request_coin_state_Inr:
  "request_coin_state w no p ids = Inr states \<longleftrightarrow>
     w_coin_state w p ids None (genesis_challenge w) False = Reply states"
proof -
  have "fallible late no r = Inr x \<longleftrightarrow> r = Reply x" for late and r :: "coin_state list reply" and x
    by (cases r) auto
  then show ?thesis by (simp add: request_coin_state_def)
qed

lemma first_of_Some: "first_of xs = Some x \<longleftrightarrow> (\<exists>ys. xs = x # ys)"
  by (cases xs) (auto simp: first_of_def)

text \<open>C19: An accepted spend carries a program that can unlock its coin. When the spend read returns
  a spend, the peer's coin state says the coin was spent and is the spend's coin, the puzzle
  reply names the coin that was asked about, and the tree hash of the revealed puzzle is the
  coin's own puzzle hash - checked locally, whatever the peer says.\<close>

theorem accepted_spend_is_verified:
  assumes "hex_ok hx" "do_get_coin_spend_opt hx w coin_id p = Inr (Some sp)"
  shows "\<exists>i cs rest h r. parse_bytes32 hx coin_id = Inr i \<and>
    w_coin_state w p [i] None (genesis_challenge w) False = Reply (cs # rest) \<and>
    spent_height cs = Some h \<and> cs_coin sp = from_protocol hx (cst_coin cs) \<and>
    w_puzzle_and_solution w p i h = Reply r \<and> psr_coin_name r = i \<and>
    tree_hash_from_bytes w (psr_puzzle r) = Inr (pc_puzzle_hash (cst_coin cs)) \<and>
    solution sp = hex_bytes hx (psr_solution r)"
proof -
  from assms(2) obtain i cs rest h where i: "parse_bytes32 hx coin_id = Inr i"
    and cs: "w_coin_state w p [i] None (genesis_challenge w) False = Reply (cs # rest)"
    and h: "spent_height cs = Some h" and sp: "spend_on hx w coin_id h p cs = Inr (Some sp)"
    by (auto simp: do_get_coin_spend_opt_def result_Inr request_coin_state_Inr first_of_Some
        split: option.splits)
  from sp i obtain r where r: "w_puzzle_and_solution w p i h = Reply r" "psr_coin_name r = i"
    and s: "cs_coin sp = from_protocol hx (cst_coin cs)" "puzzle_reveal sp = hex_bytes hx (psr_puzzle r)"
      "solution sp = hex_bytes hx (psr_solution r)"
    and v: "\<exists>u. verify_reveal_against_puzzle_hash hx w sp = Inr u"
    by (auto simp: spend_on_Some raw_spend_Some make_coin_spend_def)
  have dec: "parse_hex hx (''0x'' @ hex_encode hx b) = Inr b" for b
    using assms(1) unfolding parse_hex_def strip_0x by (simp add: hex_ok_def)
  have "parse_hex hx (puzzle_hash (cs_coin sp)) = Inr (pc_puzzle_hash (cst_coin cs))"
    unfolding s(1) from_protocol_def coin.simps by (rule dec)
  moreover have "parse_hex hx (puzzle_reveal sp) = Inr (psr_puzzle r)"
    unfolding s(2) hex_bytes_def by (rule dec)
  ultimately have "tree_hash_from_bytes w (psr_puzzle r) = Inr (pc_puzzle_hash (cst_coin cs))"
    using v by (auto simp: verify_reveal_Inr)
  with i cs h s(1,3) r show ?thesis by blast
qed


section \<open>Examples\<close>

definition example_wire :: "nat wire" where
  "example_wire =
     \<lparr>w_addr = (\<lambda>p. example_addr (of_nat p)),
      w_coin_state = (\<lambda>_ _ _ _ _. Reply [\<lparr>cst_coin = \<lparr>pc_parent_coin_info = replicate 32 2,
         pc_puzzle_hash = replicate 32 7, pc_amount = 1\<rparr>, spent_height = Some 9, created_height = Some 3\<rparr>]),
      w_puzzle_state = (\<lambda>_ n _ _ _ _. Reply \<lparr>ps_coin_states = [], ps_height = of_nat (90 + n),
         ps_header_hash = [], ps_is_finished = (n = 4)\<rparr>),
      w_puzzle_and_solution = (\<lambda>_ i _. Reply \<lparr>psr_coin_name = i, psr_puzzle = [1], psr_solution = [128]\<rparr>),
      w_children = (\<lambda>_ _. TimedOut), w_block_header = (\<lambda>_ _. Rejected), w_block = (\<lambda>_ _. Rejected),
      w_additions = (\<lambda>_ _ _. Rejected), w_removals = (\<lambda>_ _ _. Rejected),
      w_fee_estimates = (\<lambda>_ _. TimedOut), w_send_transaction = (\<lambda>_ _. Reply (1, None)),
      genesis_challenge = replicate 32 0, agg_sig_me_additional_data = replicate 32 0,
      w_network = Mainnet, tree_hash_from_bytes = (\<lambda>_. Inr (replicate 32 7)), bls_signature = Inr,
      u64_to_f64 = (\<lambda>_. 0)\<rparr>"

definition example_id :: string where
  "example_id = hex32 example_codec (replicate 32 5)"

lemma example_id_parses: "parse_bytes32 example_codec example_id = Inr (replicate 32 5)"
  unfolding example_id_def by (rule parse_bytes32_hex32 [OF example_codec_ok]) simp

lemma example_codec_parses: "parse_hex example_codec (''0x'' @ hex_encode example_codec b) = Inr b"
  unfolding parse_hex_def strip_0x using example_codec_ok by (simp add: hex_ok_def)

lemma example_spend:
  "\<exists>sp. do_get_coin_spend_opt example_codec example_wire example_id p = Inr (Some sp)"
proof -
  have v: "verify_reveal_against_puzzle_hash example_codec example_wire sp = Inr ()"
    if "puzzle_hash (cs_coin sp) = ''0x'' @ hex_encode example_codec (replicate 32 7)"
      "puzzle_reveal sp = ''0x'' @ hex_encode example_codec b" for sp b
    unfolding verify_reveal_against_puzzle_hash_def that example_codec_parses
    by (simp add: example_wire_def)
  show ?thesis
    unfolding do_get_coin_spend_opt_def spend_on_def do_get_puzzle_and_solution_raw_def example_id_parses
    using v
    by (simp add: request_coin_state_def example_wire_def first_of_def make_coin_spend_def Let_def
        from_protocol_def hex_bytes_def)
qed

lemma accepted_spend_witness:
  "\<exists>sp. do_get_coin_spend_opt example_codec example_wire example_id 0 = Inr (Some sp) \<and>
     tree_hash_from_bytes example_wire [1] = Inr (replicate 32 7)"
proof -
  obtain sp where "do_get_coin_spend_opt example_codec example_wire example_id 0 = Inr (Some sp)"
    using example_spend by blast
  with accepted_spend_is_verified [OF example_codec_ok this] show ?thesis
    by (auto simp: example_wire_def)
qed

section \<open>Anchored answers and faithful pushes\<close>

text \<open>C20: A puzzle-hash answer is whole and anchored. An answer that reaches a round holds the coin
  states of every page the peer sent, in order; its height is the last page's, and is at most six
  blocks below the peak the peer itself has announced, without which no answer is accepted.\<close>

theorem puzzle_hash_answer_anchored:
  assumes "do_puzzle_hash_query hx w pool hashes hinted p = Some (Inr s)"
  shows "\<exists>ids peak k page. collect_results (parse_bytes32 hx) hashes = Inr ids \<and>
    (let reply = nth_reply (ask_page w p ids hinted) (genesis_challenge w)
     in (\<forall>i < k. \<not> stops (reply i)) \<and> reply k = Inr page \<and> ps_is_finished page \<and>
        hs_items s = map (coin_state_to_record hx) (concat (map (\<lambda>i. states_of (reply i)) [0..<Suc k])) \<and>
        hs_as_of s = ps_height page) \<and>
    announced_peak pool (w_addr w p) = Some peak \<and> unat peak \<le> unat (hs_as_of s) + 6"
proof -
  obtain ids where ids: "collect_results (parse_bytes32 hx) hashes = Inr ids"
    using assms by (cases "collect_results (parse_bytes32 hx) hashes") (auto simp: do_puzzle_hash_query_def)
  let ?reply = "nth_reply (ask_page w p ids hinted) (genesis_challenge w)"
  obtain states as_of where
    walk: "page_walk (ask_page w p ids hinted) 0 None (genesis_challenge w) [] = Some (Inr (states, as_of))" and
    sup: "as_of_is_supported (announced_peak pool (w_addr w p)) as_of" and
    s: "s = \<lparr>hs_items = coin_states_to_records hx states, hs_as_of = as_of\<rparr>"
    using assms ids by (auto simp: do_puzzle_hash_query_def result_Inr Let_def split: if_splits)
  obtain k0 where "stops (?reply k0)" using walk_returned_stopped [OF walk, of "genesis_challenge w"] by auto
  then have stop: "stops (?reply (LEAST k. stops (?reply k)))" by (rule LeastI)
  define k where "k = (LEAST k. stops (?reply k))"
  have before: "\<forall>i < k. \<not> stops (?reply i)" unfolding k_def using not_less_Least by blast
  have stop_k: "stops (?reply k)" using stop by (simp only: k_def)
  have "page_walk (ask_page w p ids hinted) 0 None (genesis_challenge w) [] =
      walk_from (ask_page w p ids hinted) (genesis_challenge w) k"
    by (rule walk_reaches) (use before in blast)
  also have "\<dots> = Some (walk_result ?reply k)" by (rule walk_stops [OF stop_k])
  finally have "walk_result ?reply k = Inr (states, as_of)" using walk by simp
  then obtain page where page: "?reply k = Inr page" "as_of = ps_height page"
      "states = concat (map (\<lambda>i. states_of (?reply i)) [0..<Suc k])"
    unfolding walk_result_def map_ok_Inr by auto
  have "ps_is_finished page" using stop_k page(1) by (simp add: stops_def)
  moreover obtain peak where "announced_peak pool (w_addr w p) = Some peak"
      "unat peak \<le> unat as_of + 6"
    using sup by (auto simp: as_of_is_supported_def word_le_nat_alt unat_saturating_sub
        PEAK_LAG_EVICTION_def PEAK_LAG_TOLERANCE_def split: option.splits)
  ultimately show ?thesis
    using ids page before unfolding s coin_states_to_records_def Let_def
    by (intro exI [of _ ids] exI [of _ peak] exI [of _ k] exI [of _ page]) simp
qed

lemma anchored_witness:
  "\<exists>s. do_puzzle_hash_query example_codec example_wire voting_pool [] False 2 = Some (Inr s) \<and>
     unat (100 :: u32) \<le> unat (hs_as_of s) + 6"
proof -
  let ?ask = "ask_page example_wire 2 [] False"
  have reply: "nth_reply ?ask g n = Inr \<lparr>ps_coin_states = [], ps_height = of_nat (90 + n),
      ps_header_hash = [], ps_is_finished = (n = 4)\<rparr>" for g n
    by (simp add: nth_reply_def ask_page_def example_wire_def)
  have st: "stops (nth_reply ?ask g n) \<longleftrightarrow> n = 4" for g n by (simp add: reply stops_def)
  have "page_walk ?ask 0 None g [] = Some (walk_result (nth_reply ?ask g) 4)" for g
    using walk_reaches [of 4 ?ask g] walk_stops [of ?ask g 4] by (simp add: st)
  then have "page_walk ?ask 0 None g [] = Some (Inr ([], 94))" for g
    by (simp add: walk_result_def reply states_of_def)
  moreover have peak: "announced_peak voting_pool (w_addr example_wire 2) = Some 100"
    by (simp add: announced_peak_def voting_pool_def voting_entry_def empty_pool_def example_wire_def)
  ultimately have q: "do_puzzle_hash_query example_codec example_wire voting_pool [] False 2 =
      Some (Inr \<lparr>hs_items = [], hs_as_of = 94\<rparr>)"
    by (simp add: do_puzzle_hash_query_def as_of_is_supported_def saturating_sub_def
        PEAK_LAG_EVICTION_def PEAK_LAG_TOLERANCE_def coin_states_to_records_def)
  from puzzle_hash_answer_anchored [OF q] peak q show ?thesis by auto
qed

lemma collect_results_all:
  "(\<And>x. x \<in> set xs \<Longrightarrow> f (g x) = Inr x) \<Longrightarrow> collect_results f (map g xs) = Inr xs"
  by (induction xs) auto

lemma to_protocol_coin_spend_roundtrip:
  assumes "hex_ok hx" "length (pc_parent_coin_info (pcs_coin s)) = 32" "length (pc_puzzle_hash (pcs_coin s)) = 32"
  shows "to_protocol_coin_spend hx (make_coin_spend hx (pcs_coin s) (pcs_puzzle_reveal s) (pcs_solution s)) = Inr s"
proof -
  have dec: "parse_hex hx (''0x'' @ hex_encode hx b) = Inr b" for b
    using assms(1) unfolding parse_hex_def strip_0x by (simp add: hex_ok_def)
  show ?thesis
    using assms(2,3)
    unfolding to_protocol_coin_spend_def make_coin_spend_def from_protocol_def hex_bytes_def
      coin_spend.simps coin.simps parse_bytes32_def dec
    by simp
qed

text \<open>C24: What is transmitted is what was signed. A bundle rendered in the crate's hex form converts
  back to exactly the protocol bundle it was rendered from: the same spends in the same order,
  each with its coin, puzzle and solution, under the same signature.\<close>

theorem bundle_roundtrip:
  assumes "hex_ok hx" "length (pb_aggregated_signature b) = 96"
    and "bls_signature w (pb_aggregated_signature b) = Inr (pb_aggregated_signature b)"
    and "\<forall>s \<in> set (pb_coin_spends b). length (pc_parent_coin_info (pcs_coin s)) = 32 \<and>
      length (pc_puzzle_hash (pcs_coin s)) = 32"
  shows "to_protocol_spend_bundle hx w
      \<lparr>coin_spends = map (\<lambda>s. make_coin_spend hx (pcs_coin s) (pcs_puzzle_reveal s) (pcs_solution s))
         (pb_coin_spends b),
       aggregated_signature = hex_bytes hx (pb_aggregated_signature b)\<rparr> = Inr b"
proof -
  have dec: "parse_hex hx (hex_bytes hx x) = Inr x" for x
    using assms(1) unfolding parse_hex_def hex_bytes_def strip_0x by (simp add: hex_ok_def)
  have "collect_results (to_protocol_coin_spend hx)
      (map (\<lambda>s. make_coin_spend hx (pcs_coin s) (pcs_puzzle_reveal s) (pcs_solution s)) (pb_coin_spends b)) =
    Inr (pb_coin_spends b)"
    by (rule collect_results_all, rule to_protocol_coin_spend_roundtrip) (use assms(1,4) in auto)
  then show ?thesis
    using assms(2,3) by (simp add: to_protocol_spend_bundle_def dec)
qed

lemma bundle_roundtrip_witness:
  "to_protocol_spend_bundle example_codec example_wire
     \<lparr>coin_spends = [make_coin_spend example_codec
        \<lparr>pc_parent_coin_info = replicate 32 1, pc_puzzle_hash = replicate 32 2, pc_amount = 3\<rparr> [4] [5]],
      aggregated_signature = hex_bytes example_codec (replicate 96 6)\<rparr> =
   Inr \<lparr>pb_coin_spends = [\<lparr>pcs_coin = \<lparr>pc_parent_coin_info = replicate 32 1, pc_puzzle_hash = replicate 32 2,
          pc_amount = 3\<rparr>, pcs_puzzle_reveal = [4], pcs_solution = [5]\<rparr>],
        pb_aggregated_signature = replicate 96 6\<rparr>"
proof -
  let ?b = "\<lparr>pb_coin_spends = [\<lparr>pcs_coin = \<lparr>pc_parent_coin_info = replicate 32 1, pc_puzzle_hash = replicate 32 2,
          pc_amount = 3\<rparr>, pcs_puzzle_reveal = [4], pcs_solution = [5]\<rparr>],
        pb_aggregated_signature = replicate 96 6\<rparr>"
  have "bls_signature example_wire (pb_aggregated_signature ?b) = Inr (pb_aggregated_signature ?b)"
    by (simp add: example_wire_def)
  from bundle_roundtrip [OF example_codec_ok _ this] show ?thesis by simp
qed

text \<open>What the coin-state read does not check: the record it returns is of whatever coin the peer
  put first, related or not to the coin that was asked about.\<close>

lemma coin_record_is_not_bound:
  assumes "parse_bytes32 hx name = Inr i"
    and "w_coin_state w p [i] None (genesis_challenge w) False = Reply (cs # rest)"
  shows "do_get_coin_record_by_name_opt hx w name p = Inr (Some (coin_state_to_record hx cs))"
  using assms by (simp add: do_get_coin_record_by_name_opt_def request_coin_state_def first_of_def)

end
