(* ===== verification/Coinset.thy ===== *)
theory Coinset
  imports Translate
begin

text \<open>
  \<open>src/coinset/\<close>: the client of the coinset HTTP API and its native transport. The HTTP stack
  (\<open>reqwest\<close>) and \<open>serde\<close>'s generated conversions are parameters. A call threads the state of
  the outside world, which decides what the API answers; \<open>None\<close> is a call that does not return
  because it panics.
\<close>

section \<open>Calls\<close>

type_synonym ('s, 'a) call = "'s \<Rightarrow> ('a query \<times> 's) option"

definition ret :: "'a query \<Rightarrow> ('s, 'a) call" where
  "ret r s = Some (r, s)"

text \<open>\<open>call.await?\<close> and what follows it.\<close>

definition bind_call :: "('s, 'a) call \<Rightarrow> ('a \<Rightarrow> ('s, 'b) call) \<Rightarrow> ('s, 'b) call" where
  "bind_call c f s =
     (case c s of
        None \<Rightarrow> None
      | Some (Inl e, s) \<Rightarrow> Some (Inl e, s)
      | Some (Inr x, s) \<Rightarrow> f x s)"

text \<open>\<open>match call.await\<close>, both results in hand.\<close>

definition match_call :: "('s, 'a) call \<Rightarrow> ('a query \<Rightarrow> ('s, 'b) call) \<Rightarrow> ('s, 'b) call" where
  "match_call c f s = (case c s of None \<Rightarrow> None | Some (r, s) \<Rightarrow> f r s)"

lemma bind_call_match: "bind_call c f = match_call c (\<lambda>r. case r of Inl e \<Rightarrow> ret (Inl e) | Inr x \<Rightarrow> f x)"
  by (rule ext) (auto simp: bind_call_def match_call_def ret_def split: option.split sum.split)

lemma ret_Some [simp]: "ret r s = Some (q, s') \<longleftrightarrow> q = r \<and> s' = s"
  by (auto simp: ret_def)

lemma bind_call_Inr:
  "bind_call c f s = Some (Inr v, s'') \<longleftrightarrow> (\<exists>x s'. c s = Some (Inr x, s') \<and> f x s' = Some (Inr v, s''))"
  by (auto simp: bind_call_def split: option.splits sum.splits)

section \<open>The native transport\<close>

definition MAX_RESPONSE_BYTES :: nat where
  "MAX_RESPONSE_BYTES = 256 * 1024 * 1024"

definition content_length_within_cap :: "u64 option \<Rightarrow> nat \<Rightarrow> bool" where
  "content_length_within_cap len cap = (case len of Some n \<Rightarrow> unat n \<le> cap | None \<Rightarrow> True)"

definition accumulate_within_cap :: "nat \<Rightarrow> nat \<Rightarrow> nat \<Rightarrow> nat query" where
  "accumulate_within_cap current chunk cap =
     (let next_len = sat_add_usize current chunk
      in if cap < next_len
         then Inl (CoinsetHttp (''coinset response exceeded the '' @ dec cap @ ''-byte cap''))
         else Inr next_len)"

text \<open>What \<open>send\<close> brings back: the advertised length and the body as it streams in.\<close>

record http_response =
  content_length :: "u64 option"
  body_chunks :: "(string + bytes) list"

fun stream_body :: "bytes \<Rightarrow> (string + bytes) list \<Rightarrow> bytes query" where
  "stream_body buf [] = Inr buf"
| "stream_body buf (Inl e # chunks) = Inl (CoinsetHttp e)"
| "stream_body buf (Inr chunk # chunks) =
     (case accumulate_within_cap (length buf) (length chunk) MAX_RESPONSE_BYTES of
        Inl e \<Rightarrow> Inl e
      | Inr _ \<Rightarrow> stream_body (buf @ chunk) chunks)"

definition reqwest_post_json ::
  "(bytes \<Rightarrow> string + json) \<Rightarrow> string + http_response \<Rightarrow> json query" where
  "reqwest_post_json parse sent =
     rbind (map_err CoinsetHttp sent) (\<lambda>resp.
       if \<not> content_length_within_cap (content_length resp) MAX_RESPONSE_BYTES
       then Inl (CoinsetHttp (''coinset response Content-Length exceeds the '' @ dec MAX_RESPONSE_BYTES @
              ''-byte cap''))
       else rbind (stream_body [] (body_chunks resp)) (\<lambda>buf. map_err CoinsetHttp (parse buf)))"

lemma stream_body_Inr:
  "stream_body buf chunks = Inr b \<Longrightarrow> length buf \<le> MAX_RESPONSE_BYTES \<Longrightarrow>
     length b \<le> MAX_RESPONSE_BYTES \<and> (\<exists>cs. chunks = map Inr cs \<and> b = buf @ concat cs)"
proof (induction buf chunks rule: stream_body.induct)
  case (3 buf chunk chunks)
  have fits: "length (buf @ chunk) \<le> MAX_RESPONSE_BYTES"
    and rest: "stream_body (buf @ chunk) chunks = Inr b"
    using 3(2) by (auto simp: accumulate_within_cap_def Let_def sat_add_usize_def usize_max_def
        MAX_RESPONSE_BYTES_def min_def split: if_splits)
  have acc: "accumulate_within_cap (length buf) (length chunk) MAX_RESPONSE_BYTES =
      Inr (sat_add_usize (length buf) (length chunk))"
    using 3(2) by (auto simp: accumulate_within_cap_def Let_def split: if_splits)
  from 3(1) [OF acc rest fits] obtain cs where
    "length b \<le> MAX_RESPONSE_BYTES" "chunks = map Inr cs" "b = (buf @ chunk) @ concat cs" by blast
  then have "Inr chunk # chunks = map Inr (chunk # cs)" "b = buf @ concat (chunk # cs)" by simp_all
  with \<open>length b \<le> MAX_RESPONSE_BYTES\<close> show ?case by (intro conjI exI [of _ "chunk # cs"])
qed auto

text \<open>However a hostile endpoint sizes and splits its body, what is parsed is the whole body and
  within the cap.\<close>

lemma response_is_bounded:
  assumes "reqwest_post_json parse (Inr resp) = Inr j"
  shows "\<exists>cs. body_chunks resp = map Inr cs \<and> parse (concat cs) = Inr j \<and>
    length (concat cs) \<le> MAX_RESPONSE_BYTES"
proof -
  obtain buf where "stream_body [] (body_chunks resp) = Inr buf" "parse buf = Inr j"
    using assms by (auto simp: reqwest_post_json_def result_Inr split: if_splits)
  with stream_body_Inr [OF this(1)] show ?thesis by auto
qed

section \<open>The client\<close>

text \<open>\<open>HttpTransport::post_json\<close> is \<open>post_json\<close>.\<close>

record 's coinset_client =
  transport_post :: "string \<Rightarrow> json \<Rightarrow> ('s, json) call"
  base_url :: string

record block_count_metrics =
  compact_blocks :: u64
  uncompact_blocks :: u64
  hint_count :: u64

record blockchain_state =
  node_id :: string
  difficulty :: u64
  genesis_challenge_initialized :: bool
  bs_mempool_size :: u64
  mempool_cost :: u64
  bs_mempool_fees :: u64
  mempool_min_fees :: json
  mempool_max_total_cost :: u64
  block_max_cost :: u64
  bs_peak :: "block_record option"
  space :: u64
  sub_slot_iters :: u64
  average_block_time :: "f64_bits option"
  bs_sync :: "sync_state option"

text \<open>\<open>serde_json::from_value\<close> at each type the client reads, and \<open>to_value\<close> of what it writes.\<close>

record serde =
  de_json :: "json \<Rightarrow> string + json"
  de_jsons :: "json \<Rightarrow> string + json list"
  de_json_map :: "json \<Rightarrow> string + (string \<times> json) list"
  de_strings :: "json \<Rightarrow> string + string list"
  de_string :: "json \<Rightarrow> string + string"
  de_u64 :: "json \<Rightarrow> string + u64"
  de_coin_record :: "json \<Rightarrow> string + coin_record"
  de_coin_records :: "json \<Rightarrow> string + coin_record list"
  de_coin_spend :: "json \<Rightarrow> string + coin_spend"
  de_coin_spends :: "json \<Rightarrow> string + coin_spend list"
  de_conditions :: "json \<Rightarrow> string + condition list"
  de_spends_with_conditions :: "json \<Rightarrow> string + coin_spend_with_conditions list"
  de_block_record :: "json \<Rightarrow> string + block_record"
  de_block_records :: "json \<Rightarrow> string + block_record list"
  de_metrics :: "json \<Rightarrow> string + block_count_metrics"
  de_fee_estimate :: "json \<Rightarrow> string + fee_estimate"
  de_network_info :: "json \<Rightarrow> string + network_info"
  de_blockchain_state :: "json \<Rightarrow> string + blockchain_state"
  ser_bundle :: "spend_bundle \<Rightarrow> string + json"

definition with_transport :: "string \<Rightarrow> (string \<Rightarrow> json \<Rightarrow> ('s, json) call) \<Rightarrow> 's coinset_client" where
  "with_transport url t = \<lparr>transport_post = t, base_url = trim_end_matches CHR ''/'' url\<rparr>"

definition coinset_status_to_tx_status :: "string \<Rightarrow> string option \<Rightarrow> tx_status" where
  "coinset_status_to_tx_status status err =
     (let inclusion = (if status = ''SUCCESS'' then Admitted
                       else if status = ''PENDING'' then NotAdmitted
                       else if status = ''FAILED'' then Failed else Unknown)
      in \<lparr>tx_label = status, tx_success = is_admitted inclusion, tx_inclusion = inclusion, tx_error = err\<rparr>)"

definition obj :: "(string \<times> json) list \<Rightarrow> json" where
  "obj kvs = JObject (bt_collect kvs)"

text \<open>\<open>json[key]\<close>: null when there is no such field.\<close>

definition json_index :: "json \<Rightarrow> string \<Rightarrow> json" where
  "json_index j k = (case json_get j k of None \<Rightarrow> JNull | Some v \<Rightarrow> v)"

section \<open>Error envelopes\<close>

definition non_empty_str :: "json option \<Rightarrow> string option" where
  "non_empty_str v =
     (case v of
        None \<Rightarrow> None
      | Some j \<Rightarrow>
          (case as_str j of
             None \<Rightarrow> None
           | Some s \<Rightarrow> if trim s = [] then None else Some (trim s)))"

definition structured_error_message :: "json option \<Rightarrow> string option" where
  "structured_error_message v =
     (case v of
        None \<Rightarrow> None
      | Some j \<Rightarrow>
          (case j of
             JString s \<Rightarrow> if trim s \<noteq> [] then Some s else None
           | JObject m \<Rightarrow>
               (case non_empty_str (bt_get m ''message'') of
                  Some s \<Rightarrow> Some s
                | None \<Rightarrow> non_empty_str (bt_get m ''error''))
           | _ \<Rightarrow> None))"

definition coinset_error_message :: "json \<Rightarrow> string" where
  "coinset_error_message j =
     (case structured_error_message (json_get j ''structuredError'') of
        Some s \<Rightarrow> s
      | None \<Rightarrow>
          (case non_empty_str (json_get j ''error'') of Some s \<Rightarrow> s | None \<Rightarrow> ''unknown error''))"

definition optional_field :: "(json \<Rightarrow> string + 'a) \<Rightarrow> json \<Rightarrow> string \<Rightarrow> 'a option query" where
  "optional_field de j key =
     (case json_get j key of
        None \<Rightarrow> Inr None
      | Some JNull \<Rightarrow> Inr None
      | Some present \<Rightarrow>
          map_err (\<lambda>e. CoinsetApiError (''parse `'' @ key @ ''`: '' @ e)) (map_ok Some (de present)))"

section \<open>The post helpers\<close>

definition post_raw :: "'s coinset_client \<Rightarrow> string \<Rightarrow> json \<Rightarrow> ('s, json) call" where
  "post_raw c endpoint body = transport_post c (base_url c @ ''/'' @ endpoint) body"

definition post :: "'s coinset_client \<Rightarrow> string \<Rightarrow> json \<Rightarrow> ('s, json) call" where
  "post c endpoint body = bind_call (post_raw c endpoint body) (\<lambda>j. ret
     (if Option.bind (json_get j ''success'') as_bool \<noteq> Some True
      then Inl (CoinsetApiError (coinset_error_message j))
      else Inr j))"

definition post_extract ::
  "'s coinset_client \<Rightarrow> (json \<Rightarrow> string + 'a) \<Rightarrow> string \<Rightarrow> json \<Rightarrow> string \<Rightarrow> ('s, 'a) call" where
  "post_extract c de endpoint body key = bind_call (post c endpoint body) (\<lambda>j. ret
     (map_err (\<lambda>e. CoinsetApiError (''parse `'' @ key @ ''`: '' @ e)) (de (json_index j key))))"

definition post_extract_opt ::
  "'s coinset_client \<Rightarrow> (json \<Rightarrow> string + 'a) \<Rightarrow> string \<Rightarrow> json \<Rightarrow> string \<Rightarrow> ('s, 'a option) call" where
  "post_extract_opt c de endpoint body key =
     bind_call (post c endpoint body) (\<lambda>j. ret (optional_field de j key))"

text \<open>Absence is only ever read from a success envelope whose field is null or missing; every
  failure stays a failure.\<close>

lemma post_Inr:
  "post c endpoint body s = Some (Inr j, s') \<longleftrightarrow>
     post_raw c endpoint body s = Some (Inr j, s') \<and> Option.bind (json_get j ''success'') as_bool = Some True"
  by (auto simp: post_def bind_call_Inr split: if_splits)

lemma optional_field_None:
  "optional_field de j key = Inr None \<longleftrightarrow> json_get j key = None \<or> json_get j key = Some JNull"
  by (auto simp: optional_field_def map_err_Inr map_ok_Inr split: option.splits json.splits)


section \<open>Endpoints\<close>

definition opt_u32 :: "u32 option \<Rightarrow> json" where
  "opt_u32 x = (case x of None \<Rightarrow> JNull | Some n \<Rightarrow> JNumber (uint n))"

definition cs_get_block :: "'s coinset_client \<Rightarrow> serde \<Rightarrow> string \<Rightarrow> ('s, json) call" where
  "cs_get_block c sd header_hash =
     post_extract c (de_json sd) ''get_block''
       (obj [(''header_hash'', JString header_hash)]) ''block''"

definition cs_get_block_count_metrics :: "'s coinset_client \<Rightarrow> serde \<Rightarrow> ('s, block_count_metrics) call" where
  "cs_get_block_count_metrics c sd =
     post_extract c (de_metrics sd) ''get_block_count_metrics''
       (obj []) ''metrics''"

definition cs_get_block_record :: "'s coinset_client \<Rightarrow> serde \<Rightarrow> string \<Rightarrow> ('s, block_record) call" where
  "cs_get_block_record c sd header_hash =
     post_extract c (de_block_record sd) ''get_block_record''
       (obj [(''header_hash'', JString header_hash)]) ''block_record''"

definition cs_get_block_record_by_height :: "'s coinset_client \<Rightarrow> serde \<Rightarrow> u32 \<Rightarrow> ('s, block_record) call" where
  "cs_get_block_record_by_height c sd h =
     post_extract c (de_block_record sd) ''get_block_record_by_height''
       (obj [(''height'', JNumber (uint h))]) ''block_record''"

definition cs_get_block_record_by_height_opt :: "'s coinset_client \<Rightarrow> serde \<Rightarrow> u32 \<Rightarrow> ('s, block_record option) call" where
  "cs_get_block_record_by_height_opt c sd h =
     post_extract_opt c (de_block_record sd) ''get_block_record_by_height''
       (obj [(''height'', JNumber (uint h))]) ''block_record''"

definition cs_get_block_records :: "'s coinset_client \<Rightarrow> serde \<Rightarrow> u32 \<Rightarrow> u32 \<Rightarrow> ('s, block_record list) call" where
  "cs_get_block_records c sd s e =
     post_extract c (de_block_records sd) ''get_block_records''
       (obj [(''start'', JNumber (uint s)), (''end'', JNumber (uint e))]) ''block_records''"

definition cs_get_block_spends :: "'s coinset_client \<Rightarrow> serde \<Rightarrow> string \<Rightarrow> ('s, coin_spend list) call" where
  "cs_get_block_spends c sd header_hash =
     post_extract c (de_coin_spends sd) ''get_block_spends''
       (obj [(''header_hash'', JString header_hash)]) ''block_spends''"

definition cs_get_block_spends_with_conditions :: "'s coinset_client \<Rightarrow> serde \<Rightarrow> string \<Rightarrow> ('s, coin_spend_with_conditions list) call" where
  "cs_get_block_spends_with_conditions c sd header_hash =
     post_extract c (de_spends_with_conditions sd) ''get_block_spends_with_conditions''
       (obj [(''header_hash'', JString header_hash)]) ''block_spends_with_conditions''"

definition cs_get_blocks :: "'s coinset_client \<Rightarrow> serde \<Rightarrow> u32 \<Rightarrow> u32 \<Rightarrow> bool \<Rightarrow> bool \<Rightarrow> ('s, json list) call" where
  "cs_get_blocks c sd s e hash_out reorged_out =
     post_extract c (de_jsons sd) ''get_blocks''
       (obj [(''start'', JNumber (uint s)), (''end'', JNumber (uint e)), (''exclude_header_hash'', JBool hash_out), (''exclude_reorged'', JBool reorged_out)]) ''blocks''"

definition cs_get_unfinished_block_headers :: "'s coinset_client \<Rightarrow> serde \<Rightarrow> ('s, json list) call" where
  "cs_get_unfinished_block_headers c sd =
     post_extract c (de_jsons sd) ''get_unfinished_block_headers''
       (obj []) ''headers''"

definition cs_get_coin_record_by_name :: "'s coinset_client \<Rightarrow> serde \<Rightarrow> string \<Rightarrow> ('s, coin_record) call" where
  "cs_get_coin_record_by_name c sd name =
     post_extract c (de_coin_record sd) ''get_coin_record_by_name''
       (obj [(''name'', JString name)]) ''coin_record''"

definition cs_get_coin_record_by_name_opt :: "'s coinset_client \<Rightarrow> serde \<Rightarrow> string \<Rightarrow> ('s, coin_record option) call" where
  "cs_get_coin_record_by_name_opt c sd name =
     post_extract_opt c (de_coin_record sd) ''get_coin_record_by_name''
       (obj [(''name'', JString name)]) ''coin_record''"

definition cs_get_coin_records_by_hint :: "'s coinset_client \<Rightarrow> serde \<Rightarrow> string \<Rightarrow> u32 option \<Rightarrow> u32 option \<Rightarrow> bool \<Rightarrow> ('s, coin_record list) call" where
  "cs_get_coin_records_by_hint c sd q s e incl =
     post_extract c (de_coin_records sd) ''get_coin_records_by_hint''
       (obj [(''hint'', JString q), (''start_height'', opt_u32 s), (''end_height'', opt_u32 e), (''include_spent_coins'', JBool incl)]) ''coin_records''"

definition cs_get_coin_records_by_hints :: "'s coinset_client \<Rightarrow> serde \<Rightarrow> string list \<Rightarrow> u32 option \<Rightarrow> u32 option \<Rightarrow> bool \<Rightarrow> ('s, coin_record list) call" where
  "cs_get_coin_records_by_hints c sd q s e incl =
     post_extract c (de_coin_records sd) ''get_coin_records_by_hints''
       (obj [(''hints'', JArray (map JString q)), (''start_height'', opt_u32 s), (''end_height'', opt_u32 e), (''include_spent_coins'', JBool incl)]) ''coin_records''"

definition cs_get_coin_records_by_names :: "'s coinset_client \<Rightarrow> serde \<Rightarrow> string list \<Rightarrow> u32 option \<Rightarrow> u32 option \<Rightarrow> bool \<Rightarrow> ('s, coin_record list) call" where
  "cs_get_coin_records_by_names c sd q s e incl =
     post_extract c (de_coin_records sd) ''get_coin_records_by_names''
       (obj [(''names'', JArray (map JString q)), (''start_height'', opt_u32 s), (''end_height'', opt_u32 e), (''include_spent_coins'', JBool incl)]) ''coin_records''"

definition cs_get_coin_records_by_parent_ids :: "'s coinset_client \<Rightarrow> serde \<Rightarrow> string list \<Rightarrow> u32 option \<Rightarrow> u32 option \<Rightarrow> bool \<Rightarrow> ('s, coin_record list) call" where
  "cs_get_coin_records_by_parent_ids c sd q s e incl =
     post_extract c (de_coin_records sd) ''get_coin_records_by_parent_ids''
       (obj [(''parent_ids'', JArray (map JString q)), (''start_height'', opt_u32 s), (''end_height'', opt_u32 e), (''include_spent_coins'', JBool incl)]) ''coin_records''"

definition cs_get_coin_records_by_puzzle_hash :: "'s coinset_client \<Rightarrow> serde \<Rightarrow> string \<Rightarrow> u32 option \<Rightarrow> u32 option \<Rightarrow> bool \<Rightarrow> ('s, coin_record list) call" where
  "cs_get_coin_records_by_puzzle_hash c sd q s e incl =
     post_extract c (de_coin_records sd) ''get_coin_records_by_puzzle_hash''
       (obj [(''puzzle_hash'', JString q), (''start_height'', opt_u32 s), (''end_height'', opt_u32 e), (''include_spent_coins'', JBool incl)]) ''coin_records''"

definition cs_get_coin_records_by_puzzle_hashes :: "'s coinset_client \<Rightarrow> serde \<Rightarrow> string list \<Rightarrow> u32 option \<Rightarrow> u32 option \<Rightarrow> bool \<Rightarrow> ('s, coin_record list) call" where
  "cs_get_coin_records_by_puzzle_hashes c sd q s e incl =
     post_extract c (de_coin_records sd) ''get_coin_records_by_puzzle_hashes''
       (obj [(''puzzle_hashes'', JArray (map JString q)), (''start_height'', opt_u32 s), (''end_height'', opt_u32 e), (''include_spent_coins'', JBool incl)]) ''coin_records''"

definition cs_get_memos_by_coin_name :: "'s coinset_client \<Rightarrow> serde \<Rightarrow> string \<Rightarrow> ('s, json) call" where
  "cs_get_memos_by_coin_name c sd name =
     post_extract c (de_json sd) ''get_memos_by_coin_name''
       (obj [(''name'', JString name)]) ''memos''"

definition cs_get_puzzle_and_solution :: "'s coinset_client \<Rightarrow> serde \<Rightarrow> string \<Rightarrow> u32 option \<Rightarrow> ('s, coin_spend) call" where
  "cs_get_puzzle_and_solution c sd coin_id h =
     post_extract c (de_coin_spend sd) ''get_puzzle_and_solution''
       (obj [(''coin_id'', JString coin_id), (''height'', opt_u32 h)]) ''coin_solution''"

definition cs_get_puzzle_and_solution_opt :: "'s coinset_client \<Rightarrow> serde \<Rightarrow> string \<Rightarrow> u32 option \<Rightarrow> ('s, coin_spend option) call" where
  "cs_get_puzzle_and_solution_opt c sd coin_id h =
     post_extract_opt c (de_coin_spend sd) ''get_puzzle_and_solution''
       (obj [(''coin_id'', JString coin_id), (''height'', opt_u32 h)]) ''coin_solution''"

definition cs_get_aggsig_additional_data :: "'s coinset_client \<Rightarrow> serde \<Rightarrow> ('s, string) call" where
  "cs_get_aggsig_additional_data c sd =
     post_extract c (de_string sd) ''get_aggsig_additional_data''
       (obj []) ''additional_data''"

definition cs_get_blockchain_state :: "'s coinset_client \<Rightarrow> serde \<Rightarrow> ('s, blockchain_state) call" where
  "cs_get_blockchain_state c sd =
     post_extract c (de_blockchain_state sd) ''get_blockchain_state''
       (obj []) ''blockchain_state''"

definition cs_get_network_space :: "'s coinset_client \<Rightarrow> serde \<Rightarrow> string \<Rightarrow> string \<Rightarrow> ('s, u64) call" where
  "cs_get_network_space c sd newer older =
     post_extract c (de_u64 sd) ''get_network_space''
       (obj [(''newer_block_header_hash'', JString newer), (''older_block_header_hash'', JString older)]) ''space''"

definition cs_get_all_mempool_items :: "'s coinset_client \<Rightarrow> serde \<Rightarrow> ('s, (string \<times> json) list) call" where
  "cs_get_all_mempool_items c sd =
     post_extract c (de_json_map sd) ''get_all_mempool_items''
       (obj []) ''mempool_items''"

definition cs_get_all_mempool_tx_ids :: "'s coinset_client \<Rightarrow> serde \<Rightarrow> ('s, string list) call" where
  "cs_get_all_mempool_tx_ids c sd =
     post_extract c (de_strings sd) ''get_all_mempool_tx_ids''
       (obj []) ''tx_ids''"

definition cs_get_mempool_item_by_tx_id :: "'s coinset_client \<Rightarrow> serde \<Rightarrow> string \<Rightarrow> ('s, json) call" where
  "cs_get_mempool_item_by_tx_id c sd tx_id =
     post_extract c (de_json sd) ''get_mempool_item_by_tx_id''
       (obj [(''tx_id'', JString tx_id)]) ''mempool_item''"

definition cs_get_additions_and_removals ::
  "'s coinset_client \<Rightarrow> serde \<Rightarrow> string \<Rightarrow> ('s, additions_and_removals) call" where
  "cs_get_additions_and_removals c sd header_hash =
     bind_call (post c ''get_additions_and_removals'' (obj [(''header_hash'', JString header_hash)])) (\<lambda>j. ret
       (rbind (map_err CoinsetApiError (de_coin_records sd (json_index j ''additions''))) (\<lambda>adds.
        rbind (map_err CoinsetApiError (de_coin_records sd (json_index j ''removals''))) (\<lambda>rems.
          Inr \<lparr>additions = adds, removals = rems\<rparr>))))"

text \<open>Conditions that do not parse are taken to be none.\<close>

definition cs_get_puzzle_and_solution_with_conditions ::
  "'s coinset_client \<Rightarrow> serde \<Rightarrow> string \<Rightarrow> u32 option \<Rightarrow> ('s, coin_spend_with_conditions) call" where
  "cs_get_puzzle_and_solution_with_conditions c sd coin_id h =
     bind_call (post c ''get_puzzle_and_solution_with_conditions''
       (obj [(''coin_id'', JString coin_id), (''height'', opt_u32 h)])) (\<lambda>j. ret
       (rbind (map_err CoinsetApiError (de_coin_spend sd (json_index j ''coin_solution''))) (\<lambda>sp.
          Inr \<lparr>cond_spend = sp,
               conditions = (case de_conditions sd (json_index j ''conditions'') of Inl _ \<Rightarrow> [] | Inr cs \<Rightarrow> cs)\<rparr>)))"

text \<open>\<open>json!\<close> panics on a bundle that does not serialise.\<close>

definition cs_push_tx :: "'s coinset_client \<Rightarrow> serde \<Rightarrow> spend_bundle \<Rightarrow> ('s, tx_status) call" where
  "cs_push_tx c sd bundle s =
     (case ser_bundle sd bundle of
        Inl _ \<Rightarrow> None
      | Inr b \<Rightarrow>
          bind_call (post c ''push_tx'' (obj [(''spend_bundle'', b)])) (\<lambda>j. ret (Inr
            (coinset_status_to_tx_status
              (case as_str (json_index j ''status'') of None \<Rightarrow> ''UNKNOWN'' | Some t \<Rightarrow> t)
              (as_str (json_index j ''error''))))) s)"

definition cs_get_fee_estimate ::
  "'s coinset_client \<Rightarrow> serde \<Rightarrow> spend_bundle option \<Rightarrow> u64 list option \<Rightarrow> u64 option \<Rightarrow>
   ('s, fee_estimate) call" where
  "cs_get_fee_estimate c sd bundle targets n_spends =
     (case (case bundle of
              None \<Rightarrow> Inr []
            | Some b \<Rightarrow> map_ok (\<lambda>j. [(''spend_bundle'', j)]) (map_err InvalidRequest (ser_bundle sd b))) of
        Inl e \<Rightarrow> ret (Inl e)
      | Inr sb \<Rightarrow>
          bind_call (post c ''get_fee_estimate'' (obj ([(''cost'', JNumber 1)] @ sb @
            (case targets of None \<Rightarrow> [] | Some ts \<Rightarrow> [(''target_times'', JArray (map (\<lambda>t. JNumber (uint t)) ts))]) @
            (case n_spends of None \<Rightarrow> [] | Some n \<Rightarrow> [(''spend_count'', JNumber (uint n))])))) (\<lambda>j. ret
            (map_err (\<lambda>e. CoinsetApiError (''parse fee_estimate: '' @ e)) (de_fee_estimate sd j))))"

definition cs_get_network_info :: "'s coinset_client \<Rightarrow> serde \<Rightarrow> ('s, network_info) call" where
  "cs_get_network_info c sd =
     bind_call (post c ''get_network_info'' (obj [])) (\<lambda>j. ret
       (map_err (\<lambda>e. CoinsetApiError (''parse network_info: '' @ e)) (de_network_info sd j)))"

definition cs_get_mempool_items_by_coin_name ::
  "'s coinset_client \<Rightarrow> serde \<Rightarrow> string \<Rightarrow> bool option \<Rightarrow> ('s, json list) call" where
  "cs_get_mempool_items_by_coin_name c sd coin_name incl =
     post_extract c (de_jsons sd) ''get_mempool_items_by_coin_name''
       (obj ([(''coin_name'', JString coin_name)] @
         (case incl of None \<Rightarrow> [] | Some b \<Rightarrow> [(''include_spent_coins'', JBool b)]))) ''mempool_items''"

section \<open>Properties\<close>

text \<open>C22: Absence is read, never inferred. An absence-aware coinset read answers \<open>None\<close> exactly
  when the endpoint returned an envelope whose \<open>success\<close> is literally true and whose field is
  null or missing; a transport failure, a failure envelope, a missing or non-boolean \<open>success\<close>
  and a field that does not parse are all errors.\<close>

theorem coinset_absence_is_read:
  "post_extract_opt c de endpoint body key s = Some (Inr None, s') \<longleftrightarrow>
     (\<exists>j. post_raw c endpoint body s = Some (Inr j, s') \<and>
        json_get j ''success'' = Some (JBool True) \<and>
        (json_get j key = None \<or> json_get j key = Some JNull))"
proof -
  have "Option.bind v as_bool = Some True \<longleftrightarrow> v = Some (JBool True)" for v
    by (cases v) (auto simp: as_bool_def split: json.splits)
  then show ?thesis
    unfolding post_extract_opt_def bind_call_Inr post_Inr ret_Some eq_commute [of "Inr None"]
      optional_field_None
    by blast
qed

end
