(* ===== verification/Router.thy ===== *)
theory Router
  imports Peer_Requests Coinset
begin

text \<open>
  \<open>src/router.rs\<close>: the peer tier first, one retry, then coinset; and what an answer only one
  source vouches for becomes. The world a router call runs in is the peer pool and whatever
  decides what coinset answers. \<open>None\<close> is a call that does not return.
\<close>

section \<open>The ladder\<close>

text \<open>\<open>peer_then_coinset\<close>.\<close>

definition all_failed :: "chia_query_error \<Rightarrow> chia_query_error \<Rightarrow> chia_query_error" where
  "all_failed peer_err ce = AllSourcesFailed peer_err (Some ce)"

definition peer_then_coinset ::
  "bool \<Rightarrow> ('s, 'a) call \<Rightarrow> ('s, 'a) call \<Rightarrow> ('s, 'a) call \<Rightarrow> ('s, 'a) call" where
  "peer_then_coinset fallback peer_fn peer_retry coinset_fn =
     match_call peer_fn (\<lambda>r. case r of
       Inr v \<Rightarrow> ret (Inr v)
     | Inl _ \<Rightarrow> match_call peer_retry (\<lambda>r. case r of
         Inr v \<Rightarrow> ret (Inr v)
       | Inl peer_err \<Rightarrow>
           if \<not> fallback then ret (Inl peer_err)
           else match_call coinset_fn (\<lambda>r. ret (map_err (all_failed peer_err) r))))"

section \<open>Settling what one source said\<close>

definition settle_uncorroborated_absence :: "'a option query option \<Rightarrow> 'a option query" where
  "settle_uncorroborated_absence coinset =
     (case coinset of
        None \<Rightarrow> Inl (UncorroboratedAbsence
          (''one peer reported absence, no second peer was available, and the coinset fallback is '' @
           ''disabled''))
      | Some (Inr None) \<Rightarrow> Inr None
      | Some (Inr (Some _)) \<Rightarrow>
          Inl (SourcesDisagree ''a peer reports absent, the coinset API reports present'')
      | Some (Inl e) \<Rightarrow> Inl (UncorroboratedAbsence
          (''one peer reported absence and the coinset API could not corroborate it: '' @
           error_to_string e)))"

definition settle_uncorroborated_presence ::
  "('a \<Rightarrow> string) \<Rightarrow> 'a \<Rightarrow> 'a option query option \<Rightarrow> 'a option query" where
  "settle_uncorroborated_presence claim found coinset =
     (case coinset of
        None \<Rightarrow> Inl (UncorroboratedPresence
          (''one peer produced a record, no second peer was available, and the coinset fallback '' @
           ''is disabled''))
      | Some (Inr (Some other)) \<Rightarrow>
          if claim other = claim found then Inr (Some found)
          else Inl (SourcesDisagree (''a peer claims `'' @ claim found @ ''`, the coinset API claims `'' @
                 claim other @ ''`''))
      | Some (Inr None) \<Rightarrow>
          Inl (SourcesDisagree ''a peer reports present, the coinset API reports absent'')
      | Some (Inl e) \<Rightarrow> Inl (UncorroboratedPresence
          (''one peer produced a record and the coinset API could not corroborate it: '' @
           error_to_string e)))"

definition settle_uncorroborated_set ::
  "coin_record list \<Rightarrow> u32 \<Rightarrow> set_projection \<Rightarrow> coin_record list query option \<Rightarrow>
   coin_record corroborated_set query" where
  "settle_uncorroborated_set items as_of projection coinset =
     (case coinset of
        None \<Rightarrow> Inl (UncorroboratedPresence
          (''one peer produced a set, no floor of independent peers agreed with it, and the'' @
           ''                  coinset fallback is disabled''))
      | Some (Inl e) \<Rightarrow> Inl (UncorroboratedPresence
          (''one peer produced a set and the coinset API could not corroborate it: '' @ error_to_string e))
      | Some (Inr raw) \<Rightarrow>
          let theirs = project coin_record_member (normalise_at coin_record_member raw as_of) projection
          in case contradiction ''the peer tier'' (fingerprint coin_record_member items)
                    ''the coinset API'' (fingerprint coin_record_member theirs) of
               None \<Rightarrow> Inr \<lparr>cset_items = items, cset_as_of = as_of\<rparr>
             | Some detail \<Rightarrow>
                 Inl (SourcesDisagree (''at height '' @ show_word as_of @ '': '' @ detail)))"

text \<open>The second voice, asked only when the fallback is enabled.\<close>

definition second_voice ::
  "bool \<Rightarrow> ('s, 'a) call \<Rightarrow> ('a query option \<Rightarrow> 'b query) \<Rightarrow> ('s, 'b) call" where
  "second_voice fallback coinset_fn settle =
     (if fallback then match_call coinset_fn (\<lambda>r. ret (settle (Some r))) else ret (settle None))"

definition settle_peer_answer ::
  "bool \<Rightarrow> ('a \<Rightarrow> string) \<Rightarrow> 'a opt_answer \<Rightarrow> ('s, 'a option) call \<Rightarrow> ('s, 'a option) call" where
  "settle_peer_answer fallback claim answer coinset_fn =
     (case answer of
        Found v \<Rightarrow> ret (Inr (Some v))
      | CorroboratedAbsent \<Rightarrow> ret (Inr None)
      | UncorroboratedFound v \<Rightarrow> second_voice fallback coinset_fn (settle_uncorroborated_presence claim v)
      | UncorroboratedAbsent \<Rightarrow> second_voice fallback coinset_fn settle_uncorroborated_absence)"

definition peer_then_coinset_opt ::
  "bool \<Rightarrow> ('a \<Rightarrow> string) \<Rightarrow> ('s, 'a opt_answer) call \<Rightarrow> ('s, 'a opt_answer) call \<Rightarrow>
   ('s, 'a option) call \<Rightarrow> ('s, 'a option) call" where
  "peer_then_coinset_opt fallback claim peer_fn peer_retry coinset_fn =
     match_call peer_fn (\<lambda>r. case r of
       Inr answer \<Rightarrow> settle_peer_answer fallback claim answer coinset_fn
     | Inl _ \<Rightarrow> match_call peer_retry (\<lambda>r. case r of
         Inr answer \<Rightarrow> settle_peer_answer fallback claim answer coinset_fn
       | Inl peer_err \<Rightarrow>
           if \<not> fallback then ret (Inl peer_err)
           else match_call coinset_fn (\<lambda>r. ret (map_err (all_failed peer_err) r))))"

definition settle_set_answer ::
  "bool \<Rightarrow> coin_record set_answer \<Rightarrow> set_projection \<Rightarrow> ('s, coin_record list) call \<Rightarrow>
   ('s, coin_record corroborated_set) call" where
  "settle_set_answer fallback answer projection coinset_raw =
     (case answer of
        Corroborated items h \<Rightarrow> ret (Inr \<lparr>cset_items = items, cset_as_of = h\<rparr>)
      | Uncorroborated items h \<Rightarrow>
          second_voice fallback coinset_raw (settle_uncorroborated_set items h projection))"

text \<open>\<open>coinset_only_set\<close>: the coinset peak first, then the set, held below that peak.\<close>

definition coinset_only_set ::
  "('s, blockchain_state) call \<Rightarrow> ('s, coin_record list) call \<Rightarrow> set_projection \<Rightarrow> chia_query_error \<Rightarrow>
   ('s, coin_record corroborated_set) call" where
  "coinset_only_set coinset_state coinset_raw projection peer_err =
     match_call coinset_state (\<lambda>r. case r of
       Inl ce \<Rightarrow> ret (Inl (all_failed peer_err ce))
     | Inr state \<Rightarrow>
         (case map_option br_height (bs_peak state) of
            None \<Rightarrow> ret (Inl (all_failed peer_err (CoinsetApiError
              ''the coinset API reports no peak, so its answer cannot be held to a height'')))
          | Some peak \<Rightarrow>
              (case common_height [peak] (end_height projection) of
                 None \<Rightarrow> ret (Inl (all_failed peer_err (CoinsetApiError
                   (''no settled common height exists below the coinset peak '' @ show_word peak))))
               | Some as_of \<Rightarrow>
                   match_call coinset_raw (\<lambda>r. case r of
                     Inl ce \<Rightarrow> ret (Inl (all_failed peer_err ce))
                   | Inr raw \<Rightarrow> ret (Inr
                       \<lparr>cset_items = project coin_record_member
                          (normalise_at coin_record_member raw as_of) projection,
                        cset_as_of = as_of\<rparr>)))))"

definition peer_then_coinset_set ::
  "bool \<Rightarrow> ('s, coin_record set_answer) call \<Rightarrow> ('s, coin_record set_answer) call \<Rightarrow>
   ('s, blockchain_state) call \<Rightarrow> ('s, coin_record list) call \<Rightarrow> set_projection \<Rightarrow>
   ('s, coin_record corroborated_set) call" where
  "peer_then_coinset_set fallback peer_fn peer_retry coinset_state coinset_raw projection =
     match_call peer_fn (\<lambda>r. case r of
       Inr answer \<Rightarrow> settle_set_answer fallback answer projection coinset_raw
     | Inl _ \<Rightarrow> match_call peer_retry (\<lambda>r. case r of
         Inr answer \<Rightarrow> settle_set_answer fallback answer projection coinset_raw
       | Inl peer_err \<Rightarrow>
           if \<not> fallback then ret (Inl peer_err)
           else coinset_only_set coinset_state coinset_raw projection peer_err))"

definition require_coinset :: "bool \<Rightarrow> string \<Rightarrow> unit query" where
  "require_coinset fallback endpoint =
     (if \<not> fallback then Inl (UnsupportedWithoutCoinset endpoint) else Inr ())"

section \<open>The router\<close>

text \<open>\<open>rt_setting k\<close> is the setting of an operation's \<open>k\<close>-th peer call, \<open>rt_range k h\<close> that of
  height \<open>h\<close> in its \<open>k\<close>-th range call. \<open>rt_parse_node\<close> is \<open>clvmr\<close>'s \<open>node_from_bytes\<close>.\<close>

record ('p, 'n, 'h) router =
  rt_hex :: hex_codec
  rt_clvm :: "'n clvm"
  rt_parse_node :: "bytes \<Rightarrow> unit + 'n"
  rt_wire :: "'p wire"
  rt_setting :: "nat \<Rightarrow> 'p setting"
  rt_range :: "nat \<Rightarrow> u32 \<Rightarrow> 'p setting"
  rt_to_value :: "full_block \<Rightarrow> string + json"
  rt_coinset :: "'h coinset_client"
  rt_serde :: serde
  coinset_fallback_enabled :: bool

type_synonym ('p, 'h) world = "'p peer_pool \<times> 'h"

definition on_peer :: "('p peer_pool \<Rightarrow> 'a query \<times> 'p peer_pool) \<Rightarrow> (('p, 'h) world, 'a) call" where
  "on_peer f wd = (case f (fst wd) of (r, pool) \<Rightarrow> Some (r, (pool, snd wd)))"

definition on_peer_opt ::
  "('p peer_pool \<Rightarrow> ('a query \<times> 'p peer_pool) option) \<Rightarrow> (('p, 'h) world, 'a) call" where
  "on_peer_opt f wd = map_option (\<lambda>(r, pool). (r, (pool, snd wd))) (f (fst wd))"

definition on_peer_panic ::
  "('p peer_pool \<Rightarrow> 'a query option \<times> 'p peer_pool) \<Rightarrow> (('p, 'h) world, 'a) call" where
  "on_peer_panic f wd =
     (case f (fst wd) of (r, pool) \<Rightarrow> map_option (\<lambda>q. (q, (pool, snd wd))) r)"

definition on_coinset :: "('h, 'a) call \<Rightarrow> (('p, 'h) world, 'a) call" where
  "on_coinset c wd = map_option (\<lambda>(r, h). (r, (fst wd, h))) (c (snd wd))"

abbreviation fb :: "('p, 'n, 'h) router \<Rightarrow> bool" where
  "fb \<equiv> coinset_fallback_enabled"

text \<open>A coinset endpoint, as a call of the router.\<close>

definition api ::
  "('p, 'n, 'h) router \<Rightarrow> ('h coinset_client \<Rightarrow> serde \<Rightarrow> ('h, 'a) call) \<Rightarrow> (('p, 'h) world, 'a) call" where
  "api rt f = on_coinset (f (rt_coinset rt) (rt_serde rt))"

text \<open>A coinset-only operation.\<close>

definition coinset_only ::
  "('p, 'n, 'h) router \<Rightarrow> string \<Rightarrow> ('h coinset_client \<Rightarrow> serde \<Rightarrow> ('h, 'a) call) \<Rightarrow>
   (('p, 'h) world, 'a) call" where
  "coinset_only rt endpoint f =
     (case require_coinset (fb rt) endpoint of Inl e \<Rightarrow> ret (Inl e) | Inr _ \<Rightarrow> api rt f)"

section \<open>Scalar reads\<close>

definition rt_get_coin_record_by_name_opt ::
  "('p, 'n, 'h) router \<Rightarrow> string \<Rightarrow> (('p, 'h) world, coin_record option) call" where
  "rt_get_coin_record_by_name_opt rt name =
     peer_then_coinset_opt (fb rt) chain_claim_record
       (on_peer (try_get_coin_record_by_name_opt (rt_hex rt) (rt_wire rt) (rt_setting rt 0) name))
       (on_peer (try_get_coin_record_by_name_opt (rt_hex rt) (rt_wire rt) (rt_setting rt 1) name))
       (api rt (\<lambda>c sd. cs_get_coin_record_by_name_opt c sd name))"

definition rt_get_coin_record_by_name ::
  "('p, 'n, 'h) router \<Rightarrow> string \<Rightarrow> (('p, 'h) world, coin_record) call" where
  "rt_get_coin_record_by_name rt name =
     bind_call (rt_get_coin_record_by_name_opt rt name)
       (\<lambda>r. ret (ok_or (PeerRejection (''no coin record for '' @ name)) r))"

definition rt_get_coin_spend_opt ::
  "('p, 'n, 'h) router \<Rightarrow> string \<Rightarrow> (('p, 'h) world, coin_spend option) call" where
  "rt_get_coin_spend_opt rt coin_id =
     peer_then_coinset_opt (fb rt) chain_claim_spend
       (on_peer (try_get_coin_spend_opt (rt_hex rt) (rt_wire rt) (rt_setting rt 0) coin_id))
       (on_peer (try_get_coin_spend_opt (rt_hex rt) (rt_wire rt) (rt_setting rt 1) coin_id))
       (api rt (\<lambda>c sd. cs_get_puzzle_and_solution_opt c sd coin_id None))"

definition rt_get_block_record_by_height_opt ::
  "('p, 'n, 'h) router \<Rightarrow> u32 \<Rightarrow> (('p, 'h) world, block_record option) call" where
  "rt_get_block_record_by_height_opt rt h =
     peer_then_coinset_opt (fb rt) chain_claim_block
       (on_peer (try_get_block_record_by_height_opt (rt_hex rt) (rt_wire rt) (rt_setting rt 0) h))
       (on_peer (try_get_block_record_by_height_opt (rt_hex rt) (rt_wire rt) (rt_setting rt 1) h))
       (api rt (\<lambda>c sd. cs_get_block_record_by_height_opt c sd h))"

definition rt_get_block_record_by_height ::
  "('p, 'n, 'h) router \<Rightarrow> u32 \<Rightarrow> (('p, 'h) world, block_record) call" where
  "rt_get_block_record_by_height rt h =
     bind_call (rt_get_block_record_by_height_opt rt h)
       (\<lambda>r. ret (ok_or (PeerRejection (''no block record at height '' @ show_word h)) r))"

definition rt_block_timestamp_opt ::
  "('p, 'n, 'h) router \<Rightarrow> u32 \<Rightarrow> (('p, 'h) world, u64 option) call" where
  "rt_block_timestamp_opt rt h =
     bind_call (rt_get_block_record_by_height_opt rt h) (\<lambda>r. ret (Inr (Option.bind r br_timestamp)))"

definition rt_get_puzzle_and_solution ::
  "('p, 'n, 'h) router \<Rightarrow> string \<Rightarrow> u32 option \<Rightarrow> (('p, 'h) world, coin_spend) call" where
  "rt_get_puzzle_and_solution rt coin_id height =
     bind_call
       (case height of
          Some h \<Rightarrow>
            peer_then_coinset_opt (fb rt) chain_claim_spend
              (on_peer (try_get_puzzle_and_solution (rt_hex rt) (rt_wire rt) (rt_setting rt 0) coin_id h))
              (on_peer (try_get_puzzle_and_solution (rt_hex rt) (rt_wire rt) (rt_setting rt 1) coin_id h))
              (api rt (\<lambda>c sd. cs_get_puzzle_and_solution_opt c sd coin_id height))
        | None \<Rightarrow> rt_get_coin_spend_opt rt coin_id)
       (\<lambda>r. ret (ok_or (PeerRejection (''no spend for coin '' @ coin_id @ '': it is unknown or unspent'')) r))"

text \<open>\<open>run_puzzle_conditions\<close>: any failure on the way is an empty list.\<close>

definition run_puzzle_conditions :: "('p, 'n, 'h) router \<Rightarrow> coin_spend \<Rightarrow> condition list option" where
  "run_puzzle_conditions rt sp =
     (case (parse_hex (rt_hex rt) (puzzle_reveal sp), parse_hex (rt_hex rt) (solution sp)) of
        (Inr puzzle, Inr sol) \<Rightarrow>
          (case (rt_parse_node rt puzzle, rt_parse_node rt sol) of
             (Inr p, Inr s) \<Rightarrow> spend_conditions (rt_hex rt) (rt_clvm rt) p s
           | _ \<Rightarrow> Some [])
      | _ \<Rightarrow> Some [])"

definition rt_get_puzzle_and_solution_with_conditions ::
  "('p, 'n, 'h) router \<Rightarrow> string \<Rightarrow> u32 option \<Rightarrow> (('p, 'h) world, coin_spend_with_conditions) call" where
  "rt_get_puzzle_and_solution_with_conditions rt coin_id height =
     match_call (rt_get_puzzle_and_solution rt coin_id height) (\<lambda>r. case r of
       Inl _ \<Rightarrow>
         if fb rt then api rt (\<lambda>c sd. cs_get_puzzle_and_solution_with_conditions c sd coin_id height)
         else ret (Inl (PeerRejection ''could not retrieve puzzle and solution''))
     | Inr sp \<Rightarrow>
         (\<lambda>s. map_option (\<lambda>conds. (Inr \<lparr>cond_spend = sp, conditions = conds\<rparr>, s))
                (run_puzzle_conditions rt sp)))"


section \<open>Set reads\<close>

definition projection_of :: "u32 option \<Rightarrow> u32 option \<Rightarrow> bool \<Rightarrow> set_projection" where
  "projection_of s e incl = \<lparr>start_height = s, end_height = e, include_spent = incl\<rparr>"

text \<open>Coinset is asked for the unfiltered set.\<close>

definition rt_get_coin_records_by_hint_graded ::
  "('p, 'n, 'h) router \<Rightarrow> string \<Rightarrow> u32 option \<Rightarrow> u32 option \<Rightarrow> bool \<Rightarrow> (('p, 'h) world, coin_record corroborated_set) call" where
  "rt_get_coin_records_by_hint_graded rt q s e incl =
     peer_then_coinset_set (fb rt)
       (on_peer_opt (try_get_coin_records_by_hint (rt_hex rt) (rt_wire rt) (rt_setting rt 0) q s e incl))
       (on_peer_opt (try_get_coin_records_by_hint (rt_hex rt) (rt_wire rt) (rt_setting rt 1) q s e incl))
       (api rt cs_get_blockchain_state)
       (api rt (\<lambda>c sd. cs_get_coin_records_by_hint c sd q None None True))
       (projection_of s e incl)"

definition rt_get_coin_records_by_hint ::
  "('p, 'n, 'h) router \<Rightarrow> string \<Rightarrow> u32 option \<Rightarrow> u32 option \<Rightarrow> bool \<Rightarrow> (('p, 'h) world, coin_record list) call" where
  "rt_get_coin_records_by_hint rt q s e incl =
     bind_call (rt_get_coin_records_by_hint_graded rt q s e incl) (\<lambda>r. ret (Inr (cset_items r)))"

definition rt_get_coin_records_by_hints_graded ::
  "('p, 'n, 'h) router \<Rightarrow> string list \<Rightarrow> u32 option \<Rightarrow> u32 option \<Rightarrow> bool \<Rightarrow> (('p, 'h) world, coin_record corroborated_set) call" where
  "rt_get_coin_records_by_hints_graded rt q s e incl =
     peer_then_coinset_set (fb rt)
       (on_peer_opt (try_get_coin_records_by_hints (rt_hex rt) (rt_wire rt) (rt_setting rt 0) q s e incl))
       (on_peer_opt (try_get_coin_records_by_hints (rt_hex rt) (rt_wire rt) (rt_setting rt 1) q s e incl))
       (api rt cs_get_blockchain_state)
       (api rt (\<lambda>c sd. cs_get_coin_records_by_hints c sd q None None True))
       (projection_of s e incl)"

definition rt_get_coin_records_by_hints ::
  "('p, 'n, 'h) router \<Rightarrow> string list \<Rightarrow> u32 option \<Rightarrow> u32 option \<Rightarrow> bool \<Rightarrow> (('p, 'h) world, coin_record list) call" where
  "rt_get_coin_records_by_hints rt q s e incl =
     bind_call (rt_get_coin_records_by_hints_graded rt q s e incl) (\<lambda>r. ret (Inr (cset_items r)))"

definition rt_get_coin_records_by_names_graded ::
  "('p, 'n, 'h) router \<Rightarrow> string list \<Rightarrow> u32 option \<Rightarrow> u32 option \<Rightarrow> bool \<Rightarrow> (('p, 'h) world, coin_record corroborated_set) call" where
  "rt_get_coin_records_by_names_graded rt q s e incl =
     peer_then_coinset_set (fb rt)
       (on_peer (try_get_coin_records_by_names (rt_hex rt) (rt_wire rt) (rt_setting rt 0) q s e incl))
       (on_peer (try_get_coin_records_by_names (rt_hex rt) (rt_wire rt) (rt_setting rt 1) q s e incl))
       (api rt cs_get_blockchain_state)
       (api rt (\<lambda>c sd. cs_get_coin_records_by_names c sd q None None True))
       (projection_of s e incl)"

definition rt_get_coin_records_by_names ::
  "('p, 'n, 'h) router \<Rightarrow> string list \<Rightarrow> u32 option \<Rightarrow> u32 option \<Rightarrow> bool \<Rightarrow> (('p, 'h) world, coin_record list) call" where
  "rt_get_coin_records_by_names rt q s e incl =
     bind_call (rt_get_coin_records_by_names_graded rt q s e incl) (\<lambda>r. ret (Inr (cset_items r)))"

definition rt_get_coin_records_by_puzzle_hash_graded ::
  "('p, 'n, 'h) router \<Rightarrow> string \<Rightarrow> u32 option \<Rightarrow> u32 option \<Rightarrow> bool \<Rightarrow> (('p, 'h) world, coin_record corroborated_set) call" where
  "rt_get_coin_records_by_puzzle_hash_graded rt q s e incl =
     peer_then_coinset_set (fb rt)
       (on_peer_opt (try_get_coin_records_by_puzzle_hash (rt_hex rt) (rt_wire rt) (rt_setting rt 0) q s e incl))
       (on_peer_opt (try_get_coin_records_by_puzzle_hash (rt_hex rt) (rt_wire rt) (rt_setting rt 1) q s e incl))
       (api rt cs_get_blockchain_state)
       (api rt (\<lambda>c sd. cs_get_coin_records_by_puzzle_hash c sd q None None True))
       (projection_of s e incl)"

definition rt_get_coin_records_by_puzzle_hash ::
  "('p, 'n, 'h) router \<Rightarrow> string \<Rightarrow> u32 option \<Rightarrow> u32 option \<Rightarrow> bool \<Rightarrow> (('p, 'h) world, coin_record list) call" where
  "rt_get_coin_records_by_puzzle_hash rt q s e incl =
     bind_call (rt_get_coin_records_by_puzzle_hash_graded rt q s e incl) (\<lambda>r. ret (Inr (cset_items r)))"

definition rt_get_coin_records_by_puzzle_hashes_graded ::
  "('p, 'n, 'h) router \<Rightarrow> string list \<Rightarrow> u32 option \<Rightarrow> u32 option \<Rightarrow> bool \<Rightarrow> (('p, 'h) world, coin_record corroborated_set) call" where
  "rt_get_coin_records_by_puzzle_hashes_graded rt q s e incl =
     peer_then_coinset_set (fb rt)
       (on_peer_opt (try_get_coin_records_by_puzzle_hashes (rt_hex rt) (rt_wire rt) (rt_setting rt 0) q s e incl))
       (on_peer_opt (try_get_coin_records_by_puzzle_hashes (rt_hex rt) (rt_wire rt) (rt_setting rt 1) q s e incl))
       (api rt cs_get_blockchain_state)
       (api rt (\<lambda>c sd. cs_get_coin_records_by_puzzle_hashes c sd q None None True))
       (projection_of s e incl)"

definition rt_get_coin_records_by_puzzle_hashes ::
  "('p, 'n, 'h) router \<Rightarrow> string list \<Rightarrow> u32 option \<Rightarrow> u32 option \<Rightarrow> bool \<Rightarrow> (('p, 'h) world, coin_record list) call" where
  "rt_get_coin_records_by_puzzle_hashes rt q s e incl =
     bind_call (rt_get_coin_records_by_puzzle_hashes_graded rt q s e incl) (\<lambda>r. ret (Inr (cset_items r)))"

text \<open>The loop over parents; the \<open>i\<close>-th makes the peer calls \<open>2i\<close> and \<open>2i + 1\<close>.\<close>

definition children_round ::
  "('p, 'n, 'h) router \<Rightarrow> nat \<Rightarrow> string \<Rightarrow> u32 option \<Rightarrow> u32 option \<Rightarrow> bool \<Rightarrow>
   (('p, 'h) world, coin_record corroborated_set) call" where
  "children_round rt i parent s e incl =
     peer_then_coinset_set (fb rt)
       (on_peer (try_get_children (rt_hex rt) (rt_wire rt) (rt_setting rt (2 * i)) parent s e incl))
       (on_peer (try_get_children (rt_hex rt) (rt_wire rt) (rt_setting rt (2 * i + 1)) parent s e incl))
       (api rt cs_get_blockchain_state)
       (api rt (\<lambda>c sd. cs_get_coin_records_by_parent_ids c sd [parent] None None True))
       (projection_of s e incl)"

fun parents_loop ::
  "(nat \<Rightarrow> string \<Rightarrow> ('s, coin_record corroborated_set) call) \<Rightarrow> nat \<Rightarrow> string list \<Rightarrow>
   coin_record list \<Rightarrow> u32 \<Rightarrow> ('s, coin_record list \<times> u32) call" where
  "parents_loop ask i [] items as_of = ret (Inr (items, as_of))"
| "parents_loop ask i (parent # rest) items as_of =
     bind_call (ask i parent) (\<lambda>answer.
       parents_loop ask (Suc i) rest (items @ cset_items answer) (min as_of (cset_as_of answer)))"

definition rt_get_coin_records_by_parent_ids_graded ::
  "('p, 'n, 'h) router \<Rightarrow> string list \<Rightarrow> u32 option \<Rightarrow> u32 option \<Rightarrow> bool \<Rightarrow>
   (('p, 'h) world, coin_record corroborated_set) call" where
  "rt_get_coin_records_by_parent_ids_graded rt parents s e incl =
     bind_call (parents_loop (\<lambda>i parent. children_round rt i parent s e incl) 0 parents [] (- 1)) (\<lambda>(items, as_of).
       ret (Inr \<lparr>cset_items = items, cset_as_of = (if parents = [] then 0 else as_of)\<rparr>))"

definition rt_get_coin_records_by_parent_ids ::
  "('p, 'n, 'h) router \<Rightarrow> string list \<Rightarrow> u32 option \<Rightarrow> u32 option \<Rightarrow> bool \<Rightarrow>
   (('p, 'h) world, coin_record list) call" where
  "rt_get_coin_records_by_parent_ids rt parents s e incl =
     bind_call (rt_get_coin_records_by_parent_ids_graded rt parents s e incl) (\<lambda>r. ret (Inr (cset_items r)))"

section \<open>Blocks\<close>

definition rt_get_block_record ::
  "('p, 'n, 'h) router \<Rightarrow> string \<Rightarrow> (('p, 'h) world, block_record) call" where
  "rt_get_block_record rt header_hash =
     coinset_only rt ''get_block_record'' (\<lambda>c sd. cs_get_block_record c sd header_hash)"

text \<open>The shape of the four reads by header hash: the height from the block record, the peer at
  that height, then coinset.\<close>

definition by_header_hash ::
  "('p, 'n, 'h) router \<Rightarrow> string \<Rightarrow> string \<Rightarrow> (u32 \<Rightarrow> (('p, 'h) world, 'a) call) \<Rightarrow>
   ('h coinset_client \<Rightarrow> serde \<Rightarrow> ('h, 'a) call) \<Rightarrow> (('p, 'h) world, 'a) call" where
  "by_header_hash rt header_hash endpoint peer_fn coinset_fn =
     (let fall_back = (if fb rt then api rt coinset_fn else ret (Inl (UnsupportedWithoutCoinset endpoint)))
      in match_call (rt_get_block_record rt header_hash) (\<lambda>r. case r of
           Inl _ \<Rightarrow> fall_back
         | Inr rec \<Rightarrow> match_call (peer_fn (br_height rec)) (\<lambda>r. case r of
             Inr v \<Rightarrow> ret (Inr v)
           | Inl _ \<Rightarrow> fall_back)))"

definition rt_get_additions_and_removals ::
  "('p, 'n, 'h) router \<Rightarrow> string \<Rightarrow> (('p, 'h) world, additions_and_removals) call" where
  "rt_get_additions_and_removals rt hh =
     by_header_hash rt hh ''get_additions_and_removals''
       (\<lambda>h. on_peer (try_get_additions_and_removals_from_block (rt_hex rt) (rt_clvm rt) (rt_wire rt)
         (rt_setting rt 0) h))
       (\<lambda>c sd. cs_get_additions_and_removals c sd hh)"

definition rt_get_block :: "('p, 'n, 'h) router \<Rightarrow> string \<Rightarrow> (('p, 'h) world, json) call" where
  "rt_get_block rt hh =
     by_header_hash rt hh ''get_block''
       (\<lambda>h. on_peer (try_get_block_by_height (rt_to_value rt) (rt_wire rt) (rt_setting rt 0) h))
       (\<lambda>c sd. cs_get_block c sd hh)"

definition rt_get_block_spends ::
  "('p, 'n, 'h) router \<Rightarrow> string \<Rightarrow> (('p, 'h) world, coin_spend list) call" where
  "rt_get_block_spends rt hh =
     by_header_hash rt hh ''get_block_spends''
       (\<lambda>h. on_peer_panic (try_get_block_spends_by_height (rt_hex rt) (rt_clvm rt) (rt_wire rt) (rt_setting rt 0) h))
       (\<lambda>c sd. cs_get_block_spends c sd hh)"

definition rt_get_block_spends_with_conditions ::
  "('p, 'n, 'h) router \<Rightarrow> string \<Rightarrow> (('p, 'h) world, coin_spend_with_conditions list) call" where
  "rt_get_block_spends_with_conditions rt hh =
     by_header_hash rt hh ''get_block_spends_with_conditions''
       (\<lambda>h. on_peer_panic (try_get_block_spends_with_conditions (rt_hex rt) (rt_clvm rt) (rt_wire rt)
         (rt_setting rt 0) h))
       (\<lambda>c sd. cs_get_block_spends_with_conditions c sd hh)"

definition rt_get_block_by_height :: "('p, 'n, 'h) router \<Rightarrow> u32 \<Rightarrow> (('p, 'h) world, json) call" where
  "rt_get_block_by_height rt h =
     peer_then_coinset (fb rt)
       (on_peer (try_get_block_by_height (rt_to_value rt) (rt_wire rt) (rt_setting rt 0) h))
       (on_peer (try_get_block_by_height (rt_to_value rt) (rt_wire rt) (rt_setting rt 1) h))
       (bind_call (api rt (\<lambda>c sd. cs_get_block_record_by_height c sd h)) (\<lambda>rec.
          api rt (\<lambda>c sd. cs_get_block c sd (br_header_hash rec))))"

definition rt_get_block_records ::
  "('p, 'n, 'h) router \<Rightarrow> u32 \<Rightarrow> u32 \<Rightarrow> (('p, 'h) world, block_record list) call" where
  "rt_get_block_records rt s e =
     peer_then_coinset (fb rt)
       (on_peer_opt (try_get_block_records (rt_hex rt) (rt_wire rt) (rt_range rt 0) s e))
       (on_peer_opt (try_get_block_records (rt_hex rt) (rt_wire rt) (rt_range rt 1) s e))
       (api rt (\<lambda>c sd. cs_get_block_records c sd s e))"

definition rt_get_blocks ::
  "('p, 'n, 'h) router \<Rightarrow> u32 \<Rightarrow> u32 \<Rightarrow> bool \<Rightarrow> bool \<Rightarrow> (('p, 'h) world, json list) call" where
  "rt_get_blocks rt s e hash_out reorged_out =
     peer_then_coinset (fb rt)
       (on_peer_opt (try_get_blocks_range (rt_to_value rt) (rt_wire rt) (rt_range rt 0) s e))
       (on_peer_opt (try_get_blocks_range (rt_to_value rt) (rt_wire rt) (rt_range rt 1) s e))
       (api rt (\<lambda>c sd. cs_get_blocks c sd s e hash_out reorged_out))"

section \<open>Chain state and fees\<close>

definition default_block_record :: block_record where
  "default_block_record =
     \<lparr>br_header_hash = [], br_height = 0, br_weight = 0, br_prev_hash = [], br_total_iters = 0,
      br_signage_point_index = 0, br_farmer_puzzle_hash = [], br_pool_puzzle_hash = [],
      br_timestamp = None, br_fees = None, br_extra = JNull\<rparr>"

definition default_blockchain_state :: blockchain_state where
  "default_blockchain_state =
     \<lparr>node_id = [], difficulty = 0, genesis_challenge_initialized = False, bs_mempool_size = 0,
      mempool_cost = 0, bs_mempool_fees = 0, mempool_min_fees = JNull, mempool_max_total_cost = 0,
      block_max_cost = 0, bs_peak = None, space = 0, sub_slot_iters = 0, average_block_time = None,
      bs_sync = None\<rparr>"

definition state_from_peers :: "'p peer_pool \<Rightarrow> blockchain_state query" where
  "state_from_peers pool =
     (let peak = peak_height pool
      in if peak = 0 then Inl (PeerConnection ''no peak observed from peers yet'')
         else Inr (default_blockchain_state
           \<lparr>bs_peak := Some (default_block_record\<lparr>br_height := peak\<rparr>),
            bs_sync := Some \<lparr>sync_mode = False, sync_progress_height = peak, sync_tip_height = peak,
              synced = (CORROBORATION_FLOOR \<le> independent_peer_count pool)\<rparr>\<rparr>))"

definition rt_get_blockchain_state :: "('p, 'n, 'h) router \<Rightarrow> (('p, 'h) world, blockchain_state) call" where
  "rt_get_blockchain_state rt =
     (let from_peers = (\<lambda>wd. ret (state_from_peers (fst wd)) wd)
      in if fb rt
         then match_call (api rt cs_get_blockchain_state) (\<lambda>r. case r of
                Inr state \<Rightarrow> ret (Inr state) | Inl _ \<Rightarrow> from_peers)
         else from_peers)"

definition rt_peak_height_opt :: "('p, 'n, 'h) router \<Rightarrow> (('p, 'h) world, u32 option) call" where
  "rt_peak_height_opt rt =
     bind_call (rt_get_blockchain_state rt) (\<lambda>state. ret (Inr (map_option br_height (bs_peak state))))"

definition rt_get_fee_estimate ::
  "('p, 'n, 'h) router \<Rightarrow> spend_bundle option \<Rightarrow> u64 list option \<Rightarrow> u64 option \<Rightarrow>
   (('p, 'h) world, fee_estimate) call" where
  "rt_get_fee_estimate rt bundle targets n_spends =
     (let times = (case targets of None \<Rightarrow> [60, 120, 300] | Some ts \<Rightarrow> ts)
      in peer_then_coinset (fb rt)
           (on_peer (try_get_fee_estimate (rt_wire rt) (rt_setting rt 0) times))
           (on_peer (try_get_fee_estimate (rt_wire rt) (rt_setting rt 1) times))
           (api rt (\<lambda>c sd. cs_get_fee_estimate c sd bundle targets n_spends)))"

definition rt_get_aggsig_additional_data :: "('p, 'n, 'h) router \<Rightarrow> (('p, 'h) world, string) call" where
  "rt_get_aggsig_additional_data rt = ret (Inr (aggsig_additional_data (rt_hex rt) (rt_wire rt)))"

definition rt_get_network_info :: "('p, 'n, 'h) router \<Rightarrow> (('p, 'h) world, network_info) call" where
  "rt_get_network_info rt = ret (Inr (backend_network_info (rt_hex rt) (rt_wire rt)))"

section \<open>Coinset-only operations\<close>

definition rt_get_block_count_metrics :: "('p, 'n, 'h) router \<Rightarrow> (('p, 'h) world, block_count_metrics) call" where
  "rt_get_block_count_metrics rt = coinset_only rt ''get_block_count_metrics'' cs_get_block_count_metrics"

definition rt_get_unfinished_block_headers :: "('p, 'n, 'h) router \<Rightarrow> (('p, 'h) world, json list) call" where
  "rt_get_unfinished_block_headers rt = coinset_only rt ''get_unfinished_block_headers'' cs_get_unfinished_block_headers"

definition rt_get_memos_by_coin_name :: "('p, 'n, 'h) router \<Rightarrow> string \<Rightarrow> (('p, 'h) world, json) call" where
  "rt_get_memos_by_coin_name rt name = coinset_only rt ''get_memos_by_coin_name'' (\<lambda>c sd. cs_get_memos_by_coin_name c sd name)"

definition rt_get_network_space :: "('p, 'n, 'h) router \<Rightarrow> string \<Rightarrow> string \<Rightarrow> (('p, 'h) world, u64) call" where
  "rt_get_network_space rt newer older = coinset_only rt ''get_network_space'' (\<lambda>c sd. cs_get_network_space c sd newer older)"

definition rt_get_all_mempool_items :: "('p, 'n, 'h) router \<Rightarrow> (('p, 'h) world, (string \<times> json) list) call" where
  "rt_get_all_mempool_items rt = coinset_only rt ''get_all_mempool_items'' cs_get_all_mempool_items"

definition rt_get_all_mempool_tx_ids :: "('p, 'n, 'h) router \<Rightarrow> (('p, 'h) world, string list) call" where
  "rt_get_all_mempool_tx_ids rt = coinset_only rt ''get_all_mempool_tx_ids'' cs_get_all_mempool_tx_ids"

definition rt_get_mempool_item_by_tx_id :: "('p, 'n, 'h) router \<Rightarrow> string \<Rightarrow> (('p, 'h) world, json) call" where
  "rt_get_mempool_item_by_tx_id rt tx_id = coinset_only rt ''get_mempool_item_by_tx_id'' (\<lambda>c sd. cs_get_mempool_item_by_tx_id c sd tx_id)"

definition rt_get_mempool_items_by_coin_name :: "('p, 'n, 'h) router \<Rightarrow> string \<Rightarrow> bool option \<Rightarrow> (('p, 'h) world, json list) call" where
  "rt_get_mempool_items_by_coin_name rt coin_name incl = coinset_only rt ''get_mempool_items_by_coin_name'' (\<lambda>c sd. cs_get_mempool_items_by_coin_name c sd coin_name incl)"

section \<open>Pushing\<close>

definition rt_push_tx :: "('p, 'n, 'h) router \<Rightarrow> spend_bundle \<Rightarrow> (('p, 'h) world, tx_status) call" where
  "rt_push_tx rt bundle =
     match_call (on_peer (try_push_tx_attributed (rt_hex rt) (rt_wire rt) (rt_setting rt 0) bundle)) (\<lambda>r. case r of
       Inl peer_err \<Rightarrow>
         peer_then_coinset (fb rt) (ret (Inl peer_err))
           (on_peer (try_push_tx (rt_hex rt) (rt_wire rt) (rt_setting rt 1) bundle))
           (api rt (\<lambda>c sd. cs_push_tx c sd bundle))
     | Inr (first, first_addr) \<Rightarrow>
         if is_final first then ret (Inr first)
         else match_call
                (on_peer (try_push_tx_excluding (rt_hex rt) (rt_wire rt) (rt_setting rt 1) bundle first_addr)) (\<lambda>r.
                ret (Inr (case r of Inl _ \<Rightarrow> first | Inr second \<Rightarrow> if is_final second then second else first))))"


section \<open>What the ladders answer\<close>

lemma match_call_Some:
  "match_call c f s = Some q \<longleftrightarrow> (\<exists>r s'. c s = Some (r, s') \<and> f r s' = Some q)"
  by (auto simp: match_call_def split: option.splits)

lemma match_call_sum:
  "match_call c (case_sum f g) s = Some q \<longleftrightarrow>
     (\<exists>e s'. c s = Some (Inl e, s') \<and> f e s' = Some q) \<or>
     (\<exists>x s'. c s = Some (Inr x, s') \<and> g x s' = Some q)"
  unfolding match_call_Some by (metis sum.case sum.exhaust)

lemma settle_absence_Inr:
  "settle_uncorroborated_absence coinset = Inr v \<longleftrightarrow> v = None \<and> coinset = Some (Inr None)"
  by (auto simp: settle_uncorroborated_absence_def split: option.splits sum.splits)

lemma settle_presence_Inr:
  "settle_uncorroborated_presence claim found coinset = Inr v \<longleftrightarrow>
     v = Some found \<and> (\<exists>other. coinset = Some (Inr (Some other)) \<and> claim other = claim found)"
  by (auto simp: settle_uncorroborated_presence_def split: option.splits sum.splits if_splits)

lemma settle_set_Inr:
  "settle_uncorroborated_set items h projection coinset = Inr v \<longleftrightarrow>
     v = \<lparr>cset_items = items, cset_as_of = h\<rparr> \<and>
     (\<exists>raw. coinset = Some (Inr raw) \<and>
        fingerprint coin_record_member items =
        fingerprint coin_record_member (project coin_record_member (coins_at raw h) projection))"
  by (auto simp: settle_uncorroborated_set_def Let_def contradiction_fingerprint
      contradiction_fingerprint [THEN iffD2] split: option.splits sum.splits)

lemma second_voice_Inr:
  assumes "settle None \<noteq> Inr v"
  shows "second_voice b c settle s = Some (Inr v, s') \<longleftrightarrow>
    b \<and> (\<exists>r. c s = Some (r, s') \<and> settle (Some r) = Inr v)"
  using assms by (auto simp: second_voice_def match_call_Some)

text \<open>Two attempts at the peer tier: the first answer, after at most one failure.\<close>

definition answered ::
  "('s, 'a) call \<Rightarrow> ('s, 'a) call \<Rightarrow> 's \<Rightarrow> 'a \<Rightarrow> 's \<Rightarrow> bool" where
  "answered p1 p2 s a s' \<longleftrightarrow>
     p1 s = Some (Inr a, s') \<or> (\<exists>e s0. p1 s = Some (Inl e, s0) \<and> p2 s0 = Some (Inr a, s'))"

definition both_failed ::
  "('s, 'a) call \<Rightarrow> ('s, 'a) call \<Rightarrow> 's \<Rightarrow> 's \<Rightarrow> bool" where
  "both_failed p1 p2 s s' \<longleftrightarrow>
     (\<exists>e0 s0 e1. p1 s = Some (Inl e0, s0) \<and> p2 s0 = Some (Inl e1, s'))"

lemma settle_peer_answer_Inr:
  "settle_peer_answer enabled claim answer c s = Some (Inr v, s') \<longleftrightarrow>
     (case answer of
        Found x \<Rightarrow> v = Some x \<and> s' = s
      | CorroboratedAbsent \<Rightarrow> v = None \<and> s' = s
      | UncorroboratedFound x \<Rightarrow> enabled \<and> v = Some x \<and>
          (\<exists>y. c s = Some (Inr (Some y), s') \<and> claim y = claim x)
      | UncorroboratedAbsent \<Rightarrow> enabled \<and> v = None \<and> c s = Some (Inr None, s'))"
proof (cases answer)
  case (UncorroboratedFound x)
  have "settle_uncorroborated_presence claim x None \<noteq> Inr v"
    by (simp add: settle_presence_Inr)
  then show ?thesis
    by (auto simp: settle_peer_answer_def UncorroboratedFound second_voice_Inr settle_presence_Inr)
next
  case UncorroboratedAbsent
  have "settle_uncorroborated_absence None \<noteq> Inr v" by (simp add: settle_absence_Inr)
  then show ?thesis
    by (auto simp: settle_peer_answer_def UncorroboratedAbsent second_voice_Inr settle_absence_Inr)
qed (auto simp: settle_peer_answer_def)

lemma peer_then_coinset_opt_Inr:
  "peer_then_coinset_opt enabled claim p1 p2 c s = Some (Inr v, s') \<longleftrightarrow>
     (\<exists>answer s1. answered p1 p2 s answer s1 \<and>
        settle_peer_answer enabled claim answer c s1 = Some (Inr v, s')) \<or>
     (enabled \<and> (\<exists>s1. both_failed p1 p2 s s1 \<and> c s1 = Some (Inr v, s')))"
proof -
  have last: "(if \<not> enabled then ret (Inl pe) else match_call c (\<lambda>r. ret (map_err (all_failed pe) r))) s1 =
      Some (Inr v, s') \<longleftrightarrow> enabled \<and> c s1 = Some (Inr v, s')" for pe s1
    by (auto simp: match_call_Some map_err_Inr eq_commute [of "Inr v"])
  show ?thesis
    unfolding peer_then_coinset_opt_def match_call_sum last answered_def both_failed_def by blast
qed

lemma coinset_only_set_Inr:
  "coinset_only_set cs raw projection pe s = Some (Inr v, s') \<longleftrightarrow>
     (\<exists>state s1 b items h. cs s = Some (Inr state, s1) \<and> bs_peak state = Some b \<and>
        common_height [br_height b] (end_height projection) = Some h \<and> raw s1 = Some (Inr items, s') \<and>
        v = \<lparr>cset_items = project coin_record_member (coins_at items h) projection, cset_as_of = h\<rparr>)"
proof -
  have last: "match_call raw (case_sum (\<lambda>ce. ret (Inl (all_failed pe ce))) (\<lambda>raw. ret (Inr (f raw)))) s1 =
      Some (Inr v, s') \<longleftrightarrow> (\<exists>items. raw s1 = Some (Inr items, s') \<and> v = f items)" for s1 f
    unfolding match_call_sum by auto
  have inner: "(case map_option br_height (bs_peak state) of
        None \<Rightarrow> ret (Inl a)
      | Some peak \<Rightarrow> (case common_height [peak] (end_height projection) of
          None \<Rightarrow> ret (Inl (b peak)) | Some h \<Rightarrow> m h)) s1 = Some (Inr v, s') \<longleftrightarrow>
      (\<exists>b h. bs_peak state = Some b \<and> common_height [br_height b] (end_height projection) = Some h \<and>
         m h s1 = Some (Inr v, s'))" for state a b m s1
    by (cases "bs_peak state") (auto split: option.split)
  show ?thesis
    unfolding coinset_only_set_def match_call_sum inner last by (simp, blast)
qed

lemma ex_set_answer:
  "(\<exists>a. P a) \<longleftrightarrow> (\<exists>i h. P (Corroborated i h)) \<or> (\<exists>i h. P (Uncorroborated i h))"
  by (metis set_answer.exhaust)



section \<open>Scalar reads need two voices\<close>

lemma on_peer_Some: "on_peer f wd = Some (r, wd') \<longleftrightarrow> f (fst wd) = (r, fst wd') \<and> snd wd' = snd wd"
  by (cases wd'; cases "f (fst wd)") (auto simp: on_peer_def)

lemma api_Some:
  "api rt f wd = Some (r, wd') \<longleftrightarrow>
     f (rt_coinset rt) (rt_serde rt) (snd wd) = Some (r, snd wd') \<and> fst wd' = fst wd"
  by (cases wd') (auto simp: api_def on_coinset_def)

text \<open>The pools the two attempts at the peer tier start from.\<close>

definition attempt_from ::
  "(nat \<Rightarrow> 'p peer_pool \<Rightarrow> 'a query \<times> 'p peer_pool) \<Rightarrow> nat \<Rightarrow> 'p peer_pool \<Rightarrow> 'p peer_pool \<Rightarrow> bool" where
  "attempt_from f k pool start \<longleftrightarrow>
     k = 0 \<and> start = pool \<or> k = 1 \<and> (\<exists>e. f 0 pool = (Inl e, start))"

lemma answered_on_peer:
  assumes "answered (on_peer (f 0)) (on_peer (f 1)) wd a wd'"
  obtains k start where "attempt_from f k (fst wd) start" "f k start = (Inr a, fst wd')" "snd wd' = snd wd"
  using assms that unfolding answered_def on_peer_Some attempt_from_def by (metis fst_conv)


section \<open>An example router\<close>

definition example_setting :: "nat setting" where
  "example_setting = \<lparr>st_dial = (\<lambda>_. None), st_now = 0, st_env = (\<lambda>_ pool. pool), st_seen = voting_pool\<rparr>"

definition example_serde :: serde where
  "example_serde =
     \<lparr>de_json = Inr, de_jsons = (\<lambda>_. Inl []), de_json_map = (\<lambda>_. Inl []), de_strings = (\<lambda>_. Inl []),
      de_string = (\<lambda>_. Inl []), de_u64 = (\<lambda>_. Inl []), de_coin_record = (\<lambda>_. Inl []),
      de_coin_records = (\<lambda>_. Inl []), de_coin_spend = (\<lambda>_. Inl []), de_coin_spends = (\<lambda>_. Inl []),
      de_conditions = (\<lambda>_. Inl []), de_spends_with_conditions = (\<lambda>_. Inl []),
      de_block_record = (\<lambda>_. Inl []), de_block_records = (\<lambda>_. Inl []), de_metrics = (\<lambda>_. Inl []),
      de_fee_estimate = (\<lambda>_. Inl []), de_network_info = (\<lambda>_. Inl []),
      de_blockchain_state = (\<lambda>_. Inl []), ser_bundle = (\<lambda>_. Inr JNull)\<rparr>"

definition example_router :: "(nat, ctree, unit) router" where
  "example_router =
     \<lparr>rt_hex = example_codec, rt_clvm = tree_clvm (\<lambda>_. Inl ()), rt_parse_node = (\<lambda>_. Inl ()),
      rt_wire = example_wire, rt_setting = (\<lambda>_. example_setting), rt_range = (\<lambda>_ _. example_setting),
      rt_to_value = (\<lambda>_. Inl []),
      rt_coinset = \<lparr>transport_post = (\<lambda>_ _. ret (Inl (CoinsetHttp []))), base_url = []\<rparr>,
      rt_serde = example_serde, coinset_fallback_enabled = False\<rparr>"

definition wire_record :: coin_record where
  "wire_record = coin_state_to_record example_codec
     \<lparr>cst_coin = \<lparr>pc_parent_coin_info = replicate 32 2, pc_puzzle_hash = replicate 32 7, pc_amount = 1\<rparr>,
      spent_height = Some 9, created_height = Some 3\<rparr>"

lemma wire_record_read:
  "do_get_coin_record_by_name_opt example_codec example_wire example_id p = Inr (Some wire_record)"
  using coin_record_is_not_bound [OF example_id_parses, of example_wire p]
  by (simp add: example_wire_def wire_record_def)

lemma wire_record_found:
  "read_opt_corroborated (\<lambda>_. None) 0 (\<lambda>_ p. p) chain_claim_record
     (do_get_coin_record_by_name_opt example_codec example_wire example_id) voting_pool =
   (Inr (Found wire_record), voting_pool\<lparr>next_idx := 1\<rparr>)"
  by (simp add: read_opt_corroborated_def voting_pick wire_record_read corroborate_presence_def
      voting_voices corroborated_def CORROBORATION_FLOOR_def eject_all_def)


section \<open>Pushing asks at most two peers\<close>

definition with_send ::
  "('p, 'n, 'h) router \<Rightarrow> ('p \<Rightarrow> proto_bundle \<Rightarrow> (u8 \<times> string option) reply) \<Rightarrow> ('p, 'n, 'h) router" where
  "with_send rt send = rt\<lparr>rt_wire := (rt_wire rt)\<lparr>w_send_transaction := send\<rparr>\<rparr>"

lemma do_push_tx_cong:
  "send p = w_send_transaction w p \<Longrightarrow>
     do_push_tx hx (w\<lparr>w_send_transaction := send\<rparr>) bundle p = do_push_tx hx w bundle p"
  by (simp add: do_push_tx_def to_protocol_spend_bundle_def cong: if_cong)

definition picked :: "'p setting \<Rightarrow> 'p peer_pool \<Rightarrow> 'p list" where
  "picked st pool = (case fst (pick (st_dial st) (st_now st) pool) of Inl _ \<Rightarrow> [] | Inr (p, _) \<Rightarrow> [p])"

definition picked_excluding :: "socket_addr \<Rightarrow> 'p peer_pool \<Rightarrow> 'p list" where
  "picked_excluding a pool = (case fst (select_peer_excluding a pool) of None \<Rightarrow> [] | Some (p, _) \<Rightarrow> [p])"

lemma attributed_cong:
  "\<forall>p \<in> set (picked st pool). send p = w_send_transaction w p \<Longrightarrow>
     try_push_tx_attributed hx (w\<lparr>w_send_transaction := send\<rparr>) st bundle pool =
     try_push_tx_attributed hx w st bundle pool"
  by (auto simp: try_push_tx_attributed_def picked_def do_push_tx_cong split: prod.splits sum.splits)

lemma push_cong:
  "\<forall>p \<in> set (picked st pool). send p = w_send_transaction w p \<Longrightarrow>
     try_push_tx hx (w\<lparr>w_send_transaction := send\<rparr>) st bundle pool = try_push_tx hx w st bundle pool"
  by (simp add: try_push_tx_def attributed_cong)

lemma excluding_cong:
  "\<forall>p \<in> set (picked_excluding a pool). send p = w_send_transaction w p \<Longrightarrow>
     try_push_tx_excluding hx (w\<lparr>w_send_transaction := send\<rparr>) st bundle a pool =
     try_push_tx_excluding hx w st bundle a pool"
  by (auto simp: try_push_tx_excluding_def picked_excluding_def do_push_tx_cong Let_def
      split: prod.splits option.splits)

lemma length_picked: "length (picked st pool) \<le> 1" "length (picked_excluding a pool) \<le> 1"
  by (auto simp: picked_def picked_excluding_def split: sum.splits option.splits)


lemma with_send_simps [simp]:
  "rt_hex (with_send rt send) = rt_hex rt" "rt_setting (with_send rt send) = rt_setting rt"
  "fb (with_send rt send) = fb rt" "rt_coinset (with_send rt send) = rt_coinset rt"
  "rt_serde (with_send rt send) = rt_serde rt"
  "rt_wire (with_send rt send) = (rt_wire rt)\<lparr>w_send_transaction := send\<rparr>"
  by (simp_all add: with_send_def)

text \<open>The peer the second transmission goes to, if there is one.\<close>

definition second_peers ::
  "('p, 'n, 'h) router \<Rightarrow> (tx_status \<times> socket_addr) query \<Rightarrow> 'p peer_pool \<Rightarrow> 'p list" where
  "second_peers rt r pool =
     (case r of Inl _ \<Rightarrow> picked (rt_setting rt 1) pool
      | Inr (first, addr) \<Rightarrow> if is_final first then [] else picked_excluding addr pool)"

lemma push_depends:
  fixes rt :: "('p, 'n, 'h) router"
  assumes first: "try_push_tx_attributed (rt_hex rt) (rt_wire rt) (rt_setting rt 0) bundle pool = (r, pool1)"
    and same: "\<forall>p \<in> set (picked (rt_setting rt 0) pool @ second_peers rt r pool1).
      send p = w_send_transaction (rt_wire rt) p"
  shows "rt_push_tx (with_send rt send) bundle (pool, h) = rt_push_tx rt bundle (pool, h)"
proof -
  let ?w = "(rt_wire rt)\<lparr>w_send_transaction := send\<rparr>"
  have f: "try_push_tx_attributed (rt_hex rt) ?w (rt_setting rt 0) bundle pool = (r, pool1)"
    using attributed_cong [of "rt_setting rt 0" pool "send" "rt_wire rt" "rt_hex rt" "bundle"] first same by simp
  have c: "api (with_send rt send) (\<lambda>c sd. cs_push_tx c sd bundle) =
      (api rt (\<lambda>c sd. cs_push_tx c sd bundle) :: (('p, 'h) world, tx_status) call)"
    by (simp add: api_def)
  show ?thesis
  proof (cases r)
    case (Inl e)
    have p: "try_push_tx (rt_hex rt) ?w (rt_setting rt 1) bundle pool1 =
        try_push_tx (rt_hex rt) (rt_wire rt) (rt_setting rt 1) bundle pool1"
      by (rule push_cong) (use same Inl in \<open>simp add: second_peers_def\<close>)
    show ?thesis
      using f first Inl p
      by (simp add: rt_push_tx_def match_call_def on_peer_def peer_then_coinset_def ret_def c)
  next
    case (Inr fa)
    obtain fst_status addr where fa: "fa = (fst_status, addr)" by (cases fa)
    show ?thesis
    proof (cases "is_final fst_status")
      case True
      then show ?thesis using f first Inr fa by (simp add: rt_push_tx_def match_call_def on_peer_def)
    next
      case False
      have p: "try_push_tx_excluding (rt_hex rt) ?w (rt_setting rt 1) bundle addr pool1 =
          try_push_tx_excluding (rt_hex rt) (rt_wire rt) (rt_setting rt 1) bundle addr pool1"
        by (rule excluding_cong) (use same Inr fa False in \<open>simp add: second_peers_def\<close>)
      show ?thesis
        using f first Inr fa p False by (simp add: rt_push_tx_def match_call_def on_peer_def)
    qed
  qed
qed

lemma second_peer_elsewhere:
  assumes "p \<in> set (second_peers rt (Inr (first, addr)) pool)"
  shows "\<exists>e \<in> set (entries pool). pe_peer e = p \<and> pe_address e \<noteq> addr"
proof -
  let ?cs = "filter (\<lambda>e. pe_address e \<noteq> addr) (entries pool)"
  have ne: "?cs \<noteq> []" and p: "p = pe_peer (?cs ! (next_idx pool mod length ?cs))"
    using assms by (auto simp: second_peers_def picked_excluding_def select_peer_excluding_def Let_def
        split: if_splits option.splits)
  have "?cs ! (next_idx pool mod length ?cs) \<in> set ?cs" using ne by (intro nth_mem) simp
  with p show ?thesis by auto
qed

lemma push_verdict:
  assumes "try_push_tx_attributed (rt_hex rt) (rt_wire rt) (rt_setting rt 0) bundle pool =
      (Inr (first, addr), pool1)"
  shows "\<exists>status pool2. rt_push_tx rt bundle (pool, h) = Some (Inr status, (pool2, h)) \<and>
    (status = first \<or> \<not> is_final first \<and> is_final status)"
  using assms
  by (cases "is_final first")
    (auto simp: rt_push_tx_def match_call_def on_peer_def split: prod.splits sum.splits)



section \<open>Several parents\<close>

lemma parents_loop_Inr:
  fixes ask :: "nat \<Rightarrow> string \<Rightarrow> ('s, coin_record corroborated_set) call"
  shows "parents_loop ask i parents items as_of s = Some (Inr (out, h), s') \<Longrightarrow>
     set items \<subseteq> set out \<and> h \<le> as_of"
proof (induction ask i parents items as_of arbitrary: s rule: parents_loop.induct)
  case (2 ask i parent rest items as_of)
  then show ?case by (fastforce simp: bind_call_Inr)
qed auto

text \<open>The answer about several parents is dated by its lowest round, and keeps the records of the
  others as they are: a record can lie above the height the whole answer is dated by.\<close>

lemma parents_answer_is_misdated:
  fixes ask :: "nat \<Rightarrow> string \<Rightarrow> ('s, coin_record corroborated_set) call"
  assumes "ask 0 a s = Some (Inr \<lparr>cset_items = [r], cset_as_of = h1\<rparr>, s1)"
    and "ask 1 b s1 = Some (Inr \<lparr>cset_items = [], cset_as_of = h2\<rparr>, s2)"
    and "h2 < confirmed_block_index r" "confirmed_block_index r \<le> h1"
  shows "parents_loop ask 0 [a, b] [] (- 1) s = Some (Inr ([r], h2), s2)"
proof -
  have "min (min (- 1) h1) h2 = h2"
    using assms(3,4) by (simp add: min_def) (metis dual_order.strict_trans1 order.asym word_order.extremum)
  then show ?thesis using assms(1,2) by (simp add: bind_call_def)
qed

end
