(* ===== verification/Client.thy ===== *)
theory Client
  imports Router
begin

text \<open>
  \<open>src/lib.rs\<close>: the public client. Its configuration and construction, the independence group it
  reports, the peak its own peers have told it, its methods, which are those of the router, and
  \<open>wait_for_confirmation\<close>, the one loop of the file. Durations and instants are natural numbers
  (nanoseconds); the clock and the passing of time are the record \<open>time\<close>. Building a TLS identity
  and an HTTP client is the record \<open>startup\<close>.
\<close>

section \<open>Configuration and construction\<close>

datatype tls_identity = Generated | Files string string

record chia_query_config =
  network :: network_type
  max_peers_wanted :: nat
  coinset_base_url :: string
  fallback_wanted :: bool
  tls_identity :: tls_identity
  peer_connect_timeout :: nat
  peer_request_timeout :: nat
  coinset_request_timeout :: nat

definition from_secs :: "nat \<Rightarrow> nat" where
  "from_secs n = n * 1000000000"

definition default_config :: chia_query_config where
  "default_config =
     \<lparr>network = Mainnet, max_peers_wanted = default_max_peers,
      coinset_base_url = ''https://api.coinset.org'', fallback_wanted = True,
      tls_identity = Generated, peer_connect_timeout = from_secs 8,
      peer_request_timeout = from_secs 30, coinset_request_timeout = from_secs 30\<rparr>"

record ('p, 'n, 'h) chia_query =
  cq_router :: "('p, 'n, 'h) router"

record ('p, 'n, 'h) startup =
  create_generated_tls :: "unit query"
  create_tls :: "string \<Rightarrow> string \<Rightarrow> unit query"
  dials :: "'p dialler"
  new_coinset_client :: "string \<Rightarrow> nat \<Rightarrow> 'h coinset_client query"
  new_router :: "chia_query_config \<Rightarrow> 'h coinset_client \<Rightarrow> ('p, 'n, 'h) router"

text \<open>\<open>ChiaQuery::new\<close>: the client and the pool it starts from. Peers are required exactly when there
  is no coinset to fall back to.\<close>

definition peer_requirement_of :: "chia_query_config \<Rightarrow> peer_requirement" where
  "peer_requirement_of cfg = (if fallback_wanted cfg then Optional else Required)"

definition chia_query_new ::
  "('p, 'n, 'h) startup \<Rightarrow> chia_query_config \<Rightarrow> (('p, 'n, 'h) chia_query \<times> 'p peer_pool) query" where
  "chia_query_new st cfg =
     rbind (case tls_identity cfg of
              Generated \<Rightarrow> create_generated_tls st
            | Files cert key \<Rightarrow> create_tls st cert key) (\<lambda>_.
     rbind (pool_new (max_peers_wanted cfg) (peer_requirement_of cfg) (dials st)) (\<lambda>pool.
     rbind (new_coinset_client st (coinset_base_url cfg) (coinset_request_timeout cfg)) (\<lambda>coinset.
     Inr (\<lparr>cq_router = (new_router st cfg coinset)
             \<lparr>rt_coinset := coinset, coinset_fallback_enabled := fallback_wanted cfg\<rparr>\<rparr>, pool))))"

section \<open>What the client says of itself\<close>

text \<open>The constants and \<open>independence_group_for\<close> are of \<open>src/provider_registry/registry.rs\<close>.\<close>

definition COINSET_INDEPENDENCE_GROUP :: string where
  "COINSET_INDEPENDENCE_GROUP = ''coinset.org''"

definition CHIA_PEERS_INDEPENDENCE_GROUP :: string where
  "CHIA_PEERS_INDEPENDENCE_GROUP = ''chia-peers''"

definition independence_group_for :: "bool \<Rightarrow> string" where
  "independence_group_for enabled =
     (if enabled then COINSET_INDEPENDENCE_GROUP else CHIA_PEERS_INDEPENDENCE_GROUP)"

definition independence_group :: "('p, 'n, 'h) chia_query \<Rightarrow> string" where
  "independence_group q = independence_group_for (coinset_fallback_enabled (cq_router q))"

definition observed_peak :: "u32 \<Rightarrow> u32 option" where
  "observed_peak raw = (if raw \<noteq> 0 then Some raw else None)"

definition q_peer_count :: "'p peer_pool \<Rightarrow> nat" where
  "q_peer_count pool = peer_count pool"

definition q_independent_peer_count :: "'p peer_pool \<Rightarrow> nat" where
  "q_independent_peer_count pool = independent_peer_count pool"

definition peer_peak_height :: "'p peer_pool \<Rightarrow> u32 option" where
  "peer_peak_height pool = observed_peak (peak_height pool)"

section \<open>The methods of the client\<close>

text \<open>Each is the router's, named with the prefix \<open>q_\<close>.\<close>

definition q_get_additions_and_removals ::
  "('p, 'n, 'h) chia_query \<Rightarrow> string \<Rightarrow> (('p, 'h) world, additions_and_removals) call" where
  "q_get_additions_and_removals q = rt_get_additions_and_removals (cq_router q)"

definition q_get_block ::
  "('p, 'n, 'h) chia_query \<Rightarrow> string \<Rightarrow> (('p, 'h) world, json) call" where
  "q_get_block q = rt_get_block (cq_router q)"

definition q_get_block_by_height ::
  "('p, 'n, 'h) chia_query \<Rightarrow> u32 \<Rightarrow> (('p, 'h) world, json) call" where
  "q_get_block_by_height q = rt_get_block_by_height (cq_router q)"

definition q_get_block_count_metrics ::
  "('p, 'n, 'h) chia_query \<Rightarrow> (('p, 'h) world, block_count_metrics) call" where
  "q_get_block_count_metrics q = rt_get_block_count_metrics (cq_router q)"

definition q_get_block_record ::
  "('p, 'n, 'h) chia_query \<Rightarrow> string \<Rightarrow> (('p, 'h) world, block_record) call" where
  "q_get_block_record q = rt_get_block_record (cq_router q)"

definition q_get_block_record_by_height ::
  "('p, 'n, 'h) chia_query \<Rightarrow> u32 \<Rightarrow> (('p, 'h) world, block_record) call" where
  "q_get_block_record_by_height q = rt_get_block_record_by_height (cq_router q)"

definition q_get_block_records ::
  "('p, 'n, 'h) chia_query \<Rightarrow> u32 \<Rightarrow> u32 \<Rightarrow> (('p, 'h) world, block_record list) call" where
  "q_get_block_records q = rt_get_block_records (cq_router q)"

definition q_get_block_spends ::
  "('p, 'n, 'h) chia_query \<Rightarrow> string \<Rightarrow> (('p, 'h) world, coin_spend list) call" where
  "q_get_block_spends q = rt_get_block_spends (cq_router q)"

definition q_get_block_spends_with_conditions ::
  "('p, 'n, 'h) chia_query \<Rightarrow> string \<Rightarrow> (('p, 'h) world, coin_spend_with_conditions list) call" where
  "q_get_block_spends_with_conditions q = rt_get_block_spends_with_conditions (cq_router q)"

definition q_get_blocks ::
  "('p, 'n, 'h) chia_query \<Rightarrow> u32 \<Rightarrow> u32 \<Rightarrow> bool \<Rightarrow> bool \<Rightarrow> (('p, 'h) world, json list) call" where
  "q_get_blocks q = rt_get_blocks (cq_router q)"

definition q_get_unfinished_block_headers ::
  "('p, 'n, 'h) chia_query \<Rightarrow> (('p, 'h) world, json list) call" where
  "q_get_unfinished_block_headers q = rt_get_unfinished_block_headers (cq_router q)"

definition q_get_coin_record_by_name ::
  "('p, 'n, 'h) chia_query \<Rightarrow> string \<Rightarrow> (('p, 'h) world, coin_record) call" where
  "q_get_coin_record_by_name q = rt_get_coin_record_by_name (cq_router q)"

definition q_get_coin_record_by_name_opt ::
  "('p, 'n, 'h) chia_query \<Rightarrow> string \<Rightarrow> (('p, 'h) world, coin_record option) call" where
  "q_get_coin_record_by_name_opt q = rt_get_coin_record_by_name_opt (cq_router q)"

definition q_get_coin_spend_opt ::
  "('p, 'n, 'h) chia_query \<Rightarrow> string \<Rightarrow> (('p, 'h) world, coin_spend option) call" where
  "q_get_coin_spend_opt q = rt_get_coin_spend_opt (cq_router q)"

definition q_peak_height_opt ::
  "('p, 'n, 'h) chia_query \<Rightarrow> (('p, 'h) world, u32 option) call" where
  "q_peak_height_opt q = rt_peak_height_opt (cq_router q)"

definition q_block_timestamp_opt ::
  "('p, 'n, 'h) chia_query \<Rightarrow> u32 \<Rightarrow> (('p, 'h) world, u64 option) call" where
  "q_block_timestamp_opt q = rt_block_timestamp_opt (cq_router q)"

definition q_get_coin_records_by_hint ::
  "('p, 'n, 'h) chia_query \<Rightarrow> string \<Rightarrow> u32 option \<Rightarrow> u32 option \<Rightarrow> bool \<Rightarrow> (('p, 'h) world, coin_record list) call" where
  "q_get_coin_records_by_hint q = rt_get_coin_records_by_hint (cq_router q)"

definition q_get_coin_records_by_hints ::
  "('p, 'n, 'h) chia_query \<Rightarrow> string list \<Rightarrow> u32 option \<Rightarrow> u32 option \<Rightarrow> bool \<Rightarrow> (('p, 'h) world, coin_record list) call" where
  "q_get_coin_records_by_hints q = rt_get_coin_records_by_hints (cq_router q)"

definition q_get_coin_records_by_names ::
  "('p, 'n, 'h) chia_query \<Rightarrow> string list \<Rightarrow> u32 option \<Rightarrow> u32 option \<Rightarrow> bool \<Rightarrow> (('p, 'h) world, coin_record list) call" where
  "q_get_coin_records_by_names q = rt_get_coin_records_by_names (cq_router q)"

definition q_get_coin_records_by_parent_ids ::
  "('p, 'n, 'h) chia_query \<Rightarrow> string list \<Rightarrow> u32 option \<Rightarrow> u32 option \<Rightarrow> bool \<Rightarrow> (('p, 'h) world, coin_record list) call" where
  "q_get_coin_records_by_parent_ids q = rt_get_coin_records_by_parent_ids (cq_router q)"

definition q_get_coin_records_by_puzzle_hash ::
  "('p, 'n, 'h) chia_query \<Rightarrow> string \<Rightarrow> u32 option \<Rightarrow> u32 option \<Rightarrow> bool \<Rightarrow> (('p, 'h) world, coin_record list) call" where
  "q_get_coin_records_by_puzzle_hash q = rt_get_coin_records_by_puzzle_hash (cq_router q)"

definition q_get_coin_records_by_puzzle_hashes ::
  "('p, 'n, 'h) chia_query \<Rightarrow> string list \<Rightarrow> u32 option \<Rightarrow> u32 option \<Rightarrow> bool \<Rightarrow> (('p, 'h) world, coin_record list) call" where
  "q_get_coin_records_by_puzzle_hashes q = rt_get_coin_records_by_puzzle_hashes (cq_router q)"

definition q_get_coin_records_by_puzzle_hash_graded ::
  "('p, 'n, 'h) chia_query \<Rightarrow> string \<Rightarrow> u32 option \<Rightarrow> u32 option \<Rightarrow> bool \<Rightarrow> (('p, 'h) world, coin_record corroborated_set) call" where
  "q_get_coin_records_by_puzzle_hash_graded q = rt_get_coin_records_by_puzzle_hash_graded (cq_router q)"

definition q_get_coin_records_by_puzzle_hashes_graded ::
  "('p, 'n, 'h) chia_query \<Rightarrow> string list \<Rightarrow> u32 option \<Rightarrow> u32 option \<Rightarrow> bool \<Rightarrow> (('p, 'h) world, coin_record corroborated_set) call" where
  "q_get_coin_records_by_puzzle_hashes_graded q = rt_get_coin_records_by_puzzle_hashes_graded (cq_router q)"

definition q_get_coin_records_by_hint_graded ::
  "('p, 'n, 'h) chia_query \<Rightarrow> string \<Rightarrow> u32 option \<Rightarrow> u32 option \<Rightarrow> bool \<Rightarrow> (('p, 'h) world, coin_record corroborated_set) call" where
  "q_get_coin_records_by_hint_graded q = rt_get_coin_records_by_hint_graded (cq_router q)"

definition q_get_coin_records_by_hints_graded ::
  "('p, 'n, 'h) chia_query \<Rightarrow> string list \<Rightarrow> u32 option \<Rightarrow> u32 option \<Rightarrow> bool \<Rightarrow> (('p, 'h) world, coin_record corroborated_set) call" where
  "q_get_coin_records_by_hints_graded q = rt_get_coin_records_by_hints_graded (cq_router q)"

definition q_get_coin_records_by_names_graded ::
  "('p, 'n, 'h) chia_query \<Rightarrow> string list \<Rightarrow> u32 option \<Rightarrow> u32 option \<Rightarrow> bool \<Rightarrow> (('p, 'h) world, coin_record corroborated_set) call" where
  "q_get_coin_records_by_names_graded q = rt_get_coin_records_by_names_graded (cq_router q)"

definition q_get_coin_records_by_parent_ids_graded ::
  "('p, 'n, 'h) chia_query \<Rightarrow> string list \<Rightarrow> u32 option \<Rightarrow> u32 option \<Rightarrow> bool \<Rightarrow> (('p, 'h) world, coin_record corroborated_set) call" where
  "q_get_coin_records_by_parent_ids_graded q = rt_get_coin_records_by_parent_ids_graded (cq_router q)"

definition q_get_memos_by_coin_name ::
  "('p, 'n, 'h) chia_query \<Rightarrow> string \<Rightarrow> (('p, 'h) world, json) call" where
  "q_get_memos_by_coin_name q = rt_get_memos_by_coin_name (cq_router q)"

definition q_get_puzzle_and_solution ::
  "('p, 'n, 'h) chia_query \<Rightarrow> string \<Rightarrow> u32 option \<Rightarrow> (('p, 'h) world, coin_spend) call" where
  "q_get_puzzle_and_solution q = rt_get_puzzle_and_solution (cq_router q)"

definition q_get_puzzle_and_solution_with_conditions ::
  "('p, 'n, 'h) chia_query \<Rightarrow> string \<Rightarrow> u32 option \<Rightarrow> (('p, 'h) world, coin_spend_with_conditions) call" where
  "q_get_puzzle_and_solution_with_conditions q = rt_get_puzzle_and_solution_with_conditions (cq_router q)"

definition q_push_tx ::
  "('p, 'n, 'h) chia_query \<Rightarrow> spend_bundle \<Rightarrow> (('p, 'h) world, tx_status) call" where
  "q_push_tx q = rt_push_tx (cq_router q)"

definition q_get_fee_estimate ::
  "('p, 'n, 'h) chia_query \<Rightarrow> spend_bundle option \<Rightarrow> u64 list option \<Rightarrow> u64 option \<Rightarrow> (('p, 'h) world, fee_estimate) call" where
  "q_get_fee_estimate q = rt_get_fee_estimate (cq_router q)"

definition q_get_aggsig_additional_data ::
  "('p, 'n, 'h) chia_query \<Rightarrow> (('p, 'h) world, string) call" where
  "q_get_aggsig_additional_data q = rt_get_aggsig_additional_data (cq_router q)"

definition q_get_network_info ::
  "('p, 'n, 'h) chia_query \<Rightarrow> (('p, 'h) world, network_info) call" where
  "q_get_network_info q = rt_get_network_info (cq_router q)"

definition q_get_blockchain_state ::
  "('p, 'n, 'h) chia_query \<Rightarrow> (('p, 'h) world, blockchain_state) call" where
  "q_get_blockchain_state q = rt_get_blockchain_state (cq_router q)"

definition q_get_network_space ::
  "('p, 'n, 'h) chia_query \<Rightarrow> string \<Rightarrow> string \<Rightarrow> (('p, 'h) world, u64) call" where
  "q_get_network_space q = rt_get_network_space (cq_router q)"

definition q_get_all_mempool_items ::
  "('p, 'n, 'h) chia_query \<Rightarrow> (('p, 'h) world, (string \<times> json) list) call" where
  "q_get_all_mempool_items q = rt_get_all_mempool_items (cq_router q)"

definition q_get_all_mempool_tx_ids ::
  "('p, 'n, 'h) chia_query \<Rightarrow> (('p, 'h) world, string list) call" where
  "q_get_all_mempool_tx_ids q = rt_get_all_mempool_tx_ids (cq_router q)"

definition q_get_mempool_item_by_tx_id ::
  "('p, 'n, 'h) chia_query \<Rightarrow> string \<Rightarrow> (('p, 'h) world, json) call" where
  "q_get_mempool_item_by_tx_id q = rt_get_mempool_item_by_tx_id (cq_router q)"

definition q_get_mempool_items_by_coin_name ::
  "('p, 'n, 'h) chia_query \<Rightarrow> string \<Rightarrow> bool option \<Rightarrow> (('p, 'h) world, json list) call" where
  "q_get_mempool_items_by_coin_name q = rt_get_mempool_items_by_coin_name (cq_router q)"


section \<open>\<open>wait_for_confirmation\<close>\<close>

text \<open>\<open>ti_now\<close> reads the clock of a world, \<open>ti_sleep\<close> lets a duration pass in it, and
  \<open>show_duration\<close> is the \<open>Debug\<close> text of a duration. A poll that does not return keeps the loop
  from returning; so does a clock that the sleeps do not advance.\<close>

record 'w time =
  ti_now :: "'w \<Rightarrow> nat"
  ti_sleep :: "nat \<Rightarrow> 'w \<Rightarrow> 'w"
  show_duration :: "nat \<Rightarrow> string"

definition confirmation :: "coin_record query \<Rightarrow> coin_record option" where
  "confirmation r =
     (case r of
        Inr rec \<Rightarrow> if confirmed_block_index rec > 0 then Some rec else None
      | Inl _ \<Rightarrow> None)"

definition not_confirmed :: "'w time \<Rightarrow> string \<Rightarrow> nat \<Rightarrow> chia_query_error" where
  "not_confirmed ti coin_id timeout =
     PeerConnection (''coin '' @ coin_id @ '' not confirmed within '' @ show_duration ti timeout)"

partial_function (option) wait_loop ::
  "'w time \<Rightarrow> ('w, coin_record) call \<Rightarrow> nat \<Rightarrow> nat \<Rightarrow> chia_query_error \<Rightarrow> 'w \<Rightarrow>
   (coin_record query \<times> 'w) option" where
  "wait_loop ti poll interval deadline err w =
     (case poll w of
        None \<Rightarrow> None
      | Some (r, w1) \<Rightarrow>
          (case confirmation r of
             Some rec \<Rightarrow> Some (Inr rec, w1)
           | None \<Rightarrow>
               if deadline < ti_now ti w1 + interval then Some (Inl err, w1)
               else wait_loop ti poll interval deadline err (ti_sleep ti interval w1)))"

definition wait_for_confirmation ::
  "(('p, 'h) world) time \<Rightarrow> ('p, 'n, 'h) chia_query \<Rightarrow> string \<Rightarrow> nat \<Rightarrow> nat \<Rightarrow>
   (('p, 'h) world, coin_record) call" where
  "wait_for_confirmation ti q coin_id interval timeout w =
     wait_loop ti (q_get_coin_record_by_name q coin_id) interval (ti_now ti w + timeout)
       (not_confirmed ti coin_id timeout) w"

text \<open>The world as the \<open>k\<close>-th poll finds it, when the ones before it returned.\<close>

fun before_poll ::
  "'w time \<Rightarrow> ('w, coin_record) call \<Rightarrow> nat \<Rightarrow> 'w \<Rightarrow> nat \<Rightarrow> 'w" where
  "before_poll ti poll interval w 0 = w"
| "before_poll ti poll interval w (Suc k) =
     (case poll w of
        None \<Rightarrow> w
      | Some (_, w1) \<Rightarrow> before_poll ti poll interval (ti_sleep ti interval w1) k)"

text \<open>What the loop relies on of the clock: a poll does not set it back, a sleep advances it by at
  least what was asked.\<close>

definition clock_ok :: "'w time \<Rightarrow> ('w, coin_record) call \<Rightarrow> bool" where
  "clock_ok ti poll \<longleftrightarrow>
     (\<forall>w r w1. poll w = Some (r, w1) \<longrightarrow> ti_now ti w \<le> ti_now ti w1) \<and>
     (\<forall>d w. ti_now ti w + d \<le> ti_now ti (ti_sleep ti d w))"

lemma wait_loop_returns:
  assumes "clock_ok ti poll" "0 < interval" "\<And>w. poll w \<noteq> None"
    and "ti_now ti w \<le> deadline"
  shows "\<exists>k r w1. k * interval \<le> deadline - ti_now ti w \<and>
    poll (before_poll ti poll interval w k) = Some (r, w1) \<and>
    (\<forall>i < k. \<exists>r w1. poll (before_poll ti poll interval w i) = Some (r, w1) \<and> confirmation r = None) \<and>
    (case confirmation r of
       Some rec \<Rightarrow> wait_loop ti poll interval deadline err w = Some (Inr rec, w1)
     | None \<Rightarrow> wait_loop ti poll interval deadline err w = Some (Inl err, w1) \<and>
         deadline < ti_now ti w1 + interval)"
  using assms(4)
proof (induction "deadline - ti_now ti w" arbitrary: w rule: less_induct)
  case less
  obtain r w1 where p: "poll w = Some (r, w1)"
    using assms(3) [of w] by auto
  have clock: "ti_now ti w \<le> ti_now ti w1" "\<And>d w. ti_now ti w + d \<le> ti_now ti (ti_sleep ti d w)"
    using assms(1) p by (auto simp: clock_ok_def)
  show ?case
  proof (cases "confirmation r = None \<and> ti_now ti w1 + interval \<le> deadline")
    case False
    then show ?thesis
      using p by (intro exI [of _ 0] exI [of _ r] exI [of _ w1])
        (auto simp: wait_loop.simps split: option.split)
  next
    case True
    define w2 where "w2 = ti_sleep ti interval w1"
    have now: "ti_now ti w + interval \<le> ti_now ti w2"
      using clock(1) clock(2) [of w1 interval] by (simp add: w2_def)
    have step: "wait_loop ti poll interval deadline err w = wait_loop ti poll interval deadline err w2"
      using p True by (subst wait_loop.simps) (simp add: w2_def)
    have shift: "before_poll ti poll interval w (Suc k) = before_poll ti poll interval w2 k" for k
      using p by (simp add: w2_def)
    show ?thesis
    proof (cases "ti_now ti w2 \<le> deadline")
      case True
      then have "deadline - ti_now ti w2 < deadline - ti_now ti w"
        using now assms(2) by linarith
      from less.hyps [OF this True] obtain k r' w' where k:
        "k * interval \<le> deadline - ti_now ti w2"
        "poll (before_poll ti poll interval w2 k) = Some (r', w')"
        "\<forall>i < k. \<exists>r w1. poll (before_poll ti poll interval w2 i) = Some (r, w1) \<and> confirmation r = None"
        "case confirmation r' of
           Some rec \<Rightarrow> wait_loop ti poll interval deadline err w2 = Some (Inr rec, w')
         | None \<Rightarrow> wait_loop ti poll interval deadline err w2 = Some (Inl err, w') \<and>
             deadline < ti_now ti w' + interval"
        by blast
      have "Suc k * interval \<le> deadline - ti_now ti w"
        using k(1) now True by simp
      moreover have "\<exists>r w1. poll (before_poll ti poll interval w i) = Some (r, w1) \<and> confirmation r = None"
        if "i < Suc k" for i
        using that k(3) p \<open>confirmation r = None \<and> _\<close> by (cases i) (auto simp only: shift before_poll.simps(1))
      ultimately show ?thesis
        using k(2,4) unfolding step by (intro exI [of _ "Suc k"] exI [of _ r'] exI [of _ w'])
          (simp only: shift, auto split: option.splits)
    next
      case False
      obtain r' w' where p2: "poll w2 = Some (r', w')"
        using assms(3) [of w2] by auto
      have "ti_now ti w2 \<le> ti_now ti w'"
        using assms(1) p2 by (auto simp: clock_ok_def)
      then have past: "deadline < ti_now ti w' + interval"
        using False by simp
      show ?thesis
        unfolding step
      proof (intro exI conjI)
        show "1 * interval \<le> deadline - ti_now ti w"
          using \<open>confirmation r = None \<and> _\<close> clock(1) by linarith
        show "poll (before_poll ti poll interval w 1) = Some (r', w')"
          using p2 shift [of 0] by simp
        show "\<forall>i < 1. \<exists>r w1. poll (before_poll ti poll interval w i) = Some (r, w1) \<and> confirmation r = None"
          using p \<open>confirmation r = None \<and> _\<close> by simp
      qed (use p2 past in \<open>auto simp: wait_loop.simps [of _ _ _ _ _ w2] split: option.split\<close>)
    qed
  qed
qed



text \<open>A client whose peers answer, that never falls back, in a world whose clock is a number.\<close>

definition timed_client :: "(nat, ctree, nat) chia_query" where
  "timed_client = \<lparr>cq_router =
     \<lparr>rt_hex = example_codec, rt_clvm = tree_clvm (\<lambda>_. Inl ()), rt_parse_node = (\<lambda>_. Inl ()),
      rt_wire = example_wire, rt_setting = (\<lambda>_. example_setting), rt_range = (\<lambda>_ _. example_setting),
      rt_to_value = (\<lambda>_. Inl []),
      rt_coinset = \<lparr>transport_post = (\<lambda>_ _. ret (Inl (CoinsetHttp []))), base_url = []\<rparr>,
      rt_serde = example_serde, coinset_fallback_enabled = False\<rparr>\<rparr>"

definition timed :: "(nat, nat) world time" where
  "timed = \<lparr>ti_now = snd, ti_sleep = (\<lambda>d w. (fst w, snd w + d)), show_duration = (\<lambda>_. ''1ns'')\<rparr>"

lemma peer_reads_return:
  assumes "\<not> fb (cq_router q)"
  shows "\<exists>r pool. q_get_coin_record_by_name q coin_id w = Some (r, (pool, snd w))"
  using assms
  by (auto simp: q_get_coin_record_by_name_def rt_get_coin_record_by_name_def bind_call_match
      rt_get_coin_record_by_name_opt_def peer_then_coinset_opt_def match_call_def on_peer_def ret_def
      settle_peer_answer_def second_voice_def split: prod.split sum.split opt_answer.split)

lemma timed_clock_ok: "clock_ok timed (q_get_coin_record_by_name timed_client coin_id)"
proof -
  have off: "\<not> fb (cq_router timed_client)" by (simp add: timed_client_def)
  have "snd w \<le> snd w1" if "q_get_coin_record_by_name timed_client coin_id w = Some (r, w1)" for w r w1
    using peer_reads_return [OF off, of coin_id w] that by auto
  then show ?thesis
    unfolding clock_ok_def timed_def by (metis (no_types, lifting) order_refl snd_conv time.select_convs)
qed



section \<open>What the independence group says is so\<close>

definition with_coinset ::
  "('p, 'n, 'h) chia_query \<Rightarrow> 'h coinset_client \<Rightarrow> ('p, 'n, 'h) chia_query" where
  "with_coinset q c = q\<lparr>cq_router := (cq_router q)\<lparr>rt_coinset := c\<rparr>\<rparr>"

lemma with_coinset_router [simp]:
  "rt_hex (cq_router (with_coinset q c)) = rt_hex (cq_router q)"
  "rt_clvm (cq_router (with_coinset q c)) = rt_clvm (cq_router q)"
  "rt_parse_node (cq_router (with_coinset q c)) = rt_parse_node (cq_router q)"
  "rt_wire (cq_router (with_coinset q c)) = rt_wire (cq_router q)"
  "rt_setting (cq_router (with_coinset q c)) = rt_setting (cq_router q)"
  "rt_range (cq_router (with_coinset q c)) = rt_range (cq_router q)"
  "rt_to_value (cq_router (with_coinset q c)) = rt_to_value (cq_router q)"
  "rt_serde (cq_router (with_coinset q c)) = rt_serde (cq_router q)"
  "coinset_fallback_enabled (cq_router (with_coinset q c)) = coinset_fallback_enabled (cq_router q)"
  by (simp_all add: with_coinset_def)

lemma peers_group_fallback:
  "independence_group q = CHIA_PEERS_INDEPENDENCE_GROUP \<longleftrightarrow> \<not> coinset_fallback_enabled (cq_router q)"
  by (simp add: independence_group_def independence_group_for_def COINSET_INDEPENDENCE_GROUP_def
      CHIA_PEERS_INDEPENDENCE_GROUP_def)

text \<open>With the fallback off no ladder has a place for coinset.\<close>

lemma ladder_off:
  "peer_then_coinset False p r c =
     match_call p (\<lambda>x. case x of Inr v \<Rightarrow> ret (Inr v) | Inl _ \<Rightarrow> match_call r ret)"
  by (auto simp: peer_then_coinset_def match_call_def ret_def fun_eq_iff split: option.split sum.split)

lemma second_voice_off: "second_voice False c settle = ret (settle None)"
  by (simp add: second_voice_def)

lemma opt_ladder_off:
  "peer_then_coinset_opt False claim p r c = peer_then_coinset_opt False claim p r c'"
proof -
  have "settle_peer_answer False claim a c = settle_peer_answer False claim a c'" for a
    by (cases a) (simp_all add: settle_peer_answer_def second_voice_off)
  then show ?thesis by (simp add: peer_then_coinset_opt_def cong: sum.case_cong)
qed

lemma set_ladder_off:
  "peer_then_coinset_set False p r s c pr = peer_then_coinset_set False p r s' c' pr"
proof -
  have "settle_set_answer False a pr c = settle_set_answer False a pr c'" for a
    by (cases a) (simp_all add: settle_set_answer_def second_voice_off)
  then show ?thesis by (simp add: peer_then_coinset_set_def cong: sum.case_cong)
qed

lemma coinset_only_off:
  "\<not> fb rt \<Longrightarrow> coinset_only rt endpoint f = ret (Inl (UnsupportedWithoutCoinset endpoint))"
  by (simp add: coinset_only_def require_coinset_def)




text \<open>A record from the peers carries no block timestamp: the protocol's coin state has none.\<close>

lemma peer_record_has_no_timestamp:
  assumes "independence_group q = CHIA_PEERS_INDEPENDENCE_GROUP"
    and "q_get_coin_record_by_name_opt q name wd = Some (Inr (Some r), wd')"
  shows "cr_timestamp r = 0"
proof -
  define rt where "rt = cq_router q"
  define attempt where
    "attempt = (\<lambda>k. try_get_coin_record_by_name_opt (rt_hex rt) (rt_wire rt) (rt_setting rt k) name)"
  have off: "\<not> fb rt" using assms(1) by (simp add: peers_group_fallback rt_def)
  with assms(2) obtain answer s1 where
    a: "answered (on_peer (attempt 0)) (on_peer (attempt 1)) wd answer s1"
    and s: "settle_peer_answer (fb rt) chain_claim_record answer
        (api rt (\<lambda>c sd. cs_get_coin_record_by_name_opt c sd name)) s1 = Some (Inr (Some r), wd')"
    unfolding q_get_coin_record_by_name_opt_def rt_get_coin_record_by_name_opt_def attempt_def
      peer_then_coinset_opt_Inr rt_def by blast
  from s off have answer: "answer = Found r"
    by (auto simp: settle_peer_answer_def second_voice_def ret_def settle_uncorroborated_presence_def
        settle_uncorroborated_absence_def split: opt_answer.splits)
  from a obtain k start where "attempt k start = (Inr answer, fst s1)"
    by (rule answered_on_peer)
  from found_asked [OF this [unfolded attempt_def try_get_coin_record_by_name_opt_def] disjI1 [OF answer]]
  obtain peer where "do_get_coin_record_by_name_opt (rt_hex rt) (rt_wire rt) name peer = Inr (Some r)"
    by blast
  then show ?thesis
    by (auto simp: do_get_coin_record_by_name_opt_def rbind_def coin_state_to_record_def split: sum.splits)
qed

end
