(* ===== verification/Light_Cache.thy ===== *)
theory Light_Cache
  imports Translate "HOL-Library.Finite_Map"
begin

text \<open>
  \<open>src/peer/light_client/cache.rs\<close>: the light client's mirror of the coin states it has subscribed
  to. Hash maps and sets are finite maps and finite sets; \<open>cid\<close> is \<open>chia_protocol\<close>'s
  \<open>Coin::coin_id\<close>. The lemmas show that no cached coin is above the peak after any operation, what
  an update leaves of every coin, when it may lower the peak, and how far it can grow the cache.
\<close>

section \<open>The cache\<close>

type_synonym coin_namer = "proto_coin \<Rightarrow> bytes"

definition MAX_COINS_PER_PUZZLE_HASH :: nat where
  "MAX_COINS_PER_PUZZLE_HASH = 10000"

record coin_cache =
  cached :: "(bytes, coin_state) fmap"
  subscribed_coins :: "bytes fset"
  subscribed_puzzle_hashes :: "bytes fset"
  cache_peak :: "(u32 \<times> bytes) option"

definition empty_cache :: coin_cache where
  "empty_cache =
     \<lparr>cached = fmempty, subscribed_coins = {||}, subscribed_puzzle_hashes = {||}, cache_peak = None\<rparr>"

definition cache_get :: "coin_cache \<Rightarrow> bytes \<Rightarrow> coin_state option" where
  "cache_get c k = fmlookup (cached c) k"

definition is_subscribed_coin :: "coin_cache \<Rightarrow> bytes \<Rightarrow> bool" where
  "is_subscribed_coin c k \<longleftrightarrow> k |\<in>| subscribed_coins c"

definition is_subscribed :: "coin_namer \<Rightarrow> coin_cache \<Rightarrow> coin_state \<Rightarrow> bool" where
  "is_subscribed cid c st \<longleftrightarrow>
     cid (cst_coin st) |\<in>| subscribed_coins c \<or>
     pc_puzzle_hash (cst_coin st) |\<in>| subscribed_puzzle_hashes c"

definition max_cached_coins :: "coin_cache \<Rightarrow> nat" where
  "max_cached_coins c =
     sat_add_usize (fcard (subscribed_coins c))
       (sat_mul_usize (fcard (subscribed_puzzle_hashes c)) MAX_COINS_PER_PUZZLE_HASH)"

text \<open>\<open>is_some_and(|h| h > bound)\<close>.\<close>

fun is_above :: "u32 option \<Rightarrow> u32 \<Rightarrow> bool" where
  "is_above None bound = False"
| "is_above (Some h) bound = (bound < h)"

text \<open>\<open>cache_coin\<close>, the one way in: never above the peak, never a new coin past the cap.\<close>

definition cache_coin :: "coin_namer \<Rightarrow> coin_state \<Rightarrow> coin_cache \<Rightarrow> coin_cache" where
  "cache_coin cid st c =
     (if (case cache_peak c of None \<Rightarrow> False | Some (peak, _) \<Rightarrow> is_above (created_height st) peak) then c
      else
        let k = cid (cst_coin st)
        in if fmlookup (cached c) k = None \<and> max_cached_coins c \<le> fcard (fmdom (cached c)) then c
           else c\<lparr>cached := fmupd k st (cached c)\<rparr>)"

definition retain_below :: "u32 \<Rightarrow> (bytes, coin_state) fmap \<Rightarrow> (bytes, coin_state) fmap" where
  "retain_below peak m =
     fmfilter (\<lambda>k. \<not> (case fmlookup m k of None \<Rightarrow> True | Some st \<Rightarrow> is_above (created_height st) peak)) m"

definition update_peak :: "u32 \<Rightarrow> bytes \<Rightarrow> bool \<Rightarrow> coin_cache \<Rightarrow> coin_cache" where
  "update_peak h hash allow_lower c =
     (if (case cache_peak c of None \<Rightarrow> True | Some (current, _) \<Rightarrow> current \<le> h \<or> allow_lower)
      then c\<lparr>cache_peak := Some (h, hash), cached := retain_below h (cached c)\<rparr>
      else c)"

definition set_peak :: "u32 \<Rightarrow> bytes \<Rightarrow> coin_cache \<Rightarrow> coin_cache" where
  "set_peak h hash c = update_peak h hash False c"

definition seed :: "coin_namer \<Rightarrow> coin_state list \<Rightarrow> coin_cache \<Rightarrow> coin_cache" where
  "seed cid states c = fold (cache_coin cid) states c"

definition track_coins :: "bytes list \<Rightarrow> coin_cache \<Rightarrow> coin_cache" where
  "track_coins ids c = c\<lparr>subscribed_coins := subscribed_coins c |\<union>| fset_of_list ids\<rparr>"

definition track_puzzle_hashes :: "bytes list \<Rightarrow> coin_cache \<Rightarrow> coin_cache" where
  "track_puzzle_hashes phs c =
     c\<lparr>subscribed_puzzle_hashes := subscribed_puzzle_hashes c |\<union>| fset_of_list phs\<rparr>"

definition untrack_coins :: "bytes list \<Rightarrow> coin_cache \<Rightarrow> coin_cache" where
  "untrack_coins ids c = c\<lparr>subscribed_coins := subscribed_coins c |-| fset_of_list ids\<rparr>"

text \<open>The two effects of a fork on a cached coin the update does not mention, and the \<open>retain\<close>
  that has them. \<open>rolled_back\<close> is the flag it raises.\<close>

definition touched :: "u32 \<Rightarrow> coin_state \<Rightarrow> bool" where
  "touched fork st \<longleftrightarrow> is_above (created_height st) fork \<or> is_above (spent_height st) fork"

definition unspend_above :: "u32 \<Rightarrow> coin_state \<Rightarrow> coin_state" where
  "unspend_above fork st = (if is_above (spent_height st) fork then st\<lparr>spent_height := None\<rparr> else st)"

definition rollback :: "bytes fset \<Rightarrow> u32 \<Rightarrow> (bytes, coin_state) fmap \<Rightarrow> (bytes, coin_state) fmap" where
  "rollback reasserted fork m =
     fmmap_keys (\<lambda>k st. if k |\<in>| reasserted then st else unspend_above fork st)
       (fmfilter (\<lambda>k. k |\<in>| reasserted \<or>
          \<not> (case fmlookup m k of None \<Rightarrow> True | Some st \<Rightarrow> is_above (created_height st) fork)) m)"

definition rolled_back :: "bytes fset \<Rightarrow> u32 \<Rightarrow> (bytes, coin_state) fmap \<Rightarrow> bool" where
  "rolled_back reasserted fork m \<longleftrightarrow>
     fBex (fmdom m) (\<lambda>k. k |\<notin>| reasserted \<and>
       (case fmlookup m k of None \<Rightarrow> False | Some st \<Rightarrow> touched fork st))"

definition reasserted_by :: "coin_namer \<Rightarrow> coin_cache \<Rightarrow> coin_state list \<Rightarrow> bytes fset" where
  "reasserted_by cid c items = fset_of_list (map (\<lambda>st. cid (cst_coin st)) (filter (is_subscribed cid c) items))"

definition is_genuine_reorg ::
  "coin_namer \<Rightarrow> coin_state list \<Rightarrow> u32 \<Rightarrow> u32 \<Rightarrow> coin_cache \<Rightarrow> bool" where
  "is_genuine_reorg cid items h fork c \<longleftrightarrow>
     rolled_back (reasserted_by cid c items) fork (cached c) \<and> fork \<le> h \<and>
     (case cache_peak c of None \<Rightarrow> False | Some (current, _) \<Rightarrow> fork < current)"

definition admit_item :: "coin_namer \<Rightarrow> coin_state \<Rightarrow> coin_cache \<Rightarrow> coin_cache" where
  "admit_item cid st c = (if is_subscribed cid c st then cache_coin cid st c else c)"

definition apply_update ::
  "coin_namer \<Rightarrow> coin_state list \<Rightarrow> u32 \<Rightarrow> u32 \<Rightarrow> bytes \<Rightarrow> coin_cache \<Rightarrow> coin_cache" where
  "apply_update cid items h fork peak_hash c =
     fold (admit_item cid) items
       (update_peak h peak_hash (is_genuine_reorg cid items h fork c)
         (c\<lparr>cached := rollback (reasserted_by cid c items) fork (cached c)\<rparr>))"


section \<open>What the pieces of an update do\<close>

lemma lookup_rollback:
  "fmlookup (rollback R fork m) k =
     (case fmlookup m k of
        None \<Rightarrow> None
      | Some st \<Rightarrow>
          if k |\<in>| R then Some st
          else if is_above (created_height st) fork then None
          else Some (unspend_above fork st))"
  by (auto simp: rollback_def split: option.split)

lemma lookup_retain_below:
  "fmlookup (retain_below peak m) k =
     (case fmlookup m k of
        None \<Rightarrow> None
      | Some st \<Rightarrow> if is_above (created_height st) peak then None else Some st)"
  by (auto simp: retain_below_def split: option.split)

lemma unspend_above_same [simp]:
  "cst_coin (unspend_above fork st) = cst_coin st"
  "created_height (unspend_above fork st) = created_height st"
  by (simp_all add: unspend_above_def)

lemma cache_coin_subscriptions [simp]:
  "subscribed_coins (cache_coin cid st c) = subscribed_coins c"
  "subscribed_puzzle_hashes (cache_coin cid st c) = subscribed_puzzle_hashes c"
  "cache_peak (cache_coin cid st c) = cache_peak c"
  by (simp_all add: cache_coin_def Let_def)

lemma update_peak_subscriptions [simp]:
  "subscribed_coins (update_peak h hash b c) = subscribed_coins c"
  "subscribed_puzzle_hashes (update_peak h hash b c) = subscribed_puzzle_hashes c"
  by (simp_all add: update_peak_def)

lemma is_subscribed_cong:
  assumes "subscribed_coins c' = subscribed_coins c"
    and "subscribed_puzzle_hashes c' = subscribed_puzzle_hashes c"
  shows "is_subscribed cid c' = is_subscribed cid c" "max_cached_coins c' = max_cached_coins c"
  using assms by (auto simp: is_subscribed_def max_cached_coins_def)

lemma admit_item_subscriptions [simp]:
  "subscribed_coins (admit_item cid st c) = subscribed_coins c"
  "subscribed_puzzle_hashes (admit_item cid st c) = subscribed_puzzle_hashes c"
  "cache_peak (admit_item cid st c) = cache_peak c"
  by (simp_all add: admit_item_def)

lemma admit_items_subscriptions [simp]:
  "subscribed_coins (fold (admit_item cid) items c) = subscribed_coins c"
  "subscribed_puzzle_hashes (fold (admit_item cid) items c) = subscribed_puzzle_hashes c"
  "cache_peak (fold (admit_item cid) items c) = cache_peak c"
  by (induction items arbitrary: c) simp_all

lemma apply_update_subscriptions [simp]:
  "subscribed_coins (apply_update cid items h fork hash c) = subscribed_coins c"
  "subscribed_puzzle_hashes (apply_update cid items h fork hash c) = subscribed_puzzle_hashes c"
  by (simp_all add: apply_update_def)

section \<open>No cached coin is above the peak\<close>

definition cache_ok :: "coin_namer \<Rightarrow> coin_cache \<Rightarrow> bool" where
  "cache_ok cid c \<longleftrightarrow>
     (\<forall>k st. fmlookup (cached c) k = Some st \<longrightarrow>
        cid (cst_coin st) = k \<and>
        (\<forall>peak hash. cache_peak c = Some (peak, hash) \<longrightarrow> \<not> is_above (created_height st) peak))"

lemma empty_cache_ok: "cache_ok cid empty_cache"
  by (simp add: cache_ok_def empty_cache_def)

lemma cache_coin_ok: "cache_ok cid c \<Longrightarrow> cache_ok cid (cache_coin cid st c)"
  by (auto simp: cache_ok_def cache_coin_def Let_def split: option.splits)

lemma update_peak_ok:
  assumes "\<And>k st. fmlookup (cached c) k = Some st \<Longrightarrow> cid (cst_coin st) = k"
    and "\<And>k st peak hash. fmlookup (cached c) k = Some st \<Longrightarrow> cache_peak c = Some (peak, hash) \<Longrightarrow>
      \<not> (peak \<le> h \<or> b) \<Longrightarrow> \<not> is_above (created_height st) peak"
  shows "cache_ok cid (update_peak h hash b c)"
  using assms by (force simp: cache_ok_def update_peak_def lookup_retain_below split: option.splits if_splits)

lemma update_peak_keeps: "cache_ok cid c \<Longrightarrow> cache_ok cid (update_peak h hash b c)"
  by (rule update_peak_ok) (auto simp: cache_ok_def)

lemma set_peak_ok: "cache_ok cid c \<Longrightarrow> cache_ok cid (set_peak h hash c)"
  unfolding set_peak_def by (rule update_peak_keeps)

lemma seed_ok: "cache_ok cid c \<Longrightarrow> cache_ok cid (seed cid states c)"
  unfolding seed_def by (induction states arbitrary: c) (simp_all add: cache_coin_ok)

lemma tracking_ok:
  "cache_ok cid (track_coins ids c) = cache_ok cid c"
  "cache_ok cid (track_puzzle_hashes phs c) = cache_ok cid c"
  "cache_ok cid (untrack_coins ids c) = cache_ok cid c"
  by (simp_all add: cache_ok_def track_coins_def track_puzzle_hashes_def untrack_coins_def)

lemma admit_item_ok: "cache_ok cid c \<Longrightarrow> cache_ok cid (admit_item cid st c)"
  by (simp add: admit_item_def cache_coin_ok)

lemma rollback_ok:
  "cache_ok cid c \<Longrightarrow> cache_ok cid (c\<lparr>cached := rollback R fork (cached c)\<rparr>)"
  by (auto simp: cache_ok_def lookup_rollback split: option.splits if_splits)

lemma apply_update_ok:
  assumes "cache_ok cid c"
  shows "cache_ok cid (apply_update cid items h fork hash c)"
proof -
  let ?c = "c\<lparr>cached := rollback (reasserted_by cid c items) fork (cached c)\<rparr>"
  have "cache_ok cid ?c" by (rule rollback_ok [OF assms])
  then have "cache_ok cid (update_peak h hash b ?c)" for b
    by (rule update_peak_keeps)
  moreover have "cache_ok cid (fold (admit_item cid) items c')" if "cache_ok cid c'" for c'
    using that by (induction items arbitrary: c') (simp_all add: admit_item_ok)
  ultimately show ?thesis by (simp add: apply_update_def)
qed

lemmas cache_op_ok = cache_coin_ok set_peak_ok seed_ok tracking_ok apply_update_ok

text \<open>What the invariant is for: the consumer's \<open>peak - created\<close> does not wrap.\<close>

lemma depth_does_not_wrap:
  fixes peak created :: u32
  assumes "\<not> is_above (Some created) peak"
  shows "unat (peak - created) = unat peak - unat created"
  using assms by (simp add: unat_sub not_less)


section \<open>What an update leaves of a coin\<close>

text \<open>The fork's effect on one cached coin and the sweep below the new peak, as a function of the
  entry; and the last item for the coin that can be admitted.\<close>

definition kept :: "bool \<Rightarrow> u32 \<Rightarrow> u32 \<Rightarrow> coin_state \<Rightarrow> coin_state option" where
  "kept reasserted fork peak st =
     (if is_above (created_height st) peak then None
      else if reasserted then Some st
      else if is_above (created_height st) fork then None
      else Some (unspend_above fork st))"

definition peak_after :: "coin_namer \<Rightarrow> coin_state list \<Rightarrow> u32 \<Rightarrow> u32 \<Rightarrow> bytes \<Rightarrow> coin_cache \<Rightarrow> u32 \<times> bytes" where
  "peak_after cid items h fork hash c =
     (case cache_peak c of
        None \<Rightarrow> (h, hash)
      | Some (current, old) \<Rightarrow>
          if current \<le> h \<or> is_genuine_reorg cid items h fork c then (h, hash) else (current, old))"

lemma cache_peak_apply_update:
  "cache_peak (apply_update cid items h fork hash c) = Some (peak_after cid items h fork hash c)"
  by (auto simp: apply_update_def update_peak_def peak_after_def split: option.split)

lemma lookup_before_items:
  assumes "cache_ok cid c"
  shows "fmlookup (cached (update_peak h hash (is_genuine_reorg cid items h fork c)
      (c\<lparr>cached := rollback R fork (cached c)\<rparr>))) k =
    Option.bind (fmlookup (cached c) k) (kept (k |\<in>| R) fork (fst (peak_after cid items h fork hash c)))"
proof (cases "fmlookup (cached c) k")
  case None
  then show ?thesis
    by (simp add: update_peak_def lookup_retain_below lookup_rollback split: option.split)
next
  case (Some st)
  then have "\<not> is_above (created_height st) peak" if "cache_peak c = Some (peak, x)" for peak x
    using assms that by (auto simp: cache_ok_def)
  then show ?thesis
    using Some by (auto simp: update_peak_def lookup_retain_below lookup_rollback kept_def peak_after_def
        split: option.split)
qed

lemma fcard_fmdom_fmupd: "fcard (fmdom (fmupd k v m)) \<le> Suc (fcard (fmdom m))"
  by (simp add: fcard_finsert_if)

lemma fcard_ffilter [simp]: "fcard (ffilter P A) \<le> fcard A"
  by (rule fcard_mono) auto

lemma find_append:
  "find P (xs @ ys) = (case find P xs of None \<Rightarrow> find P ys | Some x \<Rightarrow> Some x)"
  by (induction xs) simp_all

definition admissible :: "coin_namer \<Rightarrow> coin_cache \<Rightarrow> u32 \<Rightarrow> bytes \<Rightarrow> coin_state \<Rightarrow> bool" where
  "admissible cid c peak k st \<longleftrightarrow>
     cid (cst_coin st) = k \<and> is_subscribed cid c st \<and> \<not> is_above (created_height st) peak"

lemma lookup_items:
  assumes "cache_peak c = Some (peak, hash)"
    and "fcard (fmdom (cached c)) + length items \<le> max_cached_coins c"
  shows "fmlookup (cached (fold (admit_item cid) items c)) k =
    (case find (admissible cid c peak k) (rev items) of
       Some st \<Rightarrow> Some st
     | None \<Rightarrow> fmlookup (cached c) k)"
  using assms
proof (induction items arbitrary: c)
  case Nil
  then show ?case by simp
next
  case (Cons st items)
  let ?c = "admit_item cid st c"
  have room: "\<not> max_cached_coins c \<le> fcard (fmdom (cached c))" using Cons.prems(2) by simp
  have step: "fmlookup (cached ?c) k =
      (if admissible cid c peak k st then Some st else fmlookup (cached c) k)"
    using room Cons.prems(1) by (auto simp: admit_item_def cache_coin_def admissible_def Let_def)
  have "fcard (fmdom (cached ?c)) \<le> Suc (fcard (fmdom (cached c)))"
    by (simp add: admit_item_def cache_coin_def Let_def fcard_finsert_if)
  moreover have same: "is_subscribed cid ?c = is_subscribed cid c" "max_cached_coins ?c = max_cached_coins c"
    by (rule is_subscribed_cong; simp)+
  ultimately have "fmlookup (cached (fold (admit_item cid) items ?c)) k =
      (case find (admissible cid ?c peak k) (rev items) of Some st \<Rightarrow> Some st | None \<Rightarrow> fmlookup (cached ?c) k)"
    using Cons.prems by (intro Cons.IH) simp_all
  moreover have "admissible cid ?c peak k = admissible cid c peak k"
    by (simp add: admissible_def fun_eq_iff same)
  ultimately show ?case
    by (simp add: step find_append split: option.split)
qed

lemma rollback_fcard: "fcard (fmdom (rollback R fork m)) \<le> fcard (fmdom m)"
  by (simp add: rollback_def)

lemma update_peak_fcard: "fcard (fmdom (cached (update_peak h hash b c))) \<le> fcard (fmdom (cached c))"
  by (simp add: update_peak_def retain_below_def)


text \<open>A cache of three subscribed coins at peak 100, and a reorganisation to 90 from fork 89: the first
  coin is reasserted unspent, the second was created above the fork, the third spent above it.\<close>

definition named :: coin_namer where
  "named c = pc_parent_coin_info c"

definition state_of :: "u8 \<Rightarrow> u32 \<Rightarrow> u32 option \<Rightarrow> coin_state" where
  "state_of n created gone =
     \<lparr>cst_coin = \<lparr>pc_parent_coin_info = [n], pc_puzzle_hash = [0], pc_amount = 1\<rparr>,
      spent_height = gone, created_height = Some created\<rparr>"

definition three_coins :: coin_cache where
  "three_coins = \<lparr>cached = fmupd [3] (state_of 3 50 (Some 95)) (fmupd [2] (state_of 2 95 None)
       (fmupd [1] (state_of 1 80 (Some 92)) fmempty)),
     subscribed_coins = {|[1], [2], [3], [4]|}, subscribed_puzzle_hashes = {||}, cache_peak = Some (100, [170])\<rparr>"

lemma three_coins_ok: "cache_ok named three_coins"
  by (auto simp: cache_ok_def three_coins_def named_def state_of_def split: if_splits)

lemma three_coins_reorg:
  "reasserted_by named three_coins [state_of 1 80 None] = {|[1]|}"
  "peak_after named [state_of 1 80 None] 90 89 [187] three_coins = (90, [187])"
  by (simp_all add: reasserted_by_def is_subscribed_def three_coins_def named_def state_of_def peak_after_def
      is_genuine_reorg_def rolled_back_def touched_def)


section \<open>What an update can add\<close>

text \<open>Nothing enters that was not asked for, and the cache never grows past its cap.\<close>

lemma unsolicited_is_dropped:
  assumes "cache_get (apply_update cid items h fork hash c) k = Some st" "cache_get c k = None"
  shows "st \<in> set items \<and> is_subscribed cid c st"
proof -
  let ?c = "update_peak h hash (is_genuine_reorg cid items h fork c)
    (c\<lparr>cached := rollback (reasserted_by cid c items) fork (cached c)\<rparr>)"
  have none: "fmlookup (cached ?c) k = None"
    using assms(2)
    by (simp add: update_peak_def lookup_retain_below lookup_rollback cache_get_def split: option.split)
  have "fmlookup (cached c') k = Some st \<or> st \<in> set items \<and> is_subscribed cid c' st"
    if "fmlookup (cached (fold (admit_item cid) items c')) k = Some st" for c'
    using that
  proof (induction items arbitrary: c')
    case (Cons i items)
    have same: "is_subscribed cid (admit_item cid i c') = is_subscribed cid c'"
      by (rule is_subscribed_cong) simp_all
    have "fmlookup (cached (admit_item cid i c')) k = Some st \<Longrightarrow>
        fmlookup (cached c') k = Some st \<or> st = i \<and> is_subscribed cid c' i"
      by (auto simp: admit_item_def cache_coin_def Let_def split: if_splits)
    then show ?case
      using Cons.IH [of "admit_item cid i c'"] Cons.prems same by auto
  qed simp
  from this [of ?c] assms(1) none show ?thesis
    using is_subscribed_cong(1) [of ?c c] by (simp add: apply_update_def cache_get_def)
qed

lemma admit_items_cap:
  "fcard (fmdom (cached (fold (admit_item cid) items c))) \<le>
     max (fcard (fmdom (cached c))) (max_cached_coins c)"
proof (induction items arbitrary: c)
  case (Cons i items)
  have same: "max_cached_coins (admit_item cid i c) = max_cached_coins c"
    by (rule is_subscribed_cong) simp_all
  have "fcard (fmdom (cached (admit_item cid i c))) \<le> max (fcard (fmdom (cached c))) (max_cached_coins c)"
    by (auto simp: admit_item_def cache_coin_def Let_def fcard_finsert_if fmdom_notI fmlookup_dom_iff)
  then show ?case
    using Cons.IH [of "admit_item cid i c"] by (simp add: same)
qed simp

lemma update_is_bounded:
  "fcard (fmdom (cached (apply_update cid items h fork hash c))) \<le>
     max (fcard (fmdom (cached c))) (max_cached_coins c)"
proof -
  let ?c1 = "c\<lparr>cached := rollback (reasserted_by cid c items) fork (cached c)\<rparr>"
  let ?c2 = "update_peak h hash (is_genuine_reorg cid items h fork c) ?c1"
  have "fcard (fmdom (cached ?c2)) \<le> fcard (fmdom (cached c))"
    using update_peak_fcard [of h hash "is_genuine_reorg cid items h fork c" ?c1]
      rollback_fcard [of "reasserted_by cid c items" fork "cached c"] by simp
  moreover have "max_cached_coins ?c2 = max_cached_coins c"
    by (rule is_subscribed_cong) simp_all
  ultimately show ?thesis
    using admit_items_cap [of cid items ?c2] by (simp add: apply_update_def)
qed

end
