(* ===== verification/Light_Fetcher.thy ===== *)
theory Light_Fetcher
  imports Light_Cache Peer_Requests
begin

text \<open>
  \<open>src/peer/light_client/error.rs\<close> and \<open>fetcher.rs\<close>: the light client's errors and their mapping
  onto the chain-source interface, the anchor - the one pooled session its subscriptions are armed
  on - and every read and write issued through it, with the bounded page walk. The calls made on a
  session are the record \<open>session_wire\<close>; \<open>dial\<close> and \<open>now\<close> are those of the pool's \<open>pick\<close>.
\<close>

section \<open>Errors\<close>

datatype light_error =
    LTransport string
  | LRejected string
  | LMalformed string
  | LTimeout
  | LPeerDiscoveryFailed
  | LNotConnected

text \<open>The variants of the interface's \<open>ChainSourceError\<close> that the crate constructs.\<close>

datatype chain_source_error =
    CTransport string
  | CMalformed string
  | CTimeout
  | CUnsupported string
  | CNoProvider
  | CTooManyRecords nat nat

type_synonym 'a sourced = "chain_source_error + 'a"
type_synonym 'a lighted = "light_error + 'a"

definition looks_like_timeout :: "string \<Rightarrow> bool" where
  "looks_like_timeout message =
     (let lower = to_ascii_lowercase message
      in str_contains lower ''timed out'' \<or> str_contains lower ''timeout'')"

fun of_light_error :: "light_error \<Rightarrow> chain_source_error" where
  "of_light_error LTimeout = CTimeout"
| "of_light_error (LTransport m) = (if looks_like_timeout m then CTimeout else CTransport m)"
| "of_light_error (LRejected m) = CTransport m"
| "of_light_error (LMalformed m) = CMalformed m"
| "of_light_error LPeerDiscoveryFailed = CTransport ''peer discovery failed''"
| "of_light_error LNotConnected = CTransport ''light client is not connected''"

text \<open>\<open>ChiaQueryError\<close> under \<open>to_string\<close> is \<open>error_to_string\<close> (\<open>Types\<close>).\<close>

section \<open>The session calls\<close>

record 'p session_wire =
  sw_coin_state :: "'p \<Rightarrow> bytes list \<Rightarrow> u32 option \<Rightarrow> bytes \<Rightarrow> bool \<Rightarrow> coin_state list reply"
  sw_puzzle_state :: "'p \<Rightarrow> nat \<Rightarrow> bytes list \<Rightarrow> u32 option \<Rightarrow> bytes \<Rightarrow> coin_state_filters \<Rightarrow> bool \<Rightarrow>
    puzzle_state_page reply"
  sw_children :: "'p \<Rightarrow> bytes \<Rightarrow> coin_state list reply"
  sw_puzzle_and_solution :: "'p \<Rightarrow> bytes \<Rightarrow> u32 \<Rightarrow> puzzle_solution_response reply"
  sw_send_transaction :: "'p \<Rightarrow> proto_bundle \<Rightarrow> (u8 \<times> string option) reply"
  sw_remove_coin_subscriptions :: "'p \<Rightarrow> bytes list \<Rightarrow> unit reply"
  sw_genesis :: bytes

text \<open>The \<open>map_err\<close>s of the requests: of one whose rejection is an error, and of one that has none
  (a body that does not decode is a client error).\<close>

fun answered_or :: "string \<Rightarrow> 'a reply \<Rightarrow> 'a lighted" where
  "answered_or no TimedOut = Inl LTimeout"
| "answered_or no (ClientError e) = Inl (LTransport e)"
| "answered_or no Rejected = Inl (LRejected no)"
| "answered_or no (Reply x) = Inr x"

fun answered_always :: "'a reply \<Rightarrow> 'a lighted" where
  "answered_always TimedOut = Inl LTimeout"
| "answered_always (ClientError e) = Inl (LTransport e)"
| "answered_always Rejected = Inl (LTransport [])"
| "answered_always (Reply x) = Inr x"

section \<open>The anchor\<close>

text \<open>\<open>handed\<close> is the unbounded channel of frame subscriptions to the drive-loop, oldest first:
  the number of each channel of the pool's fan-out and the session it names. \<open>drive_open\<close> says
  whether the loop still reads it.\<close>

record 'p anchor =
  an_peer :: 'p
  an_address :: socket_addr
  an_source :: frame_source
  an_origin :: peer_origin

record 'p fetcher =
  f_pool :: "'p peer_pool"
  f_anchor :: "'p anchor option"
  handed :: "(nat \<times> frame_source) list"
  drive_open :: bool
  rearm_needed :: bool

definition FRAME_BUFFER :: nat where
  "FRAME_BUFFER = 1024"

definition fetcher_new :: "'p peer_pool \<Rightarrow> 'p fetcher" where
  "fetcher_new pool =
     \<lparr>f_pool = pool, f_anchor = None, handed = [], drive_open = True, rearm_needed = False\<rparr>"

definition clear_rearm :: "'p fetcher \<Rightarrow> 'p fetcher" where
  "clear_rearm f = f\<lparr>rearm_needed := False\<rparr>"

text \<open>\<open>pick\<close> with its error as a transport error.\<close>

definition f_pick :: "'p dial \<Rightarrow> nat \<Rightarrow> 'p fetcher \<Rightarrow> ('p \<times> socket_addr) lighted \<times> 'p fetcher" where
  "f_pick dial now f =
     (case pick dial now (f_pool f) of
        (r, pool) \<Rightarrow> (map_err (\<lambda>e. LTransport (error_to_string e)) r, f\<lparr>f_pool := pool\<rparr>))"

text \<open>What runs beside an operation: the pool's other tasks at its awaits on the pool, and whatever
  else holds the fetcher while a request is in flight.\<close>

record 'p light_setting =
  ls_dial :: "'p dial"
  ls_now :: nat
  ls_env :: "nat \<Rightarrow> 'p peer_pool \<Rightarrow> 'p peer_pool"
  ls_during :: "'p fetcher \<Rightarrow> 'p fetcher"

text \<open>\<open>anchor\<close>: pinning and following under one lock. The address picked is looked up twice more,
  for its origin and for the session to subscribe to.\<close>

definition pin ::
  "'p \<Rightarrow> socket_addr \<Rightarrow> peer_origin \<Rightarrow> 'p peer_pool \<Rightarrow> 'p fetcher \<Rightarrow> 'p anchor lighted \<times> 'p fetcher" where
  "pin peer address origin pool f =
     (case (subscribe_frames address FRAME_BUFFER pool,
            List.find (\<lambda>e. pe_address e = address) (entries pool)) of
        ((Some i, pool'), Some e) \<Rightarrow>
          (let a = \<lparr>an_peer = peer, an_address = address, an_source = entry_source e, an_origin = origin\<rparr>
           in (Inr a, f\<lparr>f_pool := pool', f_anchor := Some a,
                 handed := (if drive_open f then handed f @ [(i, entry_source e)] else handed f)\<rparr>))
      | ((_, pool'), _) \<Rightarrow> (Inl LNotConnected, f\<lparr>f_pool := pool'\<rparr>))"

definition anchor_session :: "'p light_setting \<Rightarrow> 'p fetcher \<Rightarrow> 'p anchor lighted \<times> 'p fetcher" where
  "anchor_session ls f =
     (case f_anchor f of
        Some a \<Rightarrow> (Inr a, f)
      | None \<Rightarrow>
          (case f_pick (ls_dial ls) (ls_now ls) f of
             (Inl e, f1) \<Rightarrow> (Inl e, f1)
           | (Inr (peer, address), f1) \<Rightarrow>
               (let pool1 = ls_env ls 0 (f_pool f1)
                in case origin_of pool1 address of
                     None \<Rightarrow> (Inl LNotConnected, f1\<lparr>f_pool := pool1\<rparr>)
                   | Some origin \<Rightarrow> pin peer address origin (ls_env ls 1 pool1) f1)))"

definition anchor_source :: "'p fetcher \<Rightarrow> frame_source option" where
  "anchor_source f = map_option an_source (f_anchor f)"

definition release_anchor :: "frame_source \<Rightarrow> 'p fetcher \<Rightarrow> 'p fetcher" where
  "release_anchor source f =
     (if (case f_anchor f of None \<Rightarrow> False | Some a \<Rightarrow> an_source a = source)
      then f\<lparr>f_anchor := None, rearm_needed := True\<rparr> else f)"

definition release_anchor_at :: "socket_addr \<Rightarrow> 'p fetcher \<Rightarrow> 'p fetcher" where
  "release_anchor_at address f =
     (if (case f_anchor f of None \<Rightarrow> False | Some a \<Rightarrow> an_address a = address)
      then f\<lparr>f_anchor := None, rearm_needed := True\<rparr> else f)"

definition discard :: "socket_addr \<Rightarrow> 'p fetcher \<Rightarrow> 'p fetcher" where
  "discard address f = release_anchor_at address (f\<lparr>f_pool := eject_peer address (f_pool f)\<rparr>)"

section \<open>Requests\<close>

definition f_session ::
  "'p light_setting \<Rightarrow> bool \<Rightarrow> 'p fetcher \<Rightarrow> ('p \<times> socket_addr) lighted \<times> 'p fetcher" where
  "f_session ls subscribing f =
     (if subscribing
      then case anchor_session ls f of
             (r, f1) \<Rightarrow> (map_ok (\<lambda>a. (an_peer a, an_address a)) r, f1)
      else f_pick (ls_dial ls) (ls_now ls) f)"

text \<open>The shape of every request: a session, the call, and the peer discarded when it failed.\<close>

definition issue ::
  "'p light_setting \<Rightarrow> bool \<Rightarrow> ('p \<Rightarrow> 'a lighted) \<Rightarrow> 'p fetcher \<Rightarrow> 'a lighted \<times> 'p fetcher" where
  "issue ls subscribing request f =
     (case f_session ls subscribing f of
        (Inl e, f1) \<Rightarrow> (Inl e, f1)
      | (Inr (peer, address), f1) \<Rightarrow>
          (let f2 = ls_during ls f1
           in case request peer of
                Inr x \<Rightarrow> (Inr x, f2)
              | Inl e \<Rightarrow> (Inl e, discard address f2)))"

definition fetch_coin_states ::
  "'p session_wire \<Rightarrow> 'p light_setting \<Rightarrow> bytes list \<Rightarrow> bool \<Rightarrow> 'p fetcher \<Rightarrow>
   coin_state list lighted \<times> 'p fetcher" where
  "fetch_coin_states sw ls ids subscribing =
     issue ls subscribing (\<lambda>p. answered_or ''coin-state request rejected''
       (sw_coin_state sw p ids None (sw_genesis sw) subscribing))"

definition fetch_children ::
  "'p session_wire \<Rightarrow> 'p light_setting \<Rightarrow> bytes \<Rightarrow> 'p fetcher \<Rightarrow> coin_state list lighted \<times> 'p fetcher" where
  "fetch_children sw ls k = issue ls False (\<lambda>p. answered_always (sw_children sw p k))"

definition fetch_puzzle_and_solution ::
  "'p session_wire \<Rightarrow> 'p light_setting \<Rightarrow> bytes \<Rightarrow> u32 \<Rightarrow> 'p fetcher \<Rightarrow> (bytes \<times> bytes) lighted \<times> 'p fetcher" where
  "fetch_puzzle_and_solution sw ls k h =
     issue ls False (\<lambda>p. map_ok (\<lambda>r. (psr_puzzle r, psr_solution r))
       (answered_or ''peer rejected puzzle/solution for a known-spent coin''
          (sw_puzzle_and_solution sw p k h)))"

definition f_send_transaction ::
  "'p session_wire \<Rightarrow> 'p light_setting \<Rightarrow> proto_bundle \<Rightarrow> 'p fetcher \<Rightarrow> (u8 \<times> string option) lighted \<times> 'p fetcher" where
  "f_send_transaction sw ls b = issue ls True (\<lambda>p. answered_always (sw_send_transaction sw p b))"

definition remove_coin_subscriptions ::
  "'p session_wire \<Rightarrow> 'p light_setting \<Rightarrow> bytes list \<Rightarrow> 'p fetcher \<Rightarrow> unit lighted \<times> 'p fetcher" where
  "remove_coin_subscriptions sw ls ids =
     issue ls True (\<lambda>p. map_ok (\<lambda>_. ()) (answered_always (sw_remove_coin_subscriptions sw p ids)))"

section \<open>Paged reads\<close>

definition MAX_PUZZLE_STATE_PAGES :: nat where
  "MAX_PUZZLE_STATE_PAGES = 10000"

definition MAX_ACCUMULATED_COIN_STATES :: nat where
  "MAX_ACCUMULATED_COIN_STATES = 500000"

definition too_many_coins :: light_error where
  "too_many_coins = LRejected (''puzzle-state response exceeded '' @ dec MAX_ACCUMULATED_COIN_STATES @ '' coins'')"

definition no_progress :: light_error where
  "no_progress = LRejected ''puzzle-state paging did not advance the height''"

definition too_many_pages :: light_error where
  "too_many_pages = LRejected (''puzzle-state paging exceeded '' @ dec MAX_PUZZLE_STATE_PAGES @ '' pages'')"

text \<open>\<open>collect_paged\<close>: the first argument counts the turns the \<open>for\<close> has left.\<close>

fun collect_paged_from ::
  "nat \<Rightarrow> (nat \<Rightarrow> u32 option \<Rightarrow> bytes \<Rightarrow> puzzle_state_page lighted) \<Rightarrow> nat \<Rightarrow> u32 option \<Rightarrow> bytes \<Rightarrow>
   coin_state list \<Rightarrow> coin_state list lighted" where
  "collect_paged_from 0 fetch n prev hash acc = Inl too_many_pages"
| "collect_paged_from (Suc left) fetch n prev hash acc =
     (case fetch n prev hash of
        Inl e \<Rightarrow> Inl e
      | Inr page \<Rightarrow>
          (let acc' = acc @ ps_coin_states page
           in if MAX_ACCUMULATED_COIN_STATES < length acc' then Inl too_many_coins
              else if ps_is_finished page then Inr acc'
              else if (case prev of None \<Rightarrow> False | Some h \<Rightarrow> ps_height page \<le> h) then Inl no_progress
              else collect_paged_from left fetch (Suc n) (Some (ps_height page)) (ps_header_hash page) acc'))"

definition collect_paged ::
  "bytes \<Rightarrow> (nat \<Rightarrow> u32 option \<Rightarrow> bytes \<Rightarrow> puzzle_state_page lighted) \<Rightarrow> coin_state list lighted" where
  "collect_paged genesis fetch = collect_paged_from MAX_PUZZLE_STATE_PAGES fetch 0 None genesis []"

definition fetch_puzzle_states ::
  "'p session_wire \<Rightarrow> 'p light_setting \<Rightarrow> bytes list \<Rightarrow> coin_state_filters \<Rightarrow> bool \<Rightarrow> 'p fetcher \<Rightarrow>
   coin_state list lighted \<times> 'p fetcher" where
  "fetch_puzzle_states sw ls phs filters subscribing =
     issue ls subscribing (\<lambda>p. collect_paged (sw_genesis sw) (\<lambda>n prev hash.
       answered_or ''puzzle-state request rejected''
         (sw_puzzle_state sw p n phs prev hash filters subscribing)))"


text \<open>A complete walk: replies that are pages, the last and only the last of them finished, each
  unfinished one higher than the one before.\<close>

definition complete_walk ::
  "(nat \<Rightarrow> light_error + puzzle_state_page) \<Rightarrow> u32 list \<Rightarrow> puzzle_state_page list \<Rightarrow> bool" where
  "complete_walk reply below pages \<longleftrightarrow>
     pages \<noteq> [] \<and> (\<forall>i < length pages. reply i = Inr (pages ! i)) \<and>
     ps_is_finished (last pages) \<and> (\<forall>page \<in> set (butlast pages). \<not> ps_is_finished page) \<and>
     sorted_wrt (<) (below @ map ps_height (butlast pages))"

lemma complete_walk_Cons:
  "complete_walk reply below (page # pages) \<longleftrightarrow>
     reply 0 = Inr page \<and>
     (if pages = [] then ps_is_finished page \<and> sorted_wrt (<) below
      else \<not> ps_is_finished page \<and> complete_walk (\<lambda>i. reply (Suc i)) (below @ [ps_height page]) pages)"
  by (auto simp: complete_walk_def less_Suc_eq_0_disj)

definition bound_of :: "u32 option \<Rightarrow> u32 list" where
  "bound_of prev = (case prev of None \<Rightarrow> [] | Some h \<Rightarrow> [h])"

lemma sorted_bound_of [simp]: "sorted_wrt (<) (bound_of prev)"
  by (simp add: bound_of_def split: option.split)

lemma complete_walk_bound:
  assumes "pages \<noteq> []"
  shows "complete_walk reply (bound_of prev @ [h]) pages \<longleftrightarrow>
    (case prev of None \<Rightarrow> True | Some p \<Rightarrow> p < h) \<and> complete_walk reply (bound_of (Some h)) pages"
proof (cases prev)
  case (Some p)
  have "p < x" if "p < h" "h < x" for x :: u32 using that by simp
  then show ?thesis
    using assms Some by (auto simp: complete_walk_def bound_of_def)
qed (use assms in \<open>simp add: bound_of_def\<close>)

lemma collect_paged_from_Inr:
  assumes "cursor fetch genesis n = (prev, hash)" "length acc \<le> MAX_ACCUMULATED_COIN_STATES"
  shows "collect_paged_from left fetch n prev hash acc = Inr all \<longleftrightarrow>
    (\<exists>pages. length pages \<le> left \<and>
       complete_walk (\<lambda>i. nth_reply fetch genesis (n + i)) (bound_of prev) pages \<and>
       all = acc @ concat (map ps_coin_states pages) \<and> length all \<le> MAX_ACCUMULATED_COIN_STATES)"
  using assms
proof (induction left arbitrary: n prev hash acc)
  case 0
  then show ?case by (simp add: complete_walk_def too_many_pages_def)
next
  case (Suc left)
  have here: "nth_reply fetch genesis n = fetch n prev hash"
    using Suc.prems(1) by (simp add: nth_reply_def)
  show ?case
  proof (cases "fetch n prev hash")
    case (Inl e)
    then have "\<not> complete_walk (\<lambda>i. nth_reply fetch genesis (n + i)) (bound_of prev) pages" for pages
      using here by (cases pages) (auto simp: complete_walk_Cons complete_walk_def)
    then show ?thesis using Inl by simp
  next
    case (Inr page)
    define acc' where "acc' = acc @ ps_coin_states page"
    define fits where "fits \<longleftrightarrow> length acc' \<le> MAX_ACCUMULATED_COIN_STATES"
    define advances where "advances \<longleftrightarrow> (case prev of None \<Rightarrow> True | Some h \<Rightarrow> h < ps_height page)"
    have next_cursor: "cursor fetch genesis (Suc n) = (Some (ps_height page), ps_header_hash page)"
      using Suc.prems(1) Inr by simp
    have step: "collect_paged_from (Suc left) fetch n prev hash acc = Inr all \<longleftrightarrow>
        fits \<and> (if ps_is_finished page then all = acc'
          else advances \<and> collect_paged_from left fetch (Suc n) (Some (ps_height page)) (ps_header_hash page) acc' = Inr all)"
      using Inr by (auto simp: acc'_def fits_def advances_def too_many_coins_def no_progress_def Let_def
          split: option.split)
    define W where "W = (\<lambda>m b. complete_walk (\<lambda>i. nth_reply fetch genesis (m + i)) b)"
    have W_Nil: "\<not> W n (bound_of prev) []" by (simp add: W_def complete_walk_def)
    have W_Cons: "W n (bound_of prev) (p # ps) \<longleftrightarrow> p = page \<and>
        (if ps = [] then ps_is_finished page
         else \<not> ps_is_finished page \<and> advances \<and> W (Suc n) (bound_of (Some (ps_height page))) ps)" for p ps
      using here Inr by (auto simp: W_def complete_walk_Cons complete_walk_bound advances_def)
    have shape: "(\<exists>pages. length pages \<le> Suc left \<and> W n (bound_of prev) pages \<and> Q pages) \<longleftrightarrow>
        (if ps_is_finished page then Q [page]
         else advances \<and> (\<exists>pages. length pages \<le> left \<and>
           W (Suc n) (bound_of (Some (ps_height page))) pages \<and> Q (page # pages)))" for Q
    proof -
      have "\<not> W (Suc n) b []" for b by (simp add: W_def complete_walk_def)
      then have "(\<exists>ps. length ps \<le> left \<and> W n (bound_of prev) (page # ps) \<and> Q (page # ps)) \<longleftrightarrow>
        (if ps_is_finished page then Q [page]
         else advances \<and> (\<exists>pages. length pages \<le> left \<and>
           W (Suc n) (bound_of (Some (ps_height page))) pages \<and> Q (page # pages)))"
        unfolding W_Cons by (cases "ps_is_finished page") (force, metis)
      moreover have "(\<exists>pages. length pages \<le> Suc left \<and> W n (bound_of prev) pages \<and> Q pages) \<longleftrightarrow>
          (\<exists>ps. length ps \<le> left \<and> W n (bound_of prev) (page # ps) \<and> Q (page # ps))"
      proof
        assume "\<exists>pages. length pages \<le> Suc left \<and> W n (bound_of prev) pages \<and> Q pages"
        then obtain pages where p: "length pages \<le> Suc left" "W n (bound_of prev) pages" "Q pages" by blast
        with W_Nil obtain q ps where "pages = q # ps" by (cases pages) auto
        with p W_Cons [of q ps] show "\<exists>ps. length ps \<le> left \<and> W n (bound_of prev) (page # ps) \<and> Q (page # ps)"
          by auto
      qed (metis Suc_le_mono length_Cons)
      ultimately show ?thesis by simp
    qed
    have rest: "collect_paged_from left fetch (Suc n) (Some (ps_height page)) (ps_header_hash page) acc' = Inr all \<longleftrightarrow>
        (\<exists>pages. length pages \<le> left \<and> W (Suc n) (bound_of (Some (ps_height page))) pages \<and>
           all = acc' @ concat (map ps_coin_states pages) \<and> length all \<le> MAX_ACCUMULATED_COIN_STATES)"
      if fits
      unfolding W_def by (rule Suc.IH [OF next_cursor]) (use that in \<open>simp add: fits_def\<close>)
    have "collect_paged_from (Suc left) fetch n prev hash acc = Inr all \<longleftrightarrow>
        (\<exists>pages. length pages \<le> Suc left \<and> W n (bound_of prev) pages \<and>
           all = acc @ concat (map ps_coin_states pages) \<and> length all \<le> MAX_ACCUMULATED_COIN_STATES)"
      unfolding step shape using rest by (auto simp: acc'_def fits_def)
    then show ?thesis unfolding W_def .
  qed
qed

text \<open>C31: A paged read of the light client is bounded and whole. It makes at most ten thousand
  requests, and returns coins exactly when the replies are a complete walk: pages whose last alone
  is finished, each unfinished one at a greater height than the one before it, at most five hundred
  thousand coins in all. What it returns is then every coin of every page, in order; anything
  else - a failed page, a page that does not advance, too many pages or coins - is an error.\<close>

theorem paged_read_is_whole:
  "collect_paged genesis fetch = Inr all \<longleftrightarrow>
     (\<exists>pages. length pages \<le> 10000 \<and> complete_walk (nth_reply fetch genesis) [] pages \<and>
        all = concat (map ps_coin_states pages) \<and> length all \<le> 500000)"
  using collect_paged_from_Inr [of fetch genesis 0 None genesis "[]" MAX_PUZZLE_STATE_PAGES all]
  by (simp add: collect_paged_def bound_of_def MAX_PUZZLE_STATE_PAGES_def MAX_ACCUMULATED_COIN_STATES_def)

end
