(* ===== verification/Light_Client.thy ===== *)
theory Light_Client
  imports Light_Fetcher
begin

text \<open>
  \<open>src/peer/light_client/mod.rs\<close>: the subscribing client - its subscriptions, submissions and
  re-arming, and the drive-loop that keeps the cache current from the anchored session's frames.
  The cache, the fetcher and the subscription the loop follows are one state; what other tasks do
  to it while an operation waits for the cache's lock is the argument \<open>between\<close>.
\<close>

section \<open>Submitting\<close>

datatype submit_outcome =
    Accepted
  | NotAdmitted "string option"
  | Failed "string option"
  | Unknown u8 "string option"

definition from_ack :: "u8 \<Rightarrow> string option \<Rightarrow> submit_outcome" where
  "from_ack status reason =
     (if status = 1 then Accepted
      else if status = 2 then NotAdmitted reason
      else if status = 3 then Failed reason
      else Unknown status reason)"

fun is_accepted :: "submit_outcome \<Rightarrow> bool" where
  "is_accepted Accepted = True"
| "is_accepted _ = False"

fun outcome_reason :: "submit_outcome \<Rightarrow> string option" where
  "outcome_reason Accepted = None"
| "outcome_reason (NotAdmitted r) = r"
| "outcome_reason (Failed r) = r"
| "outcome_reason (Unknown _ r) = r"

section \<open>The client\<close>

record 'p light_client =
  lc_fetcher :: "'p fetcher"
  lc_cache :: coin_cache
  lc_followed :: "(nat \<times> frame_source) option"

definition light_client_new :: "'p peer_pool \<Rightarrow> 'p light_client" where
  "light_client_new pool =
     \<lparr>lc_fetcher = fetcher_new pool, lc_cache = empty_cache, lc_followed = None\<rparr>"

definition commit_coins ::
  "coin_namer \<Rightarrow> bytes list \<Rightarrow> coin_state list \<Rightarrow> 'p light_client \<Rightarrow> 'p light_client" where
  "commit_coins cid ids states c = c\<lparr>lc_cache := seed cid states (track_coins ids (lc_cache c))\<rparr>"

definition commit_puzzle_hashes ::
  "coin_namer \<Rightarrow> bytes list \<Rightarrow> coin_state list \<Rightarrow> 'p light_client \<Rightarrow> 'p light_client" where
  "commit_puzzle_hashes cid phs states c =
     c\<lparr>lc_cache := seed cid states (track_puzzle_hashes phs (lc_cache c))\<rparr>"

definition subscribe_coins ::
  "coin_namer \<Rightarrow> 'p session_wire \<Rightarrow> 'p light_setting \<Rightarrow> ('p light_client \<Rightarrow> 'p light_client) \<Rightarrow>
   bytes list \<Rightarrow> 'p light_client \<Rightarrow> unit lighted \<times> 'p light_client" where
  "subscribe_coins cid sw ls between ids c =
     (case fetch_coin_states sw ls ids True (lc_fetcher c) of
        (Inl e, f) \<Rightarrow> (Inl e, c\<lparr>lc_fetcher := f\<rparr>)
      | (Inr states, f) \<Rightarrow> (Inr (), commit_coins cid ids states (between (c\<lparr>lc_fetcher := f\<rparr>))))"

definition subscribe_puzzle_hashes ::
  "coin_namer \<Rightarrow> 'p session_wire \<Rightarrow> 'p light_setting \<Rightarrow> ('p light_client \<Rightarrow> 'p light_client) \<Rightarrow>
   bytes list \<Rightarrow> coin_state_filters \<Rightarrow> 'p light_client \<Rightarrow> unit lighted \<times> 'p light_client" where
  "subscribe_puzzle_hashes cid sw ls between phs filters c =
     (case fetch_puzzle_states sw ls phs filters True (lc_fetcher c) of
        (Inl e, f) \<Rightarrow> (Inl e, c\<lparr>lc_fetcher := f\<rparr>)
      | (Inr states, f) \<Rightarrow>
          (Inr (), commit_puzzle_hashes cid phs states (between (c\<lparr>lc_fetcher := f\<rparr>))))"

definition submit_spend ::
  "'p session_wire \<Rightarrow> 'p light_setting \<Rightarrow> proto_bundle \<Rightarrow> 'p light_client \<Rightarrow>
   submit_outcome lighted \<times> 'p light_client" where
  "submit_spend sw ls b c =
     (case f_send_transaction sw ls b (lc_fetcher c) of
        (r, f) \<Rightarrow> (map_ok (\<lambda>(status, reason). from_ack status reason) r, c\<lparr>lc_fetcher := f\<rparr>))"

definition light_peak :: "'p light_client \<Rightarrow> (u32 \<times> bytes) option" where
  "light_peak c = cache_peak (lc_cache c)"

definition unsubscribe_coins ::
  "'p session_wire \<Rightarrow> 'p light_setting \<Rightarrow> ('p light_client \<Rightarrow> 'p light_client) \<Rightarrow> bytes list \<Rightarrow>
   'p light_client \<Rightarrow> unit lighted \<times> 'p light_client" where
  "unsubscribe_coins sw ls between ids c =
     (case remove_coin_subscriptions sw ls ids (lc_fetcher c) of
        (Inl e, f) \<Rightarrow> (Inl e, c\<lparr>lc_fetcher := f\<rparr>)
      | (Inr _, f) \<Rightarrow>
          (let c1 = between (c\<lparr>lc_fetcher := f\<rparr>)
           in (Inr (), c1\<lparr>lc_cache := untrack_coins ids (lc_cache c1)\<rparr>)))"

definition needs_rearm :: "'p light_client \<Rightarrow> bool" where
  "needs_rearm c = rearm_needed (lc_fetcher c)"

definition all_coin_states :: coin_state_filters where
  "all_coin_states =
     \<lparr>f_include_spent = True, f_include_unspent = True, f_include_hinted = True,
      f_min_amount = 0\<rparr>"

text \<open>\<open>reconnect\<close>: the subscription set in some order (\<open>order\<close>, the iteration of a hash set), the
  two re-subscriptions, and the signal cleared. \<open>bs\<close> runs at the waits: in the first, in the
  second, and between the last of them and the clearing.\<close>

definition reconnect ::
  "coin_namer \<Rightarrow> 'p session_wire \<Rightarrow> (nat \<Rightarrow> 'p light_setting) \<Rightarrow> (bytes fset \<Rightarrow> bytes list) \<Rightarrow>
   (nat \<Rightarrow> 'p light_client \<Rightarrow> 'p light_client) \<Rightarrow> 'p light_client \<Rightarrow> unit lighted \<times> 'p light_client" where
  "reconnect cid sw ls order bs c =
     (let ids = order (subscribed_coins (lc_cache c));
          phs = order (subscribed_puzzle_hashes (lc_cache c));
          first = (if ids = [] then (Inr (), c) else subscribe_coins cid sw (ls 0) (bs 0) ids c)
      in case first of
           (Inl e, c1) \<Rightarrow> (Inl e, c1)
         | (Inr _, c1) \<Rightarrow>
             (case (if phs = [] then (Inr (), c1)
                    else subscribe_puzzle_hashes cid sw (ls 1) (bs 1) phs all_coin_states c1) of
                (Inl e, c2) \<Rightarrow> (Inl e, c2)
              | (Inr _, c2) \<Rightarrow>
                  (let c3 = bs 2 c2 in (Inr (), c3\<lparr>lc_fetcher := clear_rearm (lc_fetcher c3)\<rparr>))))"

section \<open>The provider descriptor\<close>

datatype provider_kind = LocalNode | PublicOracle | DigPeers | Custom

record provider_info =
  pi_id :: string
  pi_kind :: provider_kind
  pi_priority :: int
  trustless :: bool

definition DEFAULT_PROVIDER_PRIORITY :: int where
  "DEFAULT_PROVIDER_PRIORITY = 20"

definition light_provider_info :: "'p light_client \<Rightarrow> provider_info" where
  "light_provider_info c =
     \<lparr>pi_id = ''chia-query-light-client'',
      pi_kind = (case map_option an_origin (f_anchor (lc_fetcher c)) of
                   Some Priority \<Rightarrow> LocalNode
                 | Some Discovered \<Rightarrow> Custom
                 | None \<Rightarrow> Custom),
      pi_priority = DEFAULT_PROVIDER_PRIORITY, trustless = False\<rparr>"

section \<open>The drive-loop\<close>

definition follows_source :: "frame_source option \<Rightarrow> frame_source \<Rightarrow> bool" where
  "follows_source anchored source \<longleftrightarrow> anchored = Some source"

datatype after_frame = Continue | Resubscribe

definition apply_frame :: "coin_namer \<Rightarrow> pool_frame \<Rightarrow> coin_cache \<Rightarrow> after_frame \<times> coin_cache" where
  "apply_frame cid frame c =
     (case frame of
        Reset \<Rightarrow> (Continue, c)
      | Peak h hash \<Rightarrow> (Continue, set_peak h hash c)
      | CoinStates h fork hash items \<Rightarrow>
          (let gone = map (\<lambda>st. cid (cst_coin st)) (filter (\<lambda>st. spent_height st \<noteq> None) items)
           in (Continue, untrack_coins gone (apply_update cid items h fork hash c)))
      | SessionEnded _ \<Rightarrow> (Resubscribe, c))"

definition on_frame :: "coin_namer \<Rightarrow> frame_source \<Rightarrow> sourced_frame \<Rightarrow> 'p light_client \<Rightarrow> 'p light_client" where
  "on_frame cid source sf c =
     (if \<not> follows_source (anchor_source (lc_fetcher c)) (sf_source sf) then c
      else case apply_frame cid (sf_frame sf) (lc_cache c) of
             (Resubscribe, cache) \<Rightarrow>
               c\<lparr>lc_cache := cache, lc_fetcher := release_anchor source (lc_fetcher c)\<rparr>
           | (Continue, cache) \<Rightarrow> c\<lparr>lc_cache := cache\<rparr>)"

definition set_fan :: "fanout \<Rightarrow> 'p light_client \<Rightarrow> 'p light_client" where
  "set_fan fo c = c\<lparr>lc_fetcher := (lc_fetcher c)
     \<lparr>f_pool := (f_pool (lc_fetcher c))\<lparr>fan := fo\<rparr>\<rparr>\<rparr>"

text \<open>One turn of the loop, \<open>None\<close> while it waits. A subscription just handed over is adopted
  first, and the one it supersedes is dropped. The channel of subscriptions cannot close under the
  loop, which holds a sender of it in its own fetcher; the loop ends by \<open>drop_client\<close>.\<close>

definition drive_turn :: "coin_namer \<Rightarrow> 'p light_client \<Rightarrow> 'p light_client option" where
  "drive_turn cid c =
     (if \<not> drive_open (lc_fetcher c) then None
      else case handed (lc_fetcher c) of
        next_one # rest \<Rightarrow>
          (let c1 = (case lc_followed c of
                       None \<Rightarrow> c
                     | Some (i, _) \<Rightarrow> set_fan (drop_subscription i (fan (f_pool (lc_fetcher c)))) c)
           in Some (c1\<lparr>lc_followed := Some next_one, lc_fetcher := (lc_fetcher c1)\<lparr>handed := rest\<rparr>\<rparr>))
      | [] \<Rightarrow>
          (case lc_followed c of
             None \<Rightarrow> None
           | Some (i, source) \<Rightarrow>
               (case fanout_recv i (fan (f_pool (lc_fetcher c))) of
                  (Waiting, _) \<Rightarrow> None
                | (Got sf, fo) \<Rightarrow> Some (on_frame cid source sf (set_fan fo c))
                | (Ended, fo) \<Rightarrow>
                    (let c1 = set_fan (drop_subscription i fo) c
                     in Some (c1\<lparr>lc_fetcher := release_anchor source (lc_fetcher c1), lc_followed := None\<rparr>)))))"

definition drop_client :: "'p light_client \<Rightarrow> 'p light_client" where
  "drop_client c =
     (let subs = map fst ((case lc_followed c of None \<Rightarrow> [] | Some s \<Rightarrow> [s]) @ handed (lc_fetcher c));
          c1 = set_fan (fold drop_subscription subs (fan (f_pool (lc_fetcher c)))) c
      in c1\<lparr>lc_followed := None, lc_fetcher := (lc_fetcher c1)\<lparr>handed := [], drive_open := False\<rparr>\<rparr>)"


section \<open>Steps of the running client\<close>

text \<open>What any task can do at one go: a request takes a session; a failed one discards its peer;
  a subscription or its removal is committed to the cache; the loop takes a turn; the pool moves;
  the signal is cleared; the client is dropped. What a committed response says is arbitrary.\<close>

inductive light_step :: "coin_namer \<Rightarrow> 'p light_client \<Rightarrow> 'p light_client \<Rightarrow> bool" for cid where
  Session: "light_step cid c (c\<lparr>lc_fetcher := snd (f_session ls b (lc_fetcher c))\<rparr>)"
| Failure: "light_step cid c (c\<lparr>lc_fetcher := discard a (lc_fetcher c)\<rparr>)"
| Coins: "light_step cid c (commit_coins cid ids states c)"
| Hashes: "light_step cid c (commit_puzzle_hashes cid phs states c)"
| Untrack: "light_step cid c (c\<lparr>lc_cache := untrack_coins ids (lc_cache c)\<rparr>)"
| Drive: "drive_turn cid c = Some c' \<Longrightarrow> light_step cid c c'"
| Pool: "pool_step (f_pool (lc_fetcher c)) pool \<Longrightarrow>
    light_step cid c (c\<lparr>lc_fetcher := (lc_fetcher c)\<lparr>f_pool := pool\<rparr>\<rparr>)"
| Clear: "light_step cid c (c\<lparr>lc_fetcher := clear_rearm (lc_fetcher c)\<rparr>)"
| Drop: "light_step cid c (drop_client c)"

abbreviation light_steps :: "coin_namer \<Rightarrow> 'p light_client \<Rightarrow> 'p light_client \<Rightarrow> bool" where
  "light_steps cid \<equiv> (light_step cid)\<^sup>*\<^sup>*"

text \<open>Each operation is such steps, whatever steps others take at its waits.\<close>

definition benign ::
  "coin_namer \<Rightarrow> 'p light_setting \<Rightarrow> ('p light_client \<Rightarrow> 'p light_client) \<Rightarrow> bool" where
  "benign cid ls between \<longleftrightarrow>
     (\<forall>c. light_steps cid c (c\<lparr>lc_fetcher := ls_during ls (lc_fetcher c)\<rparr>) \<and> light_steps cid c (between c))"

lemma issue_steps:
  assumes "benign cid ls between"
  shows "light_steps cid c (c\<lparr>lc_fetcher := snd (issue ls b req (lc_fetcher c))\<rparr>)"
proof -
  obtain r f1 where s: "f_session ls b (lc_fetcher c) = (r, f1)" by fastforce
  have one: "light_steps cid c (c\<lparr>lc_fetcher := f1\<rparr>)"
    using light_step.Session [of cid c ls b] s by auto
  have two: "light_steps cid (c\<lparr>lc_fetcher := f1\<rparr>) (c\<lparr>lc_fetcher := ls_during ls f1\<rparr>)"
    using assms [unfolded benign_def, THEN spec [of _ "c\<lparr>lc_fetcher := f1\<rparr>"]] by simp
  have three: "light_steps cid (c\<lparr>lc_fetcher := f\<rparr>) (c\<lparr>lc_fetcher := discard a f\<rparr>)" for f a
    using light_step.Failure [of cid "c\<lparr>lc_fetcher := f\<rparr>" a] by auto
  show ?thesis
    using one rtranclp_trans [OF one two]
      rtranclp_trans [OF rtranclp_trans [OF one two] three]
    by (auto simp: issue_def s Let_def split: sum.split prod.split)
qed

lemma subscribe_coins_steps:
  assumes "benign cid ls between"
  shows "light_steps cid c (snd (subscribe_coins cid sw ls between ids c))"
proof -
  obtain r f where f: "fetch_coin_states sw ls ids True (lc_fetcher c) = (r, f)" by fastforce
  have one: "light_steps cid c (c\<lparr>lc_fetcher := f\<rparr>)"
    using issue_steps [OF assms] f unfolding fetch_coin_states_def by (metis snd_conv)
  have two: "light_steps cid (c\<lparr>lc_fetcher := f\<rparr>) (between (c\<lparr>lc_fetcher := f\<rparr>))"
    using assms by (simp add: benign_def)
  have "light_steps cid c (commit_coins cid ids states (between (c\<lparr>lc_fetcher := f\<rparr>)))" for states
    by (rule rtranclp.rtrancl_into_rtrancl [OF rtranclp_trans [OF one two]], rule light_step.Coins)
  with one show ?thesis
    unfolding subscribe_coins_def f by (auto split: sum.split)
qed

lemma subscribe_puzzle_hashes_steps:
  assumes "benign cid ls between"
  shows "light_steps cid c (snd (subscribe_puzzle_hashes cid sw ls between phs filters c))"
proof -
  obtain r f where f: "fetch_puzzle_states sw ls phs filters True (lc_fetcher c) = (r, f)" by fastforce
  have one: "light_steps cid c (c\<lparr>lc_fetcher := f\<rparr>)"
    using issue_steps [OF assms] f unfolding fetch_puzzle_states_def by (metis snd_conv)
  have two: "light_steps cid (c\<lparr>lc_fetcher := f\<rparr>) (between (c\<lparr>lc_fetcher := f\<rparr>))"
    using assms by (simp add: benign_def)
  have "light_steps cid c (commit_puzzle_hashes cid phs states (between (c\<lparr>lc_fetcher := f\<rparr>)))" for states
    by (rule rtranclp.rtrancl_into_rtrancl [OF rtranclp_trans [OF one two]], rule light_step.Hashes)
  with one show ?thesis
    unfolding subscribe_puzzle_hashes_def f by (auto split: sum.split)
qed

section \<open>What the steps keep\<close>

text \<open>The subscriptions the loop follows or will adopt, oldest first.\<close>

definition subscriptions_of :: "'p light_client \<Rightarrow> (nat \<times> frame_source) list" where
  "subscriptions_of c = (case lc_followed c of None \<Rightarrow> [] | Some s \<Rightarrow> [s]) @ handed (lc_fetcher c)"

definition light_ok :: "coin_namer \<Rightarrow> 'p light_client \<Rightarrow> bool" where
  "light_ok cid c \<longleftrightarrow> cache_ok cid (lc_cache c) \<and>
     (drive_open (lc_fetcher c) \<longrightarrow>
        (\<forall>a. f_anchor (lc_fetcher c) = Some a \<longrightarrow>
           (\<exists>subs i. subscriptions_of c = subs @ [(i, an_source a)])))"

text \<open>What taking a session can do to the fetcher.\<close>

lemma f_session_effect:
  assumes "f_session ls b f = (r, f')"
  shows "drive_open f' = drive_open f \<and> rearm_needed f' = rearm_needed f \<and>
    (f_anchor f' = f_anchor f \<and> handed f' = handed f \<or>
     f_anchor f = None \<and> (\<exists>a i. f_anchor f' = Some a \<and>
        handed f' = (if drive_open f then handed f @ [(i, an_source a)] else handed f)))"
proof -
  have pick_eff: "f_pick d n f = (r, f') \<Longrightarrow> drive_open f' = drive_open f \<and> rearm_needed f' = rearm_needed f \<and>
      f_anchor f' = f_anchor f \<and> handed f' = handed f" for d n r f f'
    by (auto simp: f_pick_def split: prod.splits)
  show ?thesis
    using assms unfolding f_session_def anchor_session_def
    by (auto simp: pin_def Let_def dest!: pick_eff split: if_splits option.splits sum.splits prod.splits)
qed

lemma release_effect:
  "handed (release_anchor s f) = handed f" "drive_open (release_anchor s f) = drive_open f"
  "f_anchor (release_anchor s f) = Some a \<longleftrightarrow> f_anchor f = Some a \<and> an_source a \<noteq> s"
  "handed (discard d f) = handed f" "drive_open (discard d f) = drive_open f"
  "f_anchor (discard d f) = Some a \<longleftrightarrow> f_anchor f = Some a \<and> an_address a \<noteq> d"
  by (auto simp: release_anchor_def discard_def release_anchor_at_def split: option.splits)

lemma apply_frame_ok:
  "cache_ok cid c \<Longrightarrow> cache_ok cid (snd (apply_frame cid frame c))"
  by (simp add: apply_frame_def cache_op_ok Let_def split: pool_frame.split)

lemma on_frame_effect:
  "lc_followed (on_frame cid s sf c) = lc_followed c"
  "handed (lc_fetcher (on_frame cid s sf c)) = handed (lc_fetcher c)"
  "drive_open (lc_fetcher (on_frame cid s sf c)) = drive_open (lc_fetcher c)"
  "f_anchor (lc_fetcher (on_frame cid s sf c)) = Some a \<Longrightarrow> f_anchor (lc_fetcher c) = Some a"
  "cache_ok cid (lc_cache c) \<Longrightarrow> cache_ok cid (lc_cache (on_frame cid s sf c))"
  using apply_frame_ok [of cid "lc_cache c" "sf_frame sf"]
  by (auto simp: on_frame_def release_effect split: if_splits prod.splits after_frame.splits)

lemma set_fan_simps [simp]:
  "lc_cache (set_fan fo c) = lc_cache c" "lc_followed (set_fan fo c) = lc_followed c"
  "handed (lc_fetcher (set_fan fo c)) = handed (lc_fetcher c)"
  "f_anchor (lc_fetcher (set_fan fo c)) = f_anchor (lc_fetcher c)"
  "drive_open (lc_fetcher (set_fan fo c)) = drive_open (lc_fetcher c)"
  "rearm_needed (lc_fetcher (set_fan fo c)) = rearm_needed (lc_fetcher c)"
  by (simp_all add: set_fan_def)

lemma light_step_ok:
  assumes "light_step cid c c'" "light_ok cid c"
  shows "light_ok cid c'"
  using assms
proof (induction rule: light_step.induct)
  case (Session c ls b)
  obtain r f where "f_session ls b (lc_fetcher c) = (r, f)" by fastforce
  from f_session_effect [OF this] this Session show ?case
    by (auto simp: light_ok_def subscriptions_of_def)
next
  case (Drive c c')
  show ?case
  proof (cases "handed (lc_fetcher c)")
    case (Cons next_one rest)
    then show ?thesis
      using Drive
      by (cases rest rule: rev_cases)
        (auto simp: drive_turn_def Let_def light_ok_def subscriptions_of_def
          split: if_splits option.splits)
  next
    case Nil
    then obtain i s where fo: "lc_followed c = Some (i, s)" "drive_open (lc_fetcher c)"
      using Drive.hyps by (auto simp: drive_turn_def split: if_splits option.splits)
    obtain r fan' where rcv: "fanout_recv i (fan (f_pool (lc_fetcher c))) = (r, fan')" by fastforce
    show ?thesis
    proof (cases r)
      case (Got sf)
      then have c': "c' = on_frame cid s sf (set_fan fan' c)"
        using Drive.hyps Nil fo rcv by (simp add: drive_turn_def)
      have subs: "subscriptions_of c' = subscriptions_of c"
        by (simp add: subscriptions_of_def c' on_frame_effect(1,2))
      have anc: "f_anchor (lc_fetcher c) = Some a" if "f_anchor (lc_fetcher c') = Some a" for a
        using on_frame_effect(4) that [unfolded c'] by fastforce
      have "cache_ok cid (lc_cache c')"
        unfolding c' by (rule on_frame_effect(5)) (use Drive.prems in \<open>simp add: light_ok_def\<close>)
      then show ?thesis
        using Drive.prems fo(2) anc unfolding light_ok_def subs by blast
    next
      case Ended
      then show ?thesis
        using Drive fo Nil rcv
        by (auto simp: drive_turn_def Let_def light_ok_def subscriptions_of_def release_effect)
    next
      case Waiting
      then show ?thesis using Drive.hyps Nil fo rcv by (simp add: drive_turn_def)
    qed
  qed
qed (auto simp: light_ok_def subscriptions_of_def commit_coins_def commit_puzzle_hashes_def
    cache_op_ok release_effect clear_rearm_def drop_client_def Let_def)

lemma light_client_new_ok: "light_ok cid (light_client_new pool)"
  by (simp add: light_ok_def light_client_new_def empty_cache_ok fetcher_new_def)

lemma light_steps_ok: "light_steps cid c c' \<Longrightarrow> light_ok cid c \<Longrightarrow> light_ok cid c'"
  by (induction rule: rtranclp_induct) (auto intro: light_step_ok)

lemma lost_anchor_signals:
  assumes "light_step cid c c'" "f_anchor (lc_fetcher c) = Some a" "f_anchor (lc_fetcher c') \<noteq> Some a"
  shows "f_anchor (lc_fetcher c') = None \<and> needs_rearm c'"
  using assms
proof (induction rule: light_step.induct)
  case (Session c ls b)
  obtain r f where "f_session ls b (lc_fetcher c) = (r, f)" by fastforce
  from f_session_effect [OF this] this Session show ?case by auto
next
  case (Drive c c')
  then show ?case
    by (auto simp: drive_turn_def on_frame_def release_anchor_def needs_rearm_def Let_def
        split: if_splits option.splits list.splits prod.splits recv_result.splits after_frame.splits)
qed (auto simp: commit_coins_def commit_puzzle_hashes_def clear_rearm_def drop_client_def Let_def
    discard_def release_anchor_at_def needs_rearm_def split: if_splits option.splits)


text \<open>C27: The client's invariant, in every state any interleaving of its operations, its drive-loop and
  the pool can reach. A cached coin is filed under its own id and was created no higher than the
  peak, so a count of confirmations from the two never wraps. While the loop runs, the newest
  subscription it follows or has been handed is that of the session pinned as the anchor. And a
  step that loses the anchor leaves none pinned and the signal raised.\<close>

theorem light_client_invariant:
  assumes "light_steps cid (light_client_new pool) c"
  shows "(cache_get (lc_cache c) k = Some st \<longrightarrow> cid (cst_coin st) = k \<and>
      (\<forall>peak hash created. light_peak c = Some (peak, hash) \<and> created_height st = Some created \<longrightarrow>
         unat (peak - created) = unat peak - unat created \<and> created \<le> peak)) \<and>
    (drive_open (lc_fetcher c) \<and> f_anchor (lc_fetcher c) = Some a \<longrightarrow>
      (\<exists>subs i. subscriptions_of c = subs @ [(i, an_source a)])) \<and>
    (light_step cid c c' \<and> f_anchor (lc_fetcher c) = Some a \<and> f_anchor (lc_fetcher c') \<noteq> Some a \<longrightarrow>
      f_anchor (lc_fetcher c') = None \<and> needs_rearm c')"
proof -
  have ok: "light_ok cid c"
    using light_steps_ok [OF assms light_client_new_ok] .
  have depth: "unat (peak - created) = unat peak - unat created \<and> created \<le> peak"
    if "cache_get (lc_cache c) k = Some st" "light_peak c = Some (peak, hash)" "created_height st = Some created"
    for peak hash created
  proof -
    have "\<not> is_above (Some created) peak"
      using ok that unfolding light_ok_def cache_ok_def cache_get_def light_peak_def by metis
    then show ?thesis using depth_does_not_wrap [of created peak] by (simp add: not_less)
  qed
  have key: "cid (cst_coin st) = k" if "cache_get (lc_cache c) k = Some st"
    using ok that by (auto simp: light_ok_def cache_ok_def cache_get_def)
  show ?thesis
    using depth key ok lost_anchor_signals [of cid c c' a] unfolding light_ok_def by blast
qed



section \<open>A concrete client\<close>

text \<open>A client that has pinned the one peer of its pool, follows its session and is subscribed to coin
  1, cached unspent at peak 100; the session's channel holds one frame, which spends it.\<close>

definition lone_source :: frame_source where
  "lone_source = \<lparr>fs_address = example_addr 1, fs_session = SessionId 0\<rparr>"

definition spend_frame :: sourced_frame where
  "spend_frame = \<lparr>sf_source = lone_source, sf_frame = CoinStates 101 100 [187] [state_of 1 80 (Some 101)]\<rparr>"

definition lone_fan :: "sourced_frame list \<Rightarrow> fanout" where
  "lone_fan queue = \<lparr>subscribers = [lone_source \<mapsto> [0]],
     channels = [0 \<mapsto> \<lparr>ch_cap = 1024, ch_queue = queue, rx_open = True, tx_open = True\<rparr>],
     next_channel = 1, next_session = 1\<rparr>"

definition lone_client :: "nat light_client" where
  "lone_client =
     \<lparr>lc_fetcher =
        \<lparr>f_pool = (empty_pool 8)\<lparr>fan := lone_fan [spend_frame]\<rparr>,
         f_anchor = Some \<lparr>an_peer = 7, an_address = example_addr 1, an_source = lone_source, an_origin = Discovered\<rparr>,
         handed = [], drive_open = True, rearm_needed = False\<rparr>,
      lc_cache =
        \<lparr>cached = fmupd [1] (state_of 1 80 None) fmempty, subscribed_coins = {|[1]|},
         subscribed_puzzle_hashes = {||}, cache_peak = Some (100, [170])\<rparr>,
      lc_followed = Some (0, lone_source)\<rparr>"

definition spent_cache :: coin_cache where
  "spent_cache = \<lparr>cached = fmupd [1] (state_of 1 80 (Some 101)) fmempty, subscribed_coins = {||},
     subscribed_puzzle_hashes = {||}, cache_peak = Some (101, [187])\<rparr>"

lemma lone_frame:
  "apply_frame named (CoinStates 101 100 [187] [state_of 1 80 (Some 101)]) (lc_cache lone_client) =
     (Continue, spent_cache)"
proof -
  define c where "c = lc_cache lone_client"
  define st where "st = state_of 1 80 (Some 101)"
  have st: "named (cst_coin st) = [1]" "created_height st = Some 80" "spent_height st = Some 101"
    by (simp_all add: st_def named_def state_of_def)
  have c: "subscribed_coins c = {|[1]|}" "subscribed_puzzle_hashes c = {||}" "cache_peak c = Some (100, [170])"
    and m: "cached c = fmupd [1] (state_of 1 80 None) fmempty"
    by (simp_all add: c_def lone_client_def)
  have sub: "is_subscribed named c' st" if "subscribed_coins c' = {|[1]|}" for c'
    using that by (simp add: is_subscribed_def st)
  have re: "reasserted_by named c [st] = {|[1]|}"
    using sub [OF c(1)] by (simp add: reasserted_by_def st)
  have roll: "c\<lparr>cached := rollback {|[1]|} 100 (cached c)\<rparr> = c"
  proof -
    have "rollback {|[1]|} 100 (cached c) = cached c"
      by (rule fmap_ext) (simp add: lookup_rollback m split: option.split)
    then show ?thesis by simp
  qed
  have below: "retain_below 101 (cached c) = cached c"
    by (rule fmap_ext) (simp add: lookup_retain_below m state_of_def)
  define c1 where "c1 = c\<lparr>cache_peak := Some (101, [187])\<rparr>"
  have up: "update_peak 101 [187] b c = c1" for b
    by (simp add: update_peak_def c(3) below c1_def)
  have "cache_coin named st c1 = c1\<lparr>cached := fmupd [1] st (cached c1)\<rparr>"
    by (simp add: cache_coin_def st c1_def m)
  moreover have "is_subscribed named c1 st" by (rule sub) (simp add: c1_def c(1))
  ultimately have upd: "apply_update named [st] 101 100 [187] c = c1\<lparr>cached := fmupd [1] st (cached c1)\<rparr>"
    by (simp add: apply_update_def re roll up admit_item_def)
  note upd
  moreover have "map (\<lambda>x. named (cst_coin x)) (filter (\<lambda>x. spent_height x \<noteq> None) [st]) = [[1]]"
    by (simp add: st)
  moreover have "untrack_coins [[1]] (c1\<lparr>cached := fmupd [1] st (cached c1)\<rparr>) = spent_cache"
    by (rule coin_cache.equality) (simp_all add: untrack_coins_def spent_cache_def c1_def c m st_def)
  ultimately have "apply_frame named (CoinStates 101 100 [187] [st]) c = (Continue, spent_cache)"
    unfolding apply_frame_def pool_frame.case Let_def by (simp only:)
  then show ?thesis by (simp add: c_def st_def)
qed

lemma lone_turn:
  "\<exists>c'. drive_turn named lone_client = Some c' \<and> lc_cache c' = spent_cache \<and>
     f_anchor (lc_fetcher c') = f_anchor (lc_fetcher lone_client) \<and> \<not> needs_rearm c'"
proof -
  have "fanout_recv 0 (lone_fan [spend_frame]) = (Got spend_frame, lone_fan [])"
    by (simp add: fanout_recv_def lone_fan_def channel_recv_def)
  moreover have "on_frame named lone_source spend_frame (set_fan (lone_fan []) lone_client) =
      set_fan (lone_fan []) lone_client\<lparr>lc_cache := spent_cache\<rparr>"
    using lone_frame
    by (simp add: on_frame_def follows_source_def anchor_source_def spend_frame_def)
      (simp add: lone_client_def set_fan_def)
  ultimately have "drive_turn named lone_client = Some (set_fan (lone_fan []) lone_client\<lparr>lc_cache := spent_cache\<rparr>)"
    by (simp add: drive_turn_def) (simp add: lone_client_def)
  then show ?thesis by (simp add: needs_rearm_def) (simp add: lone_client_def)
qed


text \<open>A reachable client: coin 1 committed, then nothing else.\<close>

definition seeded_client :: "nat light_client" where
  "seeded_client = commit_coins named [[1]] [state_of 1 80 None] (light_client_new (empty_pool 8))"

lemma light_client_witness:
  "cache_get (lc_cache seeded_client) [1] = Some (state_of 1 80 None) \<and>
   named (cst_coin (state_of 1 80 None)) = [1]"
proof -
  have st: "named (cst_coin (state_of 1 80 None)) = [1]" by (simp add: named_def state_of_def)
  have r: "light_steps named (light_client_new (empty_pool 8)) seeded_client"
    unfolding seeded_client_def by (rule r_into_rtranclp, rule light_step.Coins)
  have get: "cache_get (lc_cache seeded_client) [1] = Some (state_of 1 80 None)"
    by (simp add: seeded_client_def commit_coins_def light_client_new_def seed_def track_coins_def
        empty_cache_def cache_coin_def max_cached_coins_def sat_add_usize_def usize_max_def st cache_get_def
        fcard_finsert_if fcard_fempty)
  show ?thesis
    using light_client_invariant [OF r, of "[1]" "state_of 1 80 None"] get by blast
qed


section \<open>A spend can be lost to a late answer\<close>

text \<open>C29: A re-subscription puts back what it was answered, even over something newer. Once the answer
  to a subscribing read is in, the cache ends with that answer for its coin, whatever the
  drive-loop applied while the operation waited for the cache: a spend pushed and applied in that
  window is replaced by the unspent state the answer carried, and nothing says so.\<close>

theorem late_answer_wins:
  assumes "fetch_coin_states sw ls ids True (lc_fetcher c) = (Inr [st], f)"
    and "cache_get (lc_cache (between (c\<lparr>lc_fetcher := f\<rparr>))) (cid (cst_coin st)) = Some newer"
    and "\<forall>peak hash. light_peak (between (c\<lparr>lc_fetcher := f\<rparr>)) = Some (peak, hash) \<longrightarrow>
      \<not> is_above (created_height st) peak"
  shows "fst (subscribe_coins cid sw ls between ids c) = Inr () \<and>
    cache_get (lc_cache (snd (subscribe_coins cid sw ls between ids c))) (cid (cst_coin st)) = Some st \<and>
    needs_rearm (snd (subscribe_coins cid sw ls between ids c)) =
      needs_rearm (between (c\<lparr>lc_fetcher := f\<rparr>))"
proof -
  define c1 where "c1 = between (c\<lparr>lc_fetcher := f\<rparr>)"
  have "\<not> (case cache_peak (lc_cache c1) of None \<Rightarrow> False | Some (peak, _) \<Rightarrow> is_above (created_height st) peak)"
    using assms(3) by (auto simp: c1_def light_peak_def split: option.split)
  then have "cache_get (cache_coin cid st (track_coins ids (lc_cache c1))) (cid (cst_coin st)) = Some st"
    using assms(2) by (simp add: cache_coin_def track_coins_def cache_get_def c1_def [symmetric])
  then show ?thesis
    by (simp add: subscribe_coins_def assms(1) c1_def [symmetric] commit_coins_def seed_def needs_rearm_def)
qed

definition lone_wire :: "nat session_wire" where
  "lone_wire =
     \<lparr>sw_coin_state = (\<lambda>_ _ _ _ _. Reply [state_of 1 80 None]), sw_puzzle_state = (\<lambda>_ _ _ _ _ _ _. TimedOut),
      sw_children = (\<lambda>_ _. TimedOut), sw_puzzle_and_solution = (\<lambda>_ _ _. TimedOut),
      sw_send_transaction = (\<lambda>_ _. TimedOut), sw_remove_coin_subscriptions = (\<lambda>_ _. TimedOut),
      sw_genesis = []\<rparr>"

definition lone_setting :: "nat light_setting" where
  "lone_setting = \<lparr>ls_dial = (\<lambda>_. None), ls_now = 0, ls_env = (\<lambda>_ pool. pool), ls_during = (\<lambda>f. f)\<rparr>"

definition one_turn :: "nat light_client \<Rightarrow> nat light_client" where
  "one_turn c = (case drive_turn named c of None \<Rightarrow> c | Some c' \<Rightarrow> c')"

lemma lone_fetch:
  "fetch_coin_states lone_wire lone_setting [[1]] True (lc_fetcher lone_client) =
     (Inr [state_of 1 80 None], lc_fetcher lone_client)"
  by (simp add: fetch_coin_states_def issue_def f_session_def anchor_session_def map_ok_def lone_setting_def
      lone_wire_def) (simp add: lone_client_def)

lemma late_answer_witness:
  "cache_get (lc_cache (one_turn lone_client)) [1] = Some (state_of 1 80 (Some 101)) \<and>
   cache_get (lc_cache (snd (subscribe_coins named lone_wire lone_setting one_turn [[1]] lone_client))) [1] =
     Some (state_of 1 80 None) \<and>
   \<not> needs_rearm (snd (subscribe_coins named lone_wire lone_setting one_turn [[1]] lone_client))"
proof -
  have st: "named (cst_coin (state_of 1 80 None)) = [1]" "created_height (state_of 1 80 None) = Some 80"
    by (simp_all add: named_def state_of_def)
  have same: "lone_client\<lparr>lc_fetcher := lc_fetcher lone_client\<rparr> = lone_client" by simp
  obtain c' where c': "one_turn lone_client = c'" "lc_cache c' = spent_cache" "\<not> needs_rearm c'"
    using lone_turn by (auto simp: one_turn_def)
  have get: "cache_get (lc_cache (one_turn lone_client)) [1] = Some (state_of 1 80 (Some 101))"
    by (simp add: c' spent_cache_def cache_get_def)
  have peak: "\<forall>peak hash. light_peak (one_turn lone_client) = Some (peak, hash) \<longrightarrow> \<not> is_above (Some 80) peak"
    by (simp add: c' light_peak_def spent_cache_def)
  from late_answer_wins [OF lone_fetch, where between = one_turn and cid = named, unfolded same st, OF get peak]
  show ?thesis using get c' by simp
qed

text \<open>Clearing the signal has the same gap: a completed re-arm reports an armed set, even when the
  anchor was lost after the last of its reads.\<close>

lemma reconnect_clears:
  assumes "reconnect cid sw ls order bs c = (Inr x, c')"
  shows "\<not> needs_rearm c'"
  using assms by (auto simp: reconnect_def Let_def needs_rearm_def clear_rearm_def split: sum.splits prod.splits if_splits)

lemma rearm_signal_lost:
  "\<exists>c'. reconnect named lone_wire (\<lambda>_. lone_setting) (\<lambda>A. if A = {||} then [] else [[1]])
       (\<lambda>n c. if n = 2 then c\<lparr>lc_fetcher := release_anchor lone_source (lc_fetcher c)\<rparr> else c) lone_client =
       (Inr (), c') \<and>
     f_anchor (lc_fetcher c') = None \<and> is_subscribed_coin (lc_cache c') [1] \<and> \<not> needs_rearm c'"
proof -
  have subs: "subscribed_coins (lc_cache lone_client) = {|[1]|}"
    "subscribed_puzzle_hashes (lc_cache lone_client) = {||}"
    and anc: "map_option an_source (f_anchor (lc_fetcher lone_client)) = Some lone_source"
    by (simp_all add: lone_client_def)
  have "subscribed_coins (lc_cache (commit_coins named [[1]] states c)) = subscribed_coins (lc_cache c) |\<union>| {|[1]|}"
    for states and c :: "nat light_client"
  proof -
    have "subscribed_coins (seed named states c') = subscribed_coins c'" for c'
      unfolding seed_def by (induction states arbitrary: c') simp_all
    then show ?thesis by (simp add: commit_coins_def track_coins_def)
  qed
  then show ?thesis
    using subs anc lone_fetch
    by (auto simp: reconnect_def subscribe_coins_def Let_def commit_coins_def release_anchor_def clear_rearm_def
        is_subscribed_coin_def needs_rearm_def)
qed

end
