(* ===== verification/Chain_Source.thy ===== *)
theory Chain_Source
  imports Client Light_Client
begin

text \<open>
  The chain-source interface as the crate uses it, \<open>src/provider_registry/bridge.rs\<close> and
  \<open>src/provider_registry/convert.rs\<close>: a source is a record of its reads; the bridge runs an
  asynchronous read to completion on the calling thread; the conversions take the crate's records
  to the interface's, failing closed. The lemmas show that a record survives the conversion with
  the chain state the peer reported, and what the bridge makes of a misuse.
\<close>

section \<open>The interface\<close>

text \<open>\<open>None\<close> is a read that does not return. The interface's coin record, and its reads; a
  lineage is of the interface's own type \<open>'l\<close>.\<close>

type_synonym ('s, 'a) source_call = "'s \<Rightarrow> ('a sourced \<times> 's) option"

record iface_record =
  ic_coin :: proto_coin
  confirmed_height :: "u32 option"
  ic_spent_height :: "u32 option"
  ic_timestamp :: "u64 option"
  ic_coinbase :: bool

record ('s, 'l) chain_source =
  src_coin_record :: "bytes \<Rightarrow> ('s, iface_record option) source_call"
  src_by_puzzle_hash :: "bytes \<Rightarrow> bool \<Rightarrow> ('s, iface_record list) source_call"
  src_by_parent :: "bytes \<Rightarrow> ('s, iface_record list) source_call"
  src_coin_spend :: "bytes \<Rightarrow> ('s, proto_coin_spend option) source_call"
  src_lineage :: "bytes \<Rightarrow> ('s, 'l option) source_call"
  src_peak_height :: "('s, u32 option) source_call"
  src_block_timestamp :: "u32 \<Rightarrow> ('s, u64 option) source_call"

definition src_ret :: "'a sourced \<Rightarrow> ('s, 'a) source_call" where
  "src_ret r s = Some (r, s)"

definition src_bind ::
  "('s, 'a) source_call \<Rightarrow> ('a \<Rightarrow> ('s, 'b) source_call) \<Rightarrow> ('s, 'b) source_call" where
  "src_bind m f s =
     (case m s of
        None \<Rightarrow> None
      | Some (Inl e, s') \<Rightarrow> Some (Inl e, s')
      | Some (Inr x, s') \<Rightarrow> f x s')"

lemma src_bind_Some:
  "src_bind m f s = Some (r, s') \<longleftrightarrow>
     (\<exists>e. m s = Some (Inl e, s') \<and> r = Inl e) \<or> (\<exists>x s1. m s = Some (Inr x, s1) \<and> f x s1 = Some (r, s'))"
  by (auto simp: src_bind_def split: option.split sum.split)

section \<open>The bridge\<close>

text \<open>The runtime the calling thread is in, and how a future can end.\<close>

datatype runtime = CurrentThread | MultiThread | NoRuntime

datatype 'a outcome = Finished 'a | Panicked

definition CURRENT_THREAD_MSG :: string where
  "CURRENT_THREAD_MSG =
     ''chia-query ChainSource facade requires a multi-thread tokio runtime; it was invoked from a current-thread runtime. Build the provider on a multi-thread runtime, or wrap the call in tokio::task::spawn_blocking (see SPEC ''
     @ [CHR 0xC2, CHR 0xA7] @ ''7).''"

definition guard_panics :: "('a outcome \<times> 's) option \<Rightarrow> ('a sourced \<times> 's) option" where
  "guard_panics r =
     (case r of
        None \<Rightarrow> None
      | Some (Finished x, s) \<Rightarrow> Some (Inr x, s)
      | Some (Panicked, s) \<Rightarrow>
          Some (Inl (CTransport ''chia-query ChainSource facade caught a panic while blocking on the async runtime''), s))"

definition run_blocking :: "runtime \<Rightarrow> ('s \<Rightarrow> ('a outcome \<times> 's) option) \<Rightarrow> ('s, 'a) source_call" where
  "run_blocking ambient fut s =
     (case ambient of
        CurrentThread \<Rightarrow> Some (Inl (CTransport CURRENT_THREAD_MSG), s)
      | MultiThread \<Rightarrow> guard_panics (fut s)
      | NoRuntime \<Rightarrow> guard_panics (fut s))"

text \<open>A read of the model as a future: it finishes whenever it returns.\<close>

definition finishing :: "('s \<Rightarrow> ('a \<times> 's) option) \<Rightarrow> 's \<Rightarrow> ('a outcome \<times> 's) option" where
  "finishing c s = map_option (\<lambda>(x, s'). (Finished x, s')) (c s)"

lemma run_blocking_finishing:
  "ambient \<noteq> CurrentThread \<Longrightarrow> run_blocking ambient (finishing c) s = map_option (\<lambda>(x, s'). (Inr x, s')) (c s)"
  by (cases ambient) (auto simp: run_blocking_def finishing_def guard_panics_def split: option.split)

lemma misuse_is_an_error:
  "run_blocking CurrentThread fut s = Some (Inl (CTransport CURRENT_THREAD_MSG), s)"
  by (simp add: run_blocking_def)

section \<open>Conversions\<close>

definition strip_0x_or :: "string \<Rightarrow> string" where
  "strip_0x_or s = (case strip_prefix ''0x'' s of Some t \<Rightarrow> t | None \<Rightarrow> s)"

definition iface_bytes32 :: "hex_codec \<Rightarrow> string \<Rightarrow> bytes sourced" where
  "iface_bytes32 hx s =
     (case hex_decode hx (strip_0x_or s) of
        Inl e \<Rightarrow> Inl (CMalformed (''invalid hex `'' @ s @ ''`: '' @ e))
      | Inr b \<Rightarrow>
          if length b = 32 then Inr b
          else Inl (CMalformed (''expected 32 bytes, got '' @ dec (length b))))"

definition parse_program :: "hex_codec \<Rightarrow> string \<Rightarrow> bytes sourced" where
  "parse_program hx s =
     map_err (\<lambda>e. CMalformed (''invalid program hex: '' @ e)) (hex_decode hx (strip_0x_or s))"

definition bytes32_to_hex :: "hex_codec \<Rightarrow> bytes \<Rightarrow> string" where
  "bytes32_to_hex hx b = ''0x'' @ hex_encode hx b"

definition coin_from_chq :: "hex_codec \<Rightarrow> coin \<Rightarrow> proto_coin sourced" where
  "coin_from_chq hx c =
     rbind (iface_bytes32 hx (parent_coin_info c)) (\<lambda>parent.
     rbind (iface_bytes32 hx (puzzle_hash c)) (\<lambda>ph.
     Inr \<lparr>pc_parent_coin_info = parent, pc_puzzle_hash = ph, pc_amount = amount c\<rparr>))"

definition none_if_zero :: "'a::len word \<Rightarrow> 'a word option" where
  "none_if_zero v = (if v \<noteq> 0 then Some v else None)"

definition coin_record_from_chq :: "hex_codec \<Rightarrow> coin_record \<Rightarrow> iface_record sourced" where
  "coin_record_from_chq hx r =
     rbind (coin_from_chq hx (cr_coin r)) (\<lambda>c.
     Inr \<lparr>ic_coin = c, confirmed_height = none_if_zero (confirmed_block_index r),
       ic_spent_height = (if spent r then Some (spent_block_index r) else None),
       ic_timestamp = none_if_zero (cr_timestamp r), ic_coinbase = coinbase r\<rparr>)"

definition coin_spend_from_chq :: "hex_codec \<Rightarrow> coin_spend \<Rightarrow> proto_coin_spend sourced" where
  "coin_spend_from_chq hx sp =
     rbind (coin_from_chq hx (cs_coin sp)) (\<lambda>c.
     rbind (parse_program hx (puzzle_reveal sp)) (\<lambda>puzzle.
     rbind (parse_program hx (solution sp)) (\<lambda>sol.
     Inr \<lparr>pcs_coin = c, pcs_puzzle_reveal = puzzle, pcs_solution = sol\<rparr>)))"

definition is_timeout :: "string \<Rightarrow> bool" where
  "is_timeout msg =
     (let lower = to_ascii_lowercase msg
      in str_contains lower ''timed out'' \<or> str_contains lower ''timeout'')"

fun map_query_error :: "chia_query_error \<Rightarrow> chain_source_error" where
  "map_query_error (PeerConnection m) = (if is_timeout m then CTimeout else CTransport m)"
| "map_query_error (PeerRejection m) = CTransport m"
| "map_query_error PeerDiscoveryFailed = CTransport ''peer discovery failed''"
| "map_query_error (TlsError m) = CTransport (''TLS: '' @ m)"
| "map_query_error (CoinsetHttp m) = CTransport m"
| "map_query_error (CoinsetApiError m) = CTransport m"
| "map_query_error (AllSourcesFailed p c) = CTransport (''all sources failed: '' @ error_to_string p)"
| "map_query_error (InvalidRequest m) = CMalformed m"
| "map_query_error (UnsupportedWithoutCoinset m) = CUnsupported ''operation requires the coinset fallback''"
| "map_query_error (UncorroboratedAbsence m) = CTransport m"
| "map_query_error (UncorroboratedPresence m) = CTransport m"
| "map_query_error (SourcesDisagree m) = CTransport (''sources disagree: '' @ m)"

text \<open>\<open>records.iter().map(...).collect()\<close>, and \<open>record.as_ref().map(...).transpose()\<close>.\<close>

definition transpose_opt :: "('a \<Rightarrow> 'b sourced) \<Rightarrow> 'a option \<Rightarrow> 'b option sourced" where
  "transpose_opt f x = (case x of None \<Rightarrow> Inr None | Some y \<Rightarrow> map_ok Some (f y))"

section \<open>What the conversions keep\<close>

lemma iface_bytes32_hex:
  assumes "hex_ok hx" "length b = 32"
  shows "iface_bytes32 hx (''0x'' @ hex_encode hx b) = Inr b"
  using assms by (simp add: iface_bytes32_def strip_0x_or_def hex_ok_def)

lemma coin_from_chq_protocol:
  assumes "hex_ok hx" "length (pc_parent_coin_info c) = 32" "length (pc_puzzle_hash c) = 32"
  shows "coin_from_chq hx (from_protocol hx c) = Inr c"
  using assms iface_bytes32_hex [OF assms(1)]
  by (simp add: coin_from_chq_def from_protocol_def rbind_def)

text \<open>What a peer reported of a coin reaches the interface as it was, but for a creation height of
  zero, which the flat encoding cannot tell from none.\<close>

lemma coin_state_reaches_interface:
  assumes "hex_ok hx" "length (pc_parent_coin_info (cst_coin st)) = 32"
    "length (pc_puzzle_hash (cst_coin st)) = 32"
  shows "coin_record_from_chq hx (coin_state_to_record hx st) =
    Inr \<lparr>ic_coin = cst_coin st,
      confirmed_height = (if created_height st = Some 0 then None else created_height st),
      ic_spent_height = spent_height st, ic_timestamp = None, ic_coinbase = False\<rparr>"
  using coin_from_chq_protocol [OF assms]
  by (auto simp: coin_record_from_chq_def coin_state_to_record_def rbind_def none_if_zero_def split: option.split)

text \<open>A timeout below an aggregate error is not classified as one.\<close>

lemma nested_timeout_is_transport:
  "map_query_error (AllSourcesFailed (PeerConnection m) c) =
     CTransport (''all sources failed: '' @ error_to_string (PeerConnection m))"
  by simp

end
