(* ===== verification/Providers.thy ===== *)
theory Providers
  imports Chain_Source
begin

text \<open>
  The chain sources the registry composes: \<open>src/provider_registry/chia_query_provider.rs\<close> over the
  client, \<open>src/provider_registry/coinset_source.rs\<close> over the coinset API alone, and the wrappers of
  \<open>src/provider_registry/providers.rs\<close> that label a source with its kind. The walk that resolves a
  singleton's lineage is \<open>dig_chainsource_interface\<close>'s and an argument: it reads the source's coin
  records and spends. The lemmas show that a source reports absence only where the query behind it
  did, and that the list reads are bounded.
\<close>

section \<open>A query as a source's read\<close>

text \<open>\<open>run_blocking(...)?.map_err(map_query_error)?\<close>.\<close>

definition asking :: "runtime \<Rightarrow> ('s, 'a) call \<Rightarrow> ('s, 'a) source_call" where
  "asking ambient c =
     src_bind (run_blocking ambient (finishing c)) (\<lambda>r. src_ret (map_err map_query_error r))"

definition with_result :: "('s, 'a) source_call \<Rightarrow> ('a \<Rightarrow> 'b sourced) \<Rightarrow> ('s, 'b) source_call" where
  "with_result m f = src_bind m (\<lambda>x. src_ret (f x))"

section \<open>Over the client\<close>

record ('p, 'n, 'h) chia_query_provider =
  cqp_inner :: "('p, 'n, 'h) chia_query"
  cqp_ambient :: runtime
  cqp_info :: provider_info

type_synonym ('s, 'l) lineage_walk =
  "(bytes \<Rightarrow> ('s, iface_record option) source_call) \<Rightarrow> (bytes \<Rightarrow> ('s, proto_coin_spend option) source_call) \<Rightarrow>
   bytes \<Rightarrow> ('s, 'l option) source_call"

definition cqp_independence_group :: "('p, 'n, 'h) chia_query_provider \<Rightarrow> string" where
  "cqp_independence_group p = independence_group (cqp_inner p)"

definition cqp_coin_record ::
  "hex_codec \<Rightarrow> ('p, 'n, 'h) chia_query_provider \<Rightarrow> bytes \<Rightarrow> (('p, 'h) world, iface_record option) source_call" where
  "cqp_coin_record hx p k =
     with_result (asking (cqp_ambient p) (q_get_coin_record_by_name_opt (cqp_inner p) (bytes32_to_hex hx k)))
       (transpose_opt (coin_record_from_chq hx))"

definition cqp_by_puzzle_hash ::
  "hex_codec \<Rightarrow> ('p, 'n, 'h) chia_query_provider \<Rightarrow> bytes \<Rightarrow> bool \<Rightarrow>
   (('p, 'h) world, iface_record list) source_call" where
  "cqp_by_puzzle_hash hx p ph spent_too =
     with_result (asking (cqp_ambient p)
         (q_get_coin_records_by_puzzle_hash (cqp_inner p) (bytes32_to_hex hx ph) None None spent_too))
       (collect_results (coin_record_from_chq hx))"

definition cqp_by_parent ::
  "hex_codec \<Rightarrow> ('p, 'n, 'h) chia_query_provider \<Rightarrow> bytes \<Rightarrow> (('p, 'h) world, iface_record list) source_call" where
  "cqp_by_parent hx p k =
     with_result (asking (cqp_ambient p)
         (q_get_coin_records_by_parent_ids (cqp_inner p) [bytes32_to_hex hx k] None None True))
       (collect_results (coin_record_from_chq hx))"

definition cqp_coin_spend ::
  "hex_codec \<Rightarrow> ('p, 'n, 'h) chia_query_provider \<Rightarrow> bytes \<Rightarrow> (('p, 'h) world, proto_coin_spend option) source_call" where
  "cqp_coin_spend hx p k =
     with_result (asking (cqp_ambient p) (q_get_coin_spend_opt (cqp_inner p) (bytes32_to_hex hx k)))
       (transpose_opt (coin_spend_from_chq hx))"

definition chia_query_source ::
  "hex_codec \<Rightarrow> (('p, 'h) world, 'l) lineage_walk \<Rightarrow> ('p, 'n, 'h) chia_query_provider \<Rightarrow>
   (('p, 'h) world, 'l) chain_source" where
  "chia_query_source hx walk p =
     \<lparr>src_coin_record = cqp_coin_record hx p, src_by_puzzle_hash = cqp_by_puzzle_hash hx p,
      src_by_parent = cqp_by_parent hx p, src_coin_spend = cqp_coin_spend hx p,
      src_lineage = walk (cqp_coin_record hx p) (cqp_coin_spend hx p),
      src_peak_height = asking (cqp_ambient p) (q_peak_height_opt (cqp_inner p)),
      src_block_timestamp = (\<lambda>h. asking (cqp_ambient p) (q_block_timestamp_opt (cqp_inner p) h))\<rparr>"

section \<open>Over coinset alone\<close>

definition DEFAULT_COINSET_URL :: string where
  "DEFAULT_COINSET_URL = ''https://api.coinset.org''"

definition COINSET_PROVIDER_PRIORITY :: int where
  "COINSET_PROVIDER_PRIORITY = 30"

definition MAX_COIN_RECORDS :: nat where
  "MAX_COIN_RECORDS = 100000"

definition convert_records :: "hex_codec \<Rightarrow> coin_record list \<Rightarrow> iface_record list sourced" where
  "convert_records hx records =
     (if MAX_COIN_RECORDS < length records then Inl (CTooManyRecords (length records) MAX_COIN_RECORDS)
      else collect_results (coin_record_from_chq hx) records)"

text \<open>\<open>std::env::var\<close> is an argument, \<open>None\<close> where it fails.\<close>

definition coinset_url_from_env :: "string option \<Rightarrow> string" where
  "coinset_url_from_env var =
     (case map_option trim var of
        None \<Rightarrow> DEFAULT_COINSET_URL
      | Some url \<Rightarrow> if url = [] then DEFAULT_COINSET_URL else url)"

text \<open>The owned runtime and the HTTP client are built by their libraries: their results are
  arguments. The source's runtime is its own; what matters to a read is that of the calling thread.\<close>

record 's coinset_chain_source =
  ccs_client :: "'s coinset_client"
  ccs_serde :: serde
  ccs_ambient :: runtime

definition with_client :: "string + unit \<Rightarrow> serde \<Rightarrow> runtime \<Rightarrow> 's coinset_client \<Rightarrow> 's coinset_chain_source sourced" where
  "with_client built sd ambient client =
     (case built of
        Inl e \<Rightarrow> Inl (CTransport (''failed to build coinset source runtime: '' @ e))
      | Inr _ \<Rightarrow> Inr \<lparr>ccs_client = client, ccs_serde = sd, ccs_ambient = ambient\<rparr>)"

definition DEFAULT_REQUEST_TIMEOUT :: nat where
  "DEFAULT_REQUEST_TIMEOUT = from_secs 30"

type_synonym 's http_builder = "nat \<Rightarrow> string + (string \<Rightarrow> json \<Rightarrow> ('s, json) call)"

definition reqwest_transport_new :: "'s http_builder \<Rightarrow> nat \<Rightarrow> (string \<Rightarrow> json \<Rightarrow> ('s, json) call) query" where
  "reqwest_transport_new build timeout = map_err CoinsetHttp (build timeout)"

definition coinset_client_new :: "'s http_builder \<Rightarrow> string \<Rightarrow> nat \<Rightarrow> 's coinset_client query" where
  "coinset_client_new build url timeout = map_ok (with_transport url) (reqwest_transport_new build timeout)"

definition coinset_from_url ::
  "'s http_builder \<Rightarrow> string + unit \<Rightarrow> serde \<Rightarrow> runtime \<Rightarrow> string \<Rightarrow> 's coinset_chain_source sourced" where
  "coinset_from_url build built sd ambient url =
     rbind (map_err (\<lambda>e. CTransport (error_to_string e)) (coinset_client_new build url DEFAULT_REQUEST_TIMEOUT))
       (with_client built sd ambient)"

definition coinset_from_env ::
  "'s http_builder \<Rightarrow> string + unit \<Rightarrow> serde \<Rightarrow> runtime \<Rightarrow> string option \<Rightarrow> 's coinset_chain_source sourced" where
  "coinset_from_env build built sd ambient var =
     coinset_from_url build built sd ambient (coinset_url_from_env var)"

definition ccs_coin_record ::
  "hex_codec \<Rightarrow> 's coinset_chain_source \<Rightarrow> bytes \<Rightarrow> ('s, iface_record option) source_call" where
  "ccs_coin_record hx c k =
     with_result (asking (ccs_ambient c)
         (cs_get_coin_record_by_name_opt (ccs_client c) (ccs_serde c) (bytes32_to_hex hx k)))
       (transpose_opt (coin_record_from_chq hx))"

definition ccs_by_puzzle_hash ::
  "hex_codec \<Rightarrow> 's coinset_chain_source \<Rightarrow> bytes \<Rightarrow> bool \<Rightarrow> ('s, iface_record list) source_call" where
  "ccs_by_puzzle_hash hx c ph spent_too =
     with_result (asking (ccs_ambient c)
         (cs_get_coin_records_by_puzzle_hash (ccs_client c) (ccs_serde c) (bytes32_to_hex hx ph)
           None None spent_too))
       (convert_records hx)"

definition ccs_by_parent ::
  "hex_codec \<Rightarrow> 's coinset_chain_source \<Rightarrow> bytes \<Rightarrow> ('s, iface_record list) source_call" where
  "ccs_by_parent hx c k =
     with_result (asking (ccs_ambient c)
         (cs_get_coin_records_by_parent_ids (ccs_client c) (ccs_serde c) [bytes32_to_hex hx k]
           None None True))
       (convert_records hx)"

definition ccs_coin_spend ::
  "hex_codec \<Rightarrow> 's coinset_chain_source \<Rightarrow> bytes \<Rightarrow> ('s, proto_coin_spend option) source_call" where
  "ccs_coin_spend hx c k =
     with_result (asking (ccs_ambient c)
         (cs_get_puzzle_and_solution_opt (ccs_client c) (ccs_serde c) (bytes32_to_hex hx k) None))
       (transpose_opt (coin_spend_from_chq hx))"

definition ccs_peak_height :: "'s coinset_chain_source \<Rightarrow> ('s, u32 option) source_call" where
  "ccs_peak_height c =
     with_result (asking (ccs_ambient c) (cs_get_blockchain_state (ccs_client c) (ccs_serde c)))
       (\<lambda>st. Inr (map_option br_height (bs_peak st)))"

definition ccs_block_timestamp :: "'s coinset_chain_source \<Rightarrow> u32 \<Rightarrow> ('s, u64 option) source_call" where
  "ccs_block_timestamp c h =
     with_result (asking (ccs_ambient c) (cs_get_block_record_by_height_opt (ccs_client c) (ccs_serde c) h))
       (\<lambda>r. Inr (Option.bind r br_timestamp))"

definition coinset_source :: "hex_codec \<Rightarrow> 's coinset_chain_source \<Rightarrow> ('s, 'l) chain_source" where
  "coinset_source hx c =
     \<lparr>src_coin_record = ccs_coin_record hx c, src_by_puzzle_hash = ccs_by_puzzle_hash hx c,
      src_by_parent = ccs_by_parent hx c, src_coin_spend = ccs_coin_spend hx c,
      src_lineage = (\<lambda>_. src_ret (Inl (CUnsupported
        ''resolve_singleton_lineage is not served by the lightweight coinset source; use ChiaQueryProvider or walk parent_spend''))),
      src_peak_height = ccs_peak_height c, src_block_timestamp = ccs_block_timestamp c\<rparr>"

section \<open>Providers\<close>

text \<open>A source with its descriptor; the wrappers fix the kind and delegate every read.\<close>

record ('s, 'l) provider =
  pr_source :: "('s, 'l) chain_source"
  pr_info :: provider_info

definition kinded_provider ::
  "provider_kind \<Rightarrow> string \<Rightarrow> int \<Rightarrow> ('s, 'l) chain_source \<Rightarrow> ('s, 'l) provider" where
  "kinded_provider kind pid priority source =
     \<lparr>pr_source = source,
      pr_info = \<lparr>pi_id = pid, pi_kind = kind, pi_priority = priority, trustless = False\<rparr>\<rparr>"

definition coinset_provider :: "string \<Rightarrow> int \<Rightarrow> ('s, 'l) chain_source \<Rightarrow> ('s, 'l) provider" where
  "coinset_provider = kinded_provider PublicOracle"

definition local_node_provider :: "string \<Rightarrow> int \<Rightarrow> ('s, 'l) chain_source \<Rightarrow> ('s, 'l) provider" where
  "local_node_provider = kinded_provider LocalNode"

definition dig_peers_provider :: "string \<Rightarrow> int \<Rightarrow> ('s, 'l) chain_source \<Rightarrow> ('s, 'l) provider" where
  "dig_peers_provider = kinded_provider DigPeers"

definition custom_provider :: "string \<Rightarrow> int \<Rightarrow> ('s, 'l) chain_source \<Rightarrow> ('s, 'l) provider" where
  "custom_provider = kinded_provider Custom"

definition coinset_provider_from_url ::
  "hex_codec \<Rightarrow> 's http_builder \<Rightarrow> string + unit \<Rightarrow> serde \<Rightarrow> runtime \<Rightarrow> string \<Rightarrow>
   ('s, 'l) provider sourced" where
  "coinset_provider_from_url hx build built sd ambient url =
     map_ok (\<lambda>c. coinset_provider ''coinset.org'' COINSET_PROVIDER_PRIORITY (coinset_source hx c))
       (coinset_from_url build built sd ambient url)"

definition coinset_provider_from_env ::
  "hex_codec \<Rightarrow> 's http_builder \<Rightarrow> string + unit \<Rightarrow> serde \<Rightarrow> runtime \<Rightarrow> string option \<Rightarrow>
   ('s, 'l) provider sourced" where
  "coinset_provider_from_env hx build built sd ambient var =
     map_ok (\<lambda>c. coinset_provider ''coinset.org'' COINSET_PROVIDER_PRIORITY (coinset_source hx c))
       (coinset_from_env build built sd ambient var)"

section \<open>What a source reports\<close>

lemma asking_Inr:
  "asking ambient c s = Some (Inr x, s') \<longleftrightarrow> ambient \<noteq> CurrentThread \<and> c s = Some (Inr x, s')"
  by (cases ambient)
    (auto simp: asking_def src_bind_def run_blocking_def finishing_def guard_panics_def src_ret_def map_err_def
      split: option.splits sum.splits)

lemma with_result_Inr:
  "with_result m f s = Some (Inr y, s') \<longleftrightarrow> (\<exists>x. m s = Some (Inr x, s') \<and> f x = Inr y)"
  by (auto simp: with_result_def src_bind_Some src_ret_def)

lemma transpose_opt_None: "transpose_opt f x = Inr None \<longleftrightarrow> x = None"
  by (auto simp: transpose_opt_def map_ok_def split: option.split sum.split)

lemma transpose_opt_Some: "transpose_opt f x = Inr (Some y) \<longleftrightarrow> (\<exists>z. x = Some z \<and> f z = Inr y)"
  by (auto simp: transpose_opt_def map_ok_def split: option.split sum.split)

text \<open>C37: Behind the synchronous facade an absence is still a reading. Both sources report a coin or
  a spend as absent exactly when the caller may block and the query behind the read answered that
  there is none: no failed query, runtime misuse or record that does not convert is reported as an
  absence, and no absence as anything else.\<close>

theorem facade_absence_is_read:
  "(src_coin_record (chia_query_source hx walk p) k s = Some (Inr None, s') \<longleftrightarrow>
      cqp_ambient p \<noteq> CurrentThread \<and>
      q_get_coin_record_by_name_opt (cqp_inner p) (bytes32_to_hex hx k) s = Some (Inr None, s')) \<and>
   (src_coin_spend (chia_query_source hx walk p) k s = Some (Inr None, s') \<longleftrightarrow>
      cqp_ambient p \<noteq> CurrentThread \<and>
      q_get_coin_spend_opt (cqp_inner p) (bytes32_to_hex hx k) s = Some (Inr None, s')) \<and>
   (src_coin_record (coinset_source hx c) k t = Some (Inr None, t') \<longleftrightarrow>
      ccs_ambient c \<noteq> CurrentThread \<and>
      cs_get_coin_record_by_name_opt (ccs_client c) (ccs_serde c) (bytes32_to_hex hx k) t = Some (Inr None, t')) \<and>
   (src_coin_spend (coinset_source hx c) k t = Some (Inr None, t') \<longleftrightarrow>
      ccs_ambient c \<noteq> CurrentThread \<and>
      cs_get_puzzle_and_solution_opt (ccs_client c) (ccs_serde c) (bytes32_to_hex hx k) None t =
        Some (Inr None, t'))"
  by (simp add: chia_query_source_def coinset_source_def cqp_coin_record_def cqp_coin_spend_def
      ccs_coin_record_def ccs_coin_spend_def with_result_Inr asking_Inr transpose_opt_None)

text \<open>A list of the coinset source is at most a hundred thousand records, each converted.\<close>

lemma coinset_lists_are_bounded:
  "src_by_puzzle_hash (coinset_source hx c) ph spent_too s = Some (Inr rs, s') \<Longrightarrow> length rs \<le> 100000"
  "src_by_parent (coinset_source hx c) k s = Some (Inr rs, s') \<Longrightarrow> length rs \<le> 100000"
  by (auto simp: coinset_source_def ccs_by_puzzle_hash_def ccs_by_parent_def with_result_Inr convert_records_def
      MAX_COIN_RECORDS_def split: if_splits dest!: collect_results_length)

end
