(* ===== verification/Light_Provider.thy ===== *)
theory Light_Provider
  imports Chain_Source
begin

text \<open>
  \<open>src/peer/light_client/provider.rs\<close>: the chain source over the light client's cache and its
  fetcher. The fetcher is the trait \<open>CoinStateFetcher\<close>, a record of its four reads whose promise -
  a read that does not subscribe pins no session - is the locale \<open>coin_fetcher\<close>, interpreted on the
  pooled fetcher. The lemmas show which coin a record or a spend is about, what its heights can be,
  and that no read of the source grows the subscriptions.
\<close>

section \<open>The fetcher trait\<close>

record 'f coin_state_fetcher =
  cf_coin_states :: "bytes list \<Rightarrow> bool \<Rightarrow> 'f \<Rightarrow> coin_state list lighted \<times> 'f"
  cf_puzzle_states :: "bytes list \<Rightarrow> coin_state_filters \<Rightarrow> bool \<Rightarrow> 'f \<Rightarrow> coin_state list lighted \<times> 'f"
  cf_children :: "bytes \<Rightarrow> 'f \<Rightarrow> coin_state list lighted \<times> 'f"
  cf_puzzle_and_solution :: "bytes \<Rightarrow> u32 \<Rightarrow> 'f \<Rightarrow> (bytes \<times> bytes) lighted \<times> 'f"

definition pooled_fetcher :: "'p session_wire \<Rightarrow> 'p light_setting \<Rightarrow> 'p fetcher coin_state_fetcher" where
  "pooled_fetcher sw ls =
     \<lparr>cf_coin_states = fetch_coin_states sw ls, cf_puzzle_states = fetch_puzzle_states sw ls,
      cf_children = fetch_children sw ls, cf_puzzle_and_solution = fetch_puzzle_and_solution sw ls\<rparr>"

section \<open>The provider\<close>

text \<open>The provider's fields, what it takes from libraries - the coin id, the interface's
  \<open>CoinRecord::from_coin_state\<close> and the tree hash of a serialised program - and what surrounds a
  read: the runtime of the calling thread, the \<open>i\<close>-th request of a read (\<open>lp_fetcher i\<close>), and what
  other tasks do between two blocking calls of one read.\<close>

record 'f light_world =
  lw_fetcher :: 'f
  lw_cache :: coin_cache

record 'f light_provider =
  lp_fetcher :: "nat \<Rightarrow> 'f coin_state_fetcher"
  lp_info :: provider_info
  lp_coin_id :: coin_namer
  lp_from_coin_state :: "coin_state \<Rightarrow> iface_record"
  lp_tree_hash :: "bytes \<Rightarrow> string + bytes"
  lp_ambient :: runtime
  lp_between :: "'f light_world \<Rightarrow> 'f light_world"

text \<open>\<open>run_blocking(...)?.map_err(ChainSourceError::from)\<close>, followed by whatever runs until the next
  blocking call.\<close>

definition blocked ::
  "'f light_provider \<Rightarrow> ('f light_world \<Rightarrow> 'a lighted \<times> 'f light_world) \<Rightarrow> ('f light_world, 'a) source_call" where
  "blocked p fut =
     src_bind (run_blocking (lp_ambient p) (finishing (\<lambda>s. Some (fut s))))
       (\<lambda>r s. Some (map_err of_light_error r, lp_between p s))"

definition on_fetcher :: "('f \<Rightarrow> 'a \<times> 'f) \<Rightarrow> 'f light_world \<Rightarrow> 'a \<times> 'f light_world" where
  "on_fetcher read s = (case read (lw_fetcher s) of (r, f) \<Rightarrow> (r, s\<lparr>lw_fetcher := f\<rparr>))"

text \<open>\<open>coin_state\<close>: the cache first, while the client is subscribed to the coin; else the peer.\<close>

definition cache_hit :: "coin_cache \<Rightarrow> bytes \<Rightarrow> coin_state option" where
  "cache_hit c k = (if is_subscribed_coin c k then cache_get c k else None)"

definition lp_coin_state :: "'f light_provider \<Rightarrow> bytes \<Rightarrow> ('f light_world, coin_state option) source_call" where
  "lp_coin_state p k =
     blocked p (\<lambda>s.
       case cache_hit (lw_cache s) k of
         Some st \<Rightarrow> (Inr (Some st), s)
       | None \<Rightarrow>
           (case on_fetcher (cf_coin_states (lp_fetcher p 0) [k] False) s of
              (r, s') \<Rightarrow> (map_ok (List.find (\<lambda>st. lp_coin_id p (cst_coin st) = k)) r, s')))"

definition clamp_record_heights_to_peak :: "u32 option \<Rightarrow> iface_record \<Rightarrow> iface_record" where
  "clamp_record_heights_to_peak peak r =
     (case peak of
        None \<Rightarrow> r
      | Some h \<Rightarrow> r\<lparr>confirmed_height := map_option (\<lambda>c. min c h) (confirmed_height r),
                   ic_spent_height := map_option (\<lambda>c. min c h) (ic_spent_height r)\<rparr>)"

definition verify_reveal_matches :: "(bytes \<Rightarrow> string + bytes) \<Rightarrow> bytes \<Rightarrow> bytes \<Rightarrow> unit sourced" where
  "verify_reveal_matches tree_hash puzzle expected =
     (case tree_hash puzzle of
        Inl e \<Rightarrow> Inl (CMalformed (''undecodable puzzle reveal: '' @ e))
      | Inr actual \<Rightarrow>
          if actual \<noteq> expected
          then Inl (CMalformed ''puzzle reveal does not hash to the coin's puzzle hash'')
          else Inr ())"

definition lp_peak_height :: "'f light_provider \<Rightarrow> ('f light_world, u32 option) source_call" where
  "lp_peak_height p = blocked p (\<lambda>s. (Inr (map_option fst (cache_peak (lw_cache s))), s))"

definition lp_records :: "'f light_provider \<Rightarrow> u32 option \<Rightarrow> coin_state list \<Rightarrow> iface_record list" where
  "lp_records p peak states =
     map (clamp_record_heights_to_peak peak) (map (lp_from_coin_state p) states)"

text \<open>\<open>coin_record\<close> reads the peak first, the two list reads read it last.\<close>

definition lp_coin_record :: "'f light_provider \<Rightarrow> bytes \<Rightarrow> ('f light_world, iface_record option) source_call" where
  "lp_coin_record p k =
     src_bind (lp_peak_height p) (\<lambda>peak.
     src_bind (lp_coin_state p k) (\<lambda>st.
     src_ret (Inr (map_option (clamp_record_heights_to_peak peak)
       (map_option (lp_from_coin_state p) st)))))"

definition lp_by_puzzle_hash ::
  "'f light_provider \<Rightarrow> bytes \<Rightarrow> bool \<Rightarrow> ('f light_world, iface_record list) source_call" where
  "lp_by_puzzle_hash p ph spent_too =
     src_bind (blocked p (on_fetcher (cf_puzzle_states (lp_fetcher p 0) [ph]
         \<lparr>f_include_spent = spent_too, f_include_unspent = True, f_include_hinted = True,
          f_min_amount = 0\<rparr> False))) (\<lambda>states.
     src_bind (lp_peak_height p) (\<lambda>peak.
     src_ret (Inr (lp_records p peak states))))"

definition lp_by_parent :: "'f light_provider \<Rightarrow> bytes \<Rightarrow> ('f light_world, iface_record list) source_call" where
  "lp_by_parent p k =
     src_bind (blocked p (on_fetcher (cf_children (lp_fetcher p 0) k))) (\<lambda>states.
     src_bind (lp_peak_height p) (\<lambda>peak.
     src_ret (Inr (lp_records p peak states))))"

definition lp_coin_spend :: "'f light_provider \<Rightarrow> bytes \<Rightarrow> ('f light_world, proto_coin_spend option) source_call" where
  "lp_coin_spend p k =
     src_bind (lp_coin_state p k) (\<lambda>found.
     case found of
       None \<Rightarrow> src_ret (Inr None)
     | Some st \<Rightarrow>
         (case spent_height st of
            None \<Rightarrow> src_ret (Inr None)
          | Some h \<Rightarrow>
              src_bind (blocked p (on_fetcher (cf_puzzle_and_solution (lp_fetcher p 1) k h))) (\<lambda>(puzzle, sol).
              src_bind (src_ret (verify_reveal_matches (lp_tree_hash p) puzzle (pc_puzzle_hash (cst_coin st)))) (\<lambda>_.
              src_ret (Inr (Some \<lparr>pcs_coin = cst_coin st, pcs_puzzle_reveal = puzzle, pcs_solution = sol\<rparr>))))))"

definition light_source :: "'f light_provider \<Rightarrow> ('f light_world, 'l) chain_source" where
  "light_source p =
     \<lparr>src_coin_record = lp_coin_record p, src_by_puzzle_hash = lp_by_puzzle_hash p,
      src_by_parent = lp_by_parent p, src_coin_spend = lp_coin_spend p,
      src_lineage = (\<lambda>_. src_ret (Inl (CUnsupported
        ''singleton lineage resolution is not provided by the light-client source; use an aggregating chain source''))),
      src_peak_height = lp_peak_height p,
      src_block_timestamp = (\<lambda>_. src_ret (Inl (CUnsupported
        ''block timestamps are not indexed by the light-client source'')))\<rparr>"

text \<open>\<open>as_chain_source_provider\<close>: the provider shares the client's fetcher and cache, and is described
  by the session the client is anchored on when it is built.\<close>

definition as_chain_source_provider ::
  "'p session_wire \<Rightarrow> (nat \<Rightarrow> 'p light_setting) \<Rightarrow> coin_namer \<Rightarrow> (coin_state \<Rightarrow> iface_record) \<Rightarrow>
   (bytes \<Rightarrow> string + bytes) \<Rightarrow> runtime \<Rightarrow> ('p fetcher light_world \<Rightarrow> 'p fetcher light_world) \<Rightarrow>
   'p light_client \<Rightarrow> 'p fetcher light_provider \<times> 'p fetcher light_world" where
  "as_chain_source_provider sw ls cid from_state tree_hash ambient between c =
     (\<lparr>lp_fetcher = (\<lambda>i. pooled_fetcher sw (ls i)), lp_info = light_provider_info c, lp_coin_id = cid,
       lp_from_coin_state = from_state, lp_tree_hash = tree_hash, lp_ambient = ambient,
       lp_between = between\<rparr>,
      \<lparr>lw_fetcher = lc_fetcher c, lw_cache = lc_cache c\<rparr>)"

section \<open>What a blocking call does\<close>

lemma blocked_Inr:
  "blocked p fut s = Some (Inr x, s') \<longleftrightarrow>
     lp_ambient p \<noteq> CurrentThread \<and> (\<exists>s1. fut s = (Inr x, s1) \<and> s' = lp_between p s1)"
  by (cases "lp_ambient p")
    (auto simp: blocked_def src_bind_def run_blocking_def finishing_def guard_panics_def map_err_def
      split: prod.split sum.splits)

lemma src_bind_Inr:
  "src_bind m f s = Some (Inr y, s') \<longleftrightarrow> (\<exists>x s1. m s = Some (Inr x, s1) \<and> f x s1 = Some (Inr y, s'))"
  by (auto simp: src_bind_Some)

lemma src_ret_Some [simp]: "src_ret r s = Some (r', s') \<longleftrightarrow> r' = r \<and> s' = s"
  by (auto simp: src_ret_def)

section \<open>What a read is about\<close>

text \<open>Where the state of a coin comes from: the cache, or the peer asked about that coin alone.\<close>

definition light_answer :: "'f light_provider \<Rightarrow> 'f light_world \<Rightarrow> bytes \<Rightarrow> coin_state option \<Rightarrow> bool" where
  "light_answer p s k found \<longleftrightarrow>
     (case cache_hit (lw_cache s) k of
        Some st \<Rightarrow> found = Some st
      | None \<Rightarrow>
          (case fst (cf_coin_states (lp_fetcher p 0) [k] False (lw_fetcher s)) of
             Inl e \<Rightarrow> False
           | Inr states \<Rightarrow> found = List.find (\<lambda>st. lp_coin_id p (cst_coin st) = k) states))"

lemma lp_coin_state_answer:
  assumes "lp_coin_state p k s = Some (Inr found, s')"
  shows "light_answer p s k found"
proof (cases "cache_hit (lw_cache s) k")
  case None
  with assms show ?thesis
    by (auto simp: lp_coin_state_def blocked_Inr light_answer_def on_fetcher_def map_ok_def
        split: prod.splits sum.splits)
next
  case (Some st)
  with assms have "found = Some st" by (simp add: lp_coin_state_def blocked_Inr)
  with Some show ?thesis by (simp add: light_answer_def)
qed

lemma light_answer_id:
  assumes "cache_ok (lp_coin_id p) (lw_cache s)" "light_answer p s k (Some st)"
  shows "lp_coin_id p (cst_coin st) = k"
  using assms unfolding light_answer_def
  by (auto simp: cache_ok_def cache_hit_def cache_get_def find_Some_iff2 split: option.splits if_splits sum.splits)

lemma lp_peak_height_Inr:
  "lp_peak_height p s = Some (Inr peak, s') \<longleftrightarrow>
     lp_ambient p \<noteq> CurrentThread \<and> peak = map_option fst (cache_peak (lw_cache s)) \<and> s' = lp_between p s"
  by (auto simp: lp_peak_height_def blocked_Inr)

lemma clamped:
  "ic_coin (clamp_record_heights_to_peak peak r) = ic_coin r"
  "ic_spent_height (clamp_record_heights_to_peak peak r) = None \<longleftrightarrow> ic_spent_height r = None"
  "peak = Some h \<Longrightarrow> ic_spent_height (clamp_record_heights_to_peak peak r) = Some x \<Longrightarrow> x \<le> h"
  "peak = Some h \<Longrightarrow> confirmed_height (clamp_record_heights_to_peak peak r) = Some x \<Longrightarrow> x \<le> h"
  by (auto simp: clamp_record_heights_to_peak_def split: option.splits)


text \<open>A peer that has seen a spend in a block past the peak the cache knows.\<close>

definition ahead_fetcher :: "unit coin_state_fetcher" where
  "ahead_fetcher =
     \<lparr>cf_coin_states = (\<lambda>ids _ f. (Inr [state_of 5 80 None, state_of 4 99 (Some 105)], f)),
      cf_puzzle_states = (\<lambda>_ _ _ f. (Inl LTimeout, f)), cf_children = (\<lambda>_ f. (Inl LTimeout, f)),
      cf_puzzle_and_solution = (\<lambda>_ _ f. (Inr ([9], [128]), f))\<rparr>"

definition plain_interface :: "coin_state \<Rightarrow> iface_record" where
  "plain_interface st =
     \<lparr>ic_coin = cst_coin st, confirmed_height = created_height st, ic_spent_height = spent_height st,
      ic_timestamp = None, ic_coinbase = False\<rparr>"

definition ahead_provider :: "unit light_provider" where
  "ahead_provider =
     \<lparr>lp_fetcher = (\<lambda>_. ahead_fetcher),
      lp_info = \<lparr>pi_id = ''light'', pi_kind = Custom, pi_priority = 20, trustless = False\<rparr>,
      lp_coin_id = named, lp_from_coin_state = plain_interface, lp_tree_hash = (\<lambda>_. Inr [4]),
      lp_ambient = NoRuntime, lp_between = (\<lambda>s. s)\<rparr>"

definition ahead_source :: "(unit light_world, nat) chain_source" where
  "ahead_source = light_source ahead_provider"

definition ahead_world :: "unit light_world" where
  "ahead_world = \<lparr>lw_fetcher = (), lw_cache = three_coins\<rparr>"

lemma ahead_answer: "light_answer ahead_provider ahead_world [4] known \<longleftrightarrow> known = Some (state_of 4 99 (Some 105))"
  by (auto simp: light_answer_def cache_hit_def is_subscribed_coin_def cache_get_def ahead_world_def
      three_coins_def ahead_provider_def ahead_fetcher_def named_def state_of_def)

lemma ahead_facts:
  "lp_between ahead_provider s = s" "cache_peak (lw_cache ahead_world) = Some (100, [170])"
  by (simp_all add: ahead_provider_def ahead_world_def three_coins_def)


text \<open>A spend is of the coin asked for, and its reveal hashes to that coin's puzzle hash.\<close>

lemma light_spend_is_verified:
  assumes "cache_ok (lp_coin_id p) (lw_cache s)"
    and "src_coin_spend (light_source p) k s = Some (Inr (Some sp), s')"
  shows "lp_coin_id p (pcs_coin sp) = k \<and>
    lp_tree_hash p (pcs_puzzle_reveal sp) = Inr (pc_puzzle_hash (pcs_coin sp))"
proof -
  from assms(2) obtain found s1 where found: "lp_coin_state p k s = Some (Inr found, s1)"
    and rest: "(case found of
       None \<Rightarrow> src_ret (Inr None)
     | Some st \<Rightarrow>
         (case spent_height st of
            None \<Rightarrow> src_ret (Inr None)
          | Some h \<Rightarrow>
              src_bind (blocked p (on_fetcher (cf_puzzle_and_solution (lp_fetcher p 1) k h))) (\<lambda>(puzzle, sol).
              src_bind (src_ret (verify_reveal_matches (lp_tree_hash p) puzzle (pc_puzzle_hash (cst_coin st)))) (\<lambda>_.
              src_ret (Inr (Some \<lparr>pcs_coin = cst_coin st, pcs_puzzle_reveal = puzzle, pcs_solution = sol\<rparr>))))))
       s1 = Some (Inr (Some sp), s')"
    unfolding light_source_def lp_coin_spend_def chain_source.simps src_bind_Inr by (elim exE conjE) (rule that)
  then obtain st where st: "lp_coin_state p k s = Some (Inr (Some st), s1)"
    and sp: "pcs_coin sp = cst_coin st"
      "verify_reveal_matches (lp_tree_hash p) (pcs_puzzle_reveal sp) (pc_puzzle_hash (cst_coin st)) = Inr ()"
    by (cases found; cases "spent_height (the found)") (auto simp: src_bind_Inr)
  have "lp_coin_id p (cst_coin st) = k"
    by (rule light_answer_id [OF assms(1) lp_coin_state_answer [OF st]])
  with sp show ?thesis
    by (auto simp: verify_reveal_matches_def split: sum.splits if_splits)
qed

section \<open>A read subscribes to nothing\<close>

text \<open>What the provider relies on: a read it makes leaves the fetcher as it was in the sense of
  \<open>quiet\<close>, up to what others do while the request is in flight (\<open>during\<close>).\<close>

definition quietly :: "('f \<Rightarrow> 'f \<Rightarrow> bool) \<Rightarrow> ('f \<Rightarrow> 'f) \<Rightarrow> 'f \<Rightarrow> 'f \<Rightarrow> bool" where
  "quietly quiet during f f' \<longleftrightarrow> quiet f f' \<or> (\<exists>f1. quiet f f1 \<and> quiet (during f1) f')"

definition undisturbed :: "('f \<Rightarrow> 'f \<Rightarrow> bool) \<Rightarrow> 'f light_world \<Rightarrow> 'f light_world \<Rightarrow> bool" where
  "undisturbed quiet s s' \<longleftrightarrow> quiet (lw_fetcher s) (lw_fetcher s') \<and>
     subscribed_coins (lw_cache s') = subscribed_coins (lw_cache s) \<and>
     subscribed_puzzle_hashes (lw_cache s') = subscribed_puzzle_hashes (lw_cache s)"

locale coin_fetcher =
  fixes cf :: "'f coin_state_fetcher"
    and quiet :: "'f \<Rightarrow> 'f \<Rightarrow> bool"
    and during :: "'f \<Rightarrow> 'f"
  assumes quiet_refl: "quiet f f"
    and quiet_trans: "quiet f g \<Longrightarrow> quiet g g2 \<Longrightarrow> quiet f g2"
    and quiet_coin_states: "quietly quiet during f (snd (cf_coin_states cf ids False f))"
    and quiet_puzzle_states: "quietly quiet during f (snd (cf_puzzle_states cf phs filters False f))"
    and quiet_children: "quietly quiet during f (snd (cf_children cf k f))"
    and quiet_reveal: "quietly quiet during f (snd (cf_puzzle_and_solution cf k height f))"
begin

lemma alone:
  assumes "\<And>f. quiet f (during f)" "quietly quiet during f f'"
  shows "quiet f f'"
  using assms unfolding quietly_def by (meson quiet_trans)

lemma undisturbed_refl: "undisturbed quiet s s"
  by (simp add: undisturbed_def quiet_refl)

lemma undisturbed_trans:
  "undisturbed quiet s1 s2 \<Longrightarrow> undisturbed quiet s2 s3 \<Longrightarrow> undisturbed quiet s1 s3"
  unfolding undisturbed_def using quiet_trans by auto

lemma blocked_quiet:
  assumes "\<And>s. undisturbed quiet s (lp_between p s)" "\<And>s. undisturbed quiet s (snd (fut s))"
    "blocked p fut s = Some (r, s')"
  shows "undisturbed quiet s s'"
proof -
  have "undisturbed quiet s (lp_between p (snd (fut s)))"
    by (rule undisturbed_trans [OF assms(2) assms(1)])
  then show ?thesis
    using assms(3) undisturbed_refl by (cases "lp_ambient p")
      (auto simp: blocked_def src_bind_def run_blocking_def finishing_def guard_panics_def split: prod.splits)
qed

lemma bind_quiet:
  assumes "src_bind m f s = Some (r, s')"
    "\<And>r s'. m s = Some (r, s') \<Longrightarrow> undisturbed quiet s s'"
    "\<And>x s r s'. f x s = Some (r, s') \<Longrightarrow> undisturbed quiet s s'"
  shows "undisturbed quiet s s'"
  using assms unfolding src_bind_Some by (meson undisturbed_trans)

lemma ret_quiet: "src_ret r s = Some (r', s') \<Longrightarrow> undisturbed quiet s s'"
  by (auto simp: undisturbed_refl)

lemma on_fetcher_quiet:
  assumes "\<And>f. quiet f (during f)" "\<And>f. quietly quiet during f (snd (read f))"
  shows "undisturbed quiet s (snd (on_fetcher read s))"
  using alone [OF assms(1) assms(2)]
  by (auto simp: on_fetcher_def undisturbed_def split: prod.split) (metis snd_conv)

lemma reads_quiet:
  fixes p :: "'f light_provider"
  assumes mine: "\<And>i. lp_fetcher p i = cf" and others: "\<And>f. quiet f (during f)"
    and between: "\<And>s. undisturbed quiet s (lp_between p s)"
  shows "lp_coin_record p k s = Some (r1, s') \<Longrightarrow> undisturbed quiet s s'"
    and "lp_by_puzzle_hash p ph spent_too s = Some (r2, s') \<Longrightarrow> undisturbed quiet s s'"
    and "lp_by_parent p k s = Some (r3, s') \<Longrightarrow> undisturbed quiet s s'"
    and "lp_coin_spend p k s = Some (r4, s') \<Longrightarrow> undisturbed quiet s s'"
    and "lp_peak_height p s = Some (r5, s') \<Longrightarrow> undisturbed quiet s s'"
proof -
  note call = blocked_quiet [OF between] and fetch = on_fetcher_quiet [OF others]
  have peak: "undisturbed quiet s s'" if "lp_peak_height p s = Some (r, s')" for r s s'
    by (rule call [OF _ that [unfolded lp_peak_height_def]]) (simp add: undisturbed_refl)
  have state: "undisturbed quiet s s'" if "lp_coin_state p k s = Some (r, s')" for r s s'
  proof (rule call [OF _ that [unfolded lp_coin_state_def]])
    fix t
    obtain x t1 where t1: "on_fetcher (cf_coin_states cf [k] False) t = (x, t1)" by fastforce
    have "undisturbed quiet t (snd (on_fetcher (cf_coin_states cf [k] False) t))"
      by (rule fetch) (rule quiet_coin_states)
    then have "undisturbed quiet t t1" by (simp add: t1)
    then show "undisturbed quiet t (snd (case cache_hit (lw_cache t) k of
         Some st \<Rightarrow> (Inr (Some st), t)
       | None \<Rightarrow>
           (case on_fetcher (cf_coin_states (lp_fetcher p 0) [k] False) t of
              (r, t') \<Rightarrow> (map_ok (List.find (\<lambda>st. lp_coin_id p (cst_coin st) = k)) r, t'))))"
      by (cases "cache_hit (lw_cache t) k") (simp_all add: mine undisturbed_refl t1)
  qed
  show "lp_coin_record p k s = Some (r1, s') \<Longrightarrow> undisturbed quiet s s'"
    unfolding lp_coin_record_def by (elim bind_quiet peak state ret_quiet)
  show "lp_by_puzzle_hash p ph spent_too s = Some (r2, s') \<Longrightarrow> undisturbed quiet s s'"
    unfolding lp_by_puzzle_hash_def mine
    by (elim bind_quiet peak ret_quiet; erule call [OF fetch [OF quiet_puzzle_states]])
  show "lp_by_parent p k s = Some (r3, s') \<Longrightarrow> undisturbed quiet s s'"
    unfolding lp_by_parent_def mine
    by (elim bind_quiet peak ret_quiet; erule call [OF fetch [OF quiet_children]])
  have spend: "(src_bind (blocked p (on_fetcher (cf_puzzle_and_solution (lp_fetcher p 1) k n))) (\<lambda>(puzzle, sol).
         src_bind (src_ret (verify_reveal_matches (lp_tree_hash p) puzzle ph)) (\<lambda>_.
         src_ret (Inr (Some \<lparr>pcs_coin = c, pcs_puzzle_reveal = puzzle, pcs_solution = sol\<rparr>))))) s = Some (r, s')
       \<Longrightarrow> undisturbed quiet s s'" for n ph c s r s'
    unfolding mine split_def
    by (elim bind_quiet ret_quiet; erule call [OF fetch [OF quiet_reveal]])
  show "lp_coin_spend p k s = Some (r4, s') \<Longrightarrow> undisturbed quiet s s'"
    unfolding lp_coin_spend_def
    by (erule bind_quiet, erule state) (auto simp: undisturbed_refl simp del: One_nat_def elim: spend split: option.splits)
  show "lp_peak_height p s = Some (r5, s') \<Longrightarrow> undisturbed quiet s s'" by (rule peak)
qed

end

text \<open>The pooled fetcher: no session is pinned by the step, and none handed to the drive-loop.\<close>

definition unpinned :: "'p fetcher \<Rightarrow> 'p fetcher \<Rightarrow> bool" where
  "unpinned f f' \<longleftrightarrow> (f_anchor f' = f_anchor f \<or> f_anchor f' = None) \<and> handed f' = handed f"

lemma unpinned_pick: "unpinned f (snd (f_pick dial now f))"
  by (simp add: unpinned_def f_pick_def split: prod.split)

lemma unpinned_discard: "unpinned f (discard a f)"
  by (auto simp: unpinned_def discard_def release_anchor_at_def split: option.split)

lemma unpinned_issue: "quietly unpinned (ls_during ls) f (snd (issue ls False req f))"
proof -
  obtain r f1 where s: "f_session ls False f = (r, f1)" by fastforce
  then have one: "unpinned f f1"
    using unpinned_pick [of f "ls_dial ls" "ls_now ls"] by (simp add: f_session_def)
  show ?thesis
  proof (cases r)
    case (Inl e)
    then show ?thesis using one by (simp add: issue_def s quietly_def)
  next
    case (Inr pa)
    obtain peer address where pa: "pa = (peer, address)" by fastforce
    have "unpinned (ls_during ls f1) (ls_during ls f1)" by (simp add: unpinned_def)
    then have "unpinned (ls_during ls f1) (snd (issue ls False req f))"
      using Inr by (simp add: issue_def s pa Let_def unpinned_discard split: sum.split)
    with one show ?thesis unfolding quietly_def by blast
  qed
qed

interpretation pooled: coin_fetcher "pooled_fetcher sw ls" unpinned "ls_during ls" for sw ls
proof unfold_locales
  show "unpinned f f" for f by (simp add: unpinned_def)
  show "unpinned f g \<Longrightarrow> unpinned g g2 \<Longrightarrow> unpinned f g2" for f g g2
    by (auto simp: unpinned_def)
qed (simp_all add: pooled_fetcher_def fetch_coin_states_def fetch_puzzle_states_def fetch_children_def
    fetch_puzzle_and_solution_def unpinned_issue)

text \<open>C39: No read of the light client's source subscribes to anything. Whatever it reads, and
  whether or not it succeeds, the coins and puzzle hashes the client tracks are those it tracked,
  no session is newly pinned as the anchor and none is handed to the drive-loop - provided only
  that the tasks running beside it do none of this either.\<close>

theorem reads_never_subscribe:
  fixes p :: "'p fetcher light_provider"
  assumes "\<And>i. lp_fetcher p i = pooled_fetcher sw ls"
    and "\<And>f. unpinned f (ls_during ls f)"
    and "\<And>s. undisturbed unpinned s (lp_between p s)"
  shows "(src_coin_record (light_source p) k s = Some (r1, s') \<longrightarrow> undisturbed unpinned s s') \<and>
    (src_by_puzzle_hash (light_source p) ph spent_too s = Some (r2, s') \<longrightarrow> undisturbed unpinned s s') \<and>
    (src_by_parent (light_source p) k s = Some (r3, s') \<longrightarrow> undisturbed unpinned s s') \<and>
    (src_coin_spend (light_source p) k s = Some (r4, s') \<longrightarrow> undisturbed unpinned s s') \<and>
    (src_peak_height (light_source p) s = Some (r5, s') \<longrightarrow> undisturbed unpinned s s')"
  using pooled.reads_quiet [OF assms] by (simp add: light_source_def)

definition lone_provider :: "nat fetcher light_provider" where
  "lone_provider =
     \<lparr>lp_fetcher = (\<lambda>_. pooled_fetcher lone_wire lone_setting),
      lp_info = light_provider_info lone_client, lp_coin_id = named, lp_from_coin_state = plain_interface,
      lp_tree_hash = (\<lambda>_. Inr [4]), lp_ambient = MultiThread, lp_between = (\<lambda>s. s)\<rparr>"

definition lone_light_source :: "(nat fetcher light_world, nat) chain_source" where
  "lone_light_source = light_source lone_provider"

definition lone_world :: "nat fetcher light_world" where
  "lone_world = \<lparr>lw_fetcher = lc_fetcher lone_client, lw_cache = three_coins\<rparr>"

lemma blocked_returns: "\<exists>r s'. blocked p fut s = Some (r, s')"
  by (cases "lp_ambient p")
    (auto simp: blocked_def src_bind_def run_blocking_def finishing_def guard_panics_def split: prod.split)

lemma by_parent_returns: "\<exists>r s'. lp_by_parent p k s = Some (r, s')"
proof -
  let ?read = "blocked p (on_fetcher (cf_children (lp_fetcher p 0) k))"
  obtain r1 s1 where read: "?read s = Some (r1, s1)"
    using blocked_returns by blast
  obtain r2 s2 where "lp_peak_height p s1 = Some (r2, s2)"
    unfolding lp_peak_height_def using blocked_returns by blast
  with read show ?thesis
    by (cases r1; cases r2) (auto simp: lp_by_parent_def src_bind_def src_ret_def)
qed

lemma reads_never_subscribe_witness:
  "\<exists>r s'. src_by_parent lone_light_source [1] lone_world = Some (r, s') \<and>
     subscribed_coins (lw_cache s') = {|[1], [2], [3], [4]|} \<and>
     handed (lw_fetcher s') = []"
proof -
  obtain r s' where run: "src_by_parent lone_light_source [1] lone_world = Some (r, s')"
    using by_parent_returns [of lone_provider "[1]" lone_world]
    by (auto simp: lone_light_source_def light_source_def)
  have "undisturbed unpinned lone_world s'"
  proof (rule reads_never_subscribe [THEN conjunct2, THEN conjunct2, THEN conjunct1, THEN mp])
    show "lp_fetcher lone_provider i = pooled_fetcher lone_wire lone_setting" for i
      by (simp add: lone_provider_def)
    show "unpinned f (ls_during lone_setting f)" for f
      by (simp add: lone_setting_def unpinned_def)
    show "undisturbed unpinned t (lp_between lone_provider t)" for t
      by (simp add: lone_provider_def undisturbed_def unpinned_def)
    show "src_by_parent (light_source lone_provider) [1] lone_world = Some (r, s')"
      using run by (auto simp: lone_light_source_def light_source_def)
  qed
  then show ?thesis
    using run by (auto simp: undisturbed_def unpinned_def lone_world_def three_coins_def lone_client_def)
qed

end
