(* ===== verification/Registry.thy ===== *)
theory Registry
  imports Providers Light_Provider "HOL-Library.List_Lexorder" "HOL-Library.Multiset"
begin

text \<open>
  \<open>src/provider_registry/registry.rs\<close>: the registrations and their trust, the custody view, which
  answers from a trusted source or a quorum of independent groups, and the discovery view. How two
  answers are compared is a dictionary, whose laws are the locale \<open>comparable_laws\<close>, interpreted on
  the two comparisons the code has. The lemmas show who stands behind a custody answer, when a
  quorum answers, what its comparison of lists means, and which groups can never agree.
\<close>

section \<open>Registrations\<close>

datatype trust_level = Trusted | Untrusted

fun default_for :: "provider_kind \<Rightarrow> trust_level" where
  "default_for LocalNode = Trusted"
| "default_for PublicOracle = Untrusted"
| "default_for DigPeers = Untrusted"
| "default_for Custom = Untrusted"

definition PUBLIC_QUORUM_THRESHOLD :: nat where
  "PUBLIC_QUORUM_THRESHOLD = 2"

definition MAX_QUORUM_RECORDS :: nat where
  "MAX_QUORUM_RECORDS = 100000"

record ('s, 'l) registration =
  reg_provider :: "('s, 'l) provider"
  reg_trust :: trust_level
  reg_group :: string

record registered_provider =
  rp_kind :: provider_kind
  rp_trust :: trust_level
  rp_group :: string

record ('s, 'l) registry =
  providers :: "('s, 'l) registration list"
  allow_quorum :: bool

definition registry_new :: "('s, 'l) registry" where
  "registry_new = \<lparr>providers = [], allow_quorum = False\<rparr>"

definition allow_public_quorum_custody :: "bool \<Rightarrow> ('s, 'l) registry \<Rightarrow> ('s, 'l) registry" where
  "allow_public_quorum_custody allow reg = reg\<lparr>allow_quorum := allow\<rparr>"

definition register ::
  "('s, 'l) provider \<Rightarrow> trust_level option \<Rightarrow> string \<Rightarrow> ('s, 'l) registry \<Rightarrow> ('s, 'l) registry" where
  "register p trust_override grp reg =
     reg\<lparr>providers := providers reg @
       [\<lparr>reg_provider = p,
         reg_trust = (case trust_override of None \<Rightarrow> default_for (pi_kind (pr_info p)) | Some t \<Rightarrow> t),
         reg_group = grp\<rparr>]\<rparr>"

definition registrations :: "('s, 'l) registry \<Rightarrow> registered_provider list" where
  "registrations reg =
     map (\<lambda>r. \<lparr>rp_kind = pi_kind (pr_info (reg_provider r)), rp_trust = reg_trust r, rp_group = reg_group r\<rparr>)
       (providers reg)"

definition independence_groups :: "('s, 'l) registry \<Rightarrow> string list" where
  "independence_groups reg = map reg_group (providers reg)"

text \<open>\<open>sort_by_key\<close> is stable, as \<open>sort_key\<close> is.\<close>

definition by_priority :: "('s, 'l) registry \<Rightarrow> ('s, 'l) registration list" where
  "by_priority reg = sort_key (\<lambda>r. pi_priority (pr_info (reg_provider r))) (providers reg)"

section \<open>Comparing answers\<close>

record 'a quorum_comparable =
  quorum_eq :: "'a \<Rightarrow> 'a \<Rightarrow> bool"
  validate_bound :: "'a \<Rightarrow> unit sourced"

definition via_partial_eq :: "'a quorum_comparable" where
  "via_partial_eq = \<lparr>quorum_eq = (=), validate_bound = (\<lambda>_. Inr ())\<rparr>"

definition canonical_order :: "coin_namer \<Rightarrow> iface_record list \<Rightarrow> (bytes \<times> iface_record) list" where
  "canonical_order cid records = sort_key fst (map (\<lambda>r. (cid (ic_coin r), r)) records)"

definition record_list :: "coin_namer \<Rightarrow> iface_record list quorum_comparable" where
  "record_list cid =
     \<lparr>quorum_eq = (\<lambda>a b. canonical_order cid a = canonical_order cid b),
      validate_bound = (\<lambda>a. if MAX_QUORUM_RECORDS < length a
        then Inl (CTooManyRecords (length a) MAX_QUORUM_RECORDS) else Inr ())\<rparr>"

section \<open>The views\<close>

type_synonym ('s, 'l, 'a) registry_query = "('s, 'l) chain_source \<Rightarrow> ('s, 'a) source_call"

text \<open>Both views walk the providers in order, keeping the last error; the discovery view also
  refuses an answer out of bounds.\<close>

fun first_accepted ::
  "('a \<Rightarrow> unit sourced) \<Rightarrow> ('s, 'l, 'a) registry_query \<Rightarrow> chain_source_error \<Rightarrow>
   ('s, 'l) registration list \<Rightarrow> ('s, 'a) source_call" where
  "first_accepted accept q last_error [] s = Some (Inl last_error, s)"
| "first_accepted accept q last_error (r # rs) s =
     (case q (pr_source (reg_provider r)) s of
        None \<Rightarrow> None
      | Some (Inl e, s') \<Rightarrow> first_accepted accept q e rs s'
      | Some (Inr v, s') \<Rightarrow>
          (case accept v of
             Inl e \<Rightarrow> first_accepted accept q e rs s'
           | Inr _ \<Rightarrow> Some (Inr v, s')))"

fun per_group ::
  "'a quorum_comparable \<Rightarrow> ('s, 'l, 'a) registry_query \<Rightarrow> ('s, 'l) registration list \<Rightarrow>
   (string \<times> 'a) list \<Rightarrow> 's \<Rightarrow> ((string \<times> 'a) list \<times> 's) option" where
  "per_group qc q [] answers s = Some (answers, s)"
| "per_group qc q (r # rs) answers s =
     (if reg_group r \<in> set (map fst answers) then per_group qc q rs answers s
      else case q (pr_source (reg_provider r)) s of
             None \<Rightarrow> None
           | Some (Inl _, s') \<Rightarrow> per_group qc q rs answers s'
           | Some (Inr a, s') \<Rightarrow>
               if is_err (validate_bound qc a) then per_group qc q rs answers s'
               else per_group qc q rs (answers @ [(reg_group r, a)]) s')"

definition agreeing :: "'a quorum_comparable \<Rightarrow> (string \<times> 'a) list \<Rightarrow> 'a \<Rightarrow> nat" where
  "agreeing qc answers candidate = length (filter (\<lambda>(_, a). quorum_eq qc a candidate) answers)"

definition quorum_read ::
  "'a quorum_comparable \<Rightarrow> nat \<Rightarrow> ('s, 'l, 'a) registry_query \<Rightarrow> ('s, 'l) registration list \<Rightarrow>
   ('s, 'a) source_call" where
  "quorum_read qc threshold q regs s =
     (case per_group qc q regs [] s of
        None \<Rightarrow> None
      | Some (answers, s') \<Rightarrow>
          (case List.find (\<lambda>candidate. threshold \<le> agreeing qc answers candidate) (map snd answers) of
             Some v \<Rightarrow> Some (Inr v, s')
           | None \<Rightarrow> Some (Inl CNoProvider, s')))"

definition custody_read ::
  "'a quorum_comparable \<Rightarrow> ('s, 'l) registry \<Rightarrow> ('s, 'l, 'a) registry_query \<Rightarrow> ('s, 'a) source_call" where
  "custody_read qc reg q s =
     (let trusted = filter (\<lambda>r. reg_trust r = Trusted) (by_priority reg)
      in if trusted \<noteq> [] then first_accepted (\<lambda>_. Inr ()) q CNoProvider trusted s
         else if \<not> allow_quorum reg then Some (Inl CNoProvider, s)
         else quorum_read qc PUBLIC_QUORUM_THRESHOLD q (providers reg) s)"

definition discovery_read ::
  "'a quorum_comparable \<Rightarrow> ('s, 'l) registry \<Rightarrow> ('s, 'l, 'a) registry_query \<Rightarrow> ('s, 'a) source_call" where
  "discovery_read qc reg q s = first_accepted (validate_bound qc) q CNoProvider (by_priority reg) s"

definition trusted_view :: "coin_namer \<Rightarrow> ('s, 'l) registry \<Rightarrow> ('s, 'l) chain_source" where
  "trusted_view cid reg =
     \<lparr>src_coin_record = (\<lambda>k. custody_read via_partial_eq reg (\<lambda>p. src_coin_record p k)),
      src_by_puzzle_hash = (\<lambda>ph spent_too. custody_read (record_list cid) reg (\<lambda>p. src_by_puzzle_hash p ph spent_too)),
      src_by_parent = (\<lambda>k. custody_read (record_list cid) reg (\<lambda>p. src_by_parent p k)),
      src_coin_spend = (\<lambda>k. custody_read via_partial_eq reg (\<lambda>p. src_coin_spend p k)),
      src_lineage = (\<lambda>k. custody_read via_partial_eq reg (\<lambda>p. src_lineage p k)),
      src_peak_height = custody_read via_partial_eq reg src_peak_height,
      src_block_timestamp = (\<lambda>h. custody_read via_partial_eq reg (\<lambda>p. src_block_timestamp p h))\<rparr>"

definition discovery_view :: "coin_namer \<Rightarrow> ('s, 'l) registry \<Rightarrow> ('s, 'l) chain_source" where
  "discovery_view cid reg =
     \<lparr>src_coin_record = (\<lambda>k. discovery_read via_partial_eq reg (\<lambda>p. src_coin_record p k)),
      src_by_puzzle_hash = (\<lambda>ph spent_too. discovery_read (record_list cid) reg (\<lambda>p. src_by_puzzle_hash p ph spent_too)),
      src_by_parent = (\<lambda>k. discovery_read (record_list cid) reg (\<lambda>p. src_by_parent p k)),
      src_coin_spend = (\<lambda>k. discovery_read via_partial_eq reg (\<lambda>p. src_coin_spend p k)),
      src_lineage = (\<lambda>k. discovery_read via_partial_eq reg (\<lambda>p. src_lineage p k)),
      src_peak_height = discovery_read via_partial_eq reg src_peak_height,
      src_block_timestamp = (\<lambda>h. discovery_read via_partial_eq reg (\<lambda>p. src_block_timestamp p h))\<rparr>"

section \<open>Who stands behind an answer\<close>

text \<open>The states a read passes through, and a registration's answer at one of them.\<close>

definition asks :: "('s, 'l, 'a) registry_query \<Rightarrow> ('s, 'l) registration list \<Rightarrow> 's \<Rightarrow> 's \<Rightarrow> bool" where
  "asks q regs = (\<lambda>a b. \<exists>r \<in> set regs. \<exists>x. q (pr_source (reg_provider r)) a = Some (x, b))\<^sup>*\<^sup>*"

definition answers_with ::
  "('s, 'l, 'a) registry_query \<Rightarrow> ('s, 'l) registration list \<Rightarrow> 's \<Rightarrow> 's \<Rightarrow> ('s, 'l) registration \<Rightarrow> 'a \<Rightarrow> bool" where
  "answers_with q regs s s' r v \<longleftrightarrow>
     r \<in> set regs \<and>
     (\<exists>s1 s2. asks q regs s s1 \<and> q (pr_source (reg_provider r)) s1 = Some (Inr v, s2) \<and> asks q regs s2 s')"

lemma asks_refl [simp]: "asks q regs s s"
  by (simp add: asks_def)

lemma asks_step:
  "r \<in> set regs \<Longrightarrow> q (pr_source (reg_provider r)) s = Some (x, s1) \<Longrightarrow> asks q regs s s1"
  by (auto simp: asks_def)

lemma asks_trans: "asks q regs s s1 \<Longrightarrow> asks q regs s1 s2 \<Longrightarrow> asks q regs s s2"
  by (auto simp: asks_def)

lemma answers_with_later: "asks q regs s s1 \<Longrightarrow> answers_with q regs s1 s' r v \<Longrightarrow> answers_with q regs s s' r v"
  unfolding answers_with_def using asks_trans by metis

lemma first_accepted_answers:
  assumes "first_accepted accept q e rs s = Some (Inr v, s')" "set rs \<subseteq> set regs"
  shows "\<exists>r \<in> set rs. answers_with q regs s s' r v \<and> accept v = Inr ()"
  using assms
proof (induction rs arbitrary: e s)
  case (Cons r rs)
  then obtain x s1 where x: "q (pr_source (reg_provider r)) s = Some (x, s1)"
    by (auto split: option.splits)
  have step: "asks q regs s s1" using Cons.prems(2) x by (auto intro: asks_step)
  show ?case
  proof (cases "\<exists>w. x = Inr w \<and> accept w = Inr ()")
    case True
    with Cons.prems(1) x have "x = Inr v" "s' = s1" "accept v = Inr ()" by auto
    moreover from this x Cons.prems(2) have "answers_with q regs s s' r v"
      unfolding answers_with_def by (auto intro: asks_refl)
    ultimately show ?thesis by auto
  next
    case False
    with Cons.prems(1) x obtain e' where "first_accepted accept q e' rs s1 = Some (Inr v, s')"
      by (auto split: sum.splits)
    from Cons.IH [OF this] Cons.prems(2) obtain r' where
      "r' \<in> set rs" "answers_with q regs s1 s' r' v" "accept v = Inr ()" by auto
    then show ?thesis using answers_with_later [OF step] by auto
  qed
qed simp

lemma per_group_answers:
  assumes "per_group qc q rs acc s = Some (answers, s')" "set rs \<subseteq> set regs"
  shows "asks q regs s s' \<and> (distinct (map fst acc) \<longrightarrow> distinct (map fst answers)) \<and>
    (\<forall>(g, a) \<in> set answers. (g, a) \<in> set acc \<or>
       (\<exists>r \<in> set rs. reg_group r = g \<and> \<not> is_err (validate_bound qc a) \<and> answers_with q regs s s' r a))"
  using assms
proof (induction rs arbitrary: acc s)
  case (Cons r rs)
  have sub: "set rs \<subseteq> set regs" "r \<in> set regs" using Cons.prems(2) by auto
  show ?case
  proof (cases "reg_group r \<in> set (map fst acc)")
    case True
    with Cons.prems(1) have "per_group qc q rs acc s = Some (answers, s')" by simp
    from Cons.IH [OF this sub(1)] show ?thesis by (auto split: prod.splits)
  next
    case False
    with Cons.prems(1) obtain x s1 where x: "q (pr_source (reg_provider r)) s = Some (x, s1)"
      by (auto split: option.splits)
    have step: "asks q regs s s1" using sub(2) x by (rule asks_step)
    show ?thesis
    proof (cases "\<exists>a. x = Inr a \<and> \<not> is_err (validate_bound qc a)")
      case True
      then obtain a where a: "x = Inr a" "\<not> is_err (validate_bound qc a)" by auto
      with Cons.prems(1) x False
      have "per_group qc q rs (acc @ [(reg_group r, a)]) s1 = Some (answers, s')" by simp
      note IH = Cons.IH [OF this sub(1)]
      have mine: "answers_with q regs s s' r a"
        using sub(2) x a IH unfolding answers_with_def by (auto intro: asks_refl)
      from IH step mine a False show ?thesis
        by (auto intro: asks_trans split: prod.splits) (metis answers_with_later)+
    next
      case other: False
      with Cons.prems(1) x False have "per_group qc q rs acc s1 = Some (answers, s')"
        by (cases x) auto
      from Cons.IH [OF this sub(1)] step show ?thesis
        by (auto intro: asks_trans split: prod.splits) (metis answers_with_later)+
    qed
  qed
qed simp

lemma agreeing_two:
  assumes "2 \<le> agreeing qc answers v" "distinct (map fst answers)"
  obtains g1 a1 g2 a2 where "(g1, a1) \<in> set answers" "(g2, a2) \<in> set answers" "g1 \<noteq> g2"
    "quorum_eq qc a1 v" "quorum_eq qc a2 v"
proof -
  let ?votes = "filter (\<lambda>(_, a). quorum_eq qc a v) answers"
  have "2 \<le> length ?votes" using assms(1) by (simp add: agreeing_def)
  then obtain x y zs where votes: "?votes = x # y # zs"
    by (metis One_nat_def Suc_1 Suc_le_length_iff)
  have "distinct (map fst ?votes)" using assms(2) by (rule distinct_map_filter)
  then have "fst x \<noteq> fst y" using votes by simp
  moreover have "x \<in> set ?votes" "y \<in> set ?votes" using votes by simp_all
  ultimately show thesis using that by (cases x; cases y) fastforce
qed

lemma quorum_read_Inr:
  "quorum_read qc n q regs s = Some (Inr v, s') \<longleftrightarrow>
     (\<exists>answers. per_group qc q regs [] s = Some (answers, s') \<and>
        List.find (\<lambda>c. n \<le> agreeing qc answers c) (map snd answers) = Some v)"
  by (auto simp: quorum_read_def split: option.splits)

lemma per_group_member:
  assumes "per_group qc q regs [] s = Some (answers, s')"
  shows "distinct (map fst answers)"
    and "(g, a) \<in> set answers \<Longrightarrow>
      \<exists>r. reg_group r = g \<and> \<not> is_err (validate_bound qc a) \<and> answers_with q regs s s' r a"
  using per_group_answers [OF assms subset_refl] by auto

text \<open>C34: A custody answer is vouched for. Whenever the custody view returns a value, either a source
  the operator trusts gave it during the read, or no source is trusted, the operator opted in, and
  two registrations of different independence groups, each asked during the read, gave answers
  within the size bound that both agree with it. Nothing else satisfies a custody read.\<close>

theorem custody_is_vouched:
  assumes "custody_read qc reg q s = Some (Inr v, s')"
  shows "(\<exists>r. reg_trust r = Trusted \<and> answers_with q (providers reg) s s' r v) \<or>
    (\<forall>r \<in> set (providers reg). reg_trust r = Untrusted) \<and> allow_quorum reg \<and>
    (\<exists>r1 r2 v1 v2. reg_group r1 \<noteq> reg_group r2 \<and>
       answers_with q (providers reg) s s' r1 v1 \<and> answers_with q (providers reg) s s' r2 v2 \<and>
       \<not> is_err (validate_bound qc v1) \<and> \<not> is_err (validate_bound qc v2) \<and>
       quorum_eq qc v1 v \<and> quorum_eq qc v2 v)"
proof (cases "filter (\<lambda>r. reg_trust r = Trusted) (by_priority reg) = []")
  case False
  then have "first_accepted (\<lambda>_. Inr ()) q CNoProvider (filter (\<lambda>r. reg_trust r = Trusted) (by_priority reg)) s
      = Some (Inr v, s')"
    using assms by (simp add: custody_read_def Let_def)
  from first_accepted_answers [OF this, of "providers reg"] show ?thesis
    by (auto simp: by_priority_def)
next
  case True
  then have untrusted: "\<forall>r \<in> set (providers reg). reg_trust r = Untrusted"
    by (auto simp: filter_empty_conv by_priority_def) (metis trust_level.exhaust)
  have opted: "allow_quorum reg" and quorum: "quorum_read qc 2 q (providers reg) s = Some (Inr v, s')"
    using assms True by (auto simp: custody_read_def PUBLIC_QUORUM_THRESHOLD_def split: if_splits)
  then obtain answers where run: "per_group qc q (providers reg) [] s = Some (answers, s')"
    and "List.find (\<lambda>c. 2 \<le> agreeing qc answers c) (map snd answers) = Some v"
    by (auto simp: quorum_read_Inr)
  then have "2 \<le> agreeing qc answers v" by (auto simp: find_Some_iff)
  then obtain g1 a1 g2 a2 where
    two: "(g1, a1) \<in> set answers" "(g2, a2) \<in> set answers" "g1 \<noteq> g2" "quorum_eq qc a1 v" "quorum_eq qc a2 v"
    using per_group_member(1) [OF run] by (rule agreeing_two)
  obtain r1 where r1: "reg_group r1 = g1" "\<not> is_err (validate_bound qc a1)" "answers_with q (providers reg) s s' r1 a1"
    using per_group_member(2) [OF run two(1)] by auto
  obtain r2 where r2: "reg_group r2 = g2" "\<not> is_err (validate_bound qc a2)" "answers_with q (providers reg) s s' r2 a2"
    using per_group_member(2) [OF run two(2)] by auto
  have "reg_group r1 \<noteq> reg_group r2" using r1(1) r2(1) two(3) by simp
  with r1(2,3) r2(2,3) two(4,5) untrusted opted show ?thesis
    by (intro disjI2 conjI exI [of _ r1] exI [of _ r2] exI [of _ a1] exI [of _ a2])
qed

text \<open>Without a trusted source or the opt-in, nothing is asked; with a trusted one, no other is.\<close>

lemma custody_fails_closed:
  assumes "\<forall>r \<in> set (providers reg). reg_trust r = Untrusted" "\<not> allow_quorum reg"
  shows "custody_read qc reg q s = Some (Inl CNoProvider, s)"
  using assms by (auto simp: custody_read_def Let_def by_priority_def filter_empty_conv)

lemma first_accepted_asks:
  "first_accepted accept q e rs s = Some (x, s') \<Longrightarrow> asks q rs s s'"
proof (induction rs arbitrary: e s)
  case (Cons r rs)
  then obtain y s1 where y: "q (pr_source (reg_provider r)) s = Some (y, s1)"
    by (auto split: option.splits)
  have sub: "asks q rs a b \<Longrightarrow> asks q (r # rs) a b" for a b
    unfolding asks_def by (rule rtranclp_mono [THEN predicate2D, rotated]) auto
  from y have "asks q (r # rs) s s1" by (auto intro: asks_step)
  with Cons y show ?case by (auto split: sum.splits) (blast intro: asks_trans sub)+
qed simp

lemma trusted_only:
  assumes "\<exists>r \<in> set (providers reg). reg_trust r = Trusted" "custody_read qc reg q s = Some (x, s')"
  shows "asks q (filter (\<lambda>r. reg_trust r = Trusted) (by_priority reg)) s s'"
  using assms first_accepted_asks by (auto simp: custody_read_def Let_def by_priority_def filter_empty_conv
    split: if_splits)

section \<open>What a quorum computes\<close>

text \<open>The specification: a group's vote is the first answer within bounds of its registrations, and
  the voters for a value are the groups whose vote agrees with it.\<close>

definition votes ::
  "'a quorum_comparable \<Rightarrow> (('s, 'l) registration \<Rightarrow> 'a sourced) \<Rightarrow> ('s, 'l) registration list \<Rightarrow> string \<Rightarrow> 'a option" where
  "votes qc ans regs g =
     (case List.find (\<lambda>r. reg_group r = g \<and> (case ans r of Inl _ \<Rightarrow> False | Inr a \<Rightarrow> \<not> is_err (validate_bound qc a))) regs of
        None \<Rightarrow> None
      | Some r \<Rightarrow> (case ans r of Inl _ \<Rightarrow> None | Inr a \<Rightarrow> Some a))"

definition voters :: "'a quorum_comparable \<Rightarrow> (string \<Rightarrow> 'a option) \<Rightarrow> 'a \<Rightarrow> string set" where
  "voters qc vote v = {g. \<exists>a. vote g = Some a \<and> quorum_eq qc a v}"

lemma per_group_votes:
  assumes "\<And>r. r \<in> set rs \<Longrightarrow> q (pr_source (reg_provider r)) s = Some (ans r, s)"
    "distinct (map fst acc)"
  shows "\<exists>answers. per_group qc q rs acc s = Some (answers, s) \<and> distinct (map fst answers) \<and>
    (\<forall>g. map_of answers g = (case map_of acc g of Some a \<Rightarrow> Some a | None \<Rightarrow> votes qc ans rs g))"
  using assms
proof (induction rs arbitrary: acc)
  case Nil
  then show ?case by (auto simp: votes_def split: option.split)
next
  case (Cons r rs)
  have here: "q (pr_source (reg_provider r)) s = Some (ans r, s)" using Cons.prems(1) by simp
  have IH: "distinct (map fst acc') \<Longrightarrow> \<exists>answers. per_group qc q rs acc' s = Some (answers, s) \<and>
      distinct (map fst answers) \<and>
      (\<forall>g. map_of answers g = (case map_of acc' g of Some a \<Rightarrow> Some a | None \<Rightarrow> votes qc ans rs g))" for acc'
    by (rule Cons.IH) (use Cons.prems(1) in auto)
  show ?case
  proof (cases "reg_group r \<in> set (map fst acc) \<or> (case ans r of Inl _ \<Rightarrow> True | Inr a \<Rightarrow> is_err (validate_bound qc a))")
    case True
    then have run: "per_group qc q (r # rs) acc s = per_group qc q rs acc s"
      by (auto simp: here split: sum.split)
    have same: "votes qc ans (r # rs) g = votes qc ans rs g" if "map_of acc g = None" for g
      using True that by (auto simp: votes_def map_of_eq_None_iff split: sum.splits)
    then have same': "(case map_of acc g of Some a \<Rightarrow> Some a | None \<Rightarrow> votes qc ans (r # rs) g) =
        (case map_of acc g of Some a \<Rightarrow> Some a | None \<Rightarrow> votes qc ans rs g)" for g
      by (simp split: option.split)
    show ?thesis using IH [OF Cons.prems(2)] unfolding run same' .
  next
    case False
    then obtain a where a: "ans r = Inr a" "\<not> is_err (validate_bound qc a)" "reg_group r \<notin> fst ` set acc"
      by (auto split: sum.splits)
    have "distinct (map fst (acc @ [(reg_group r, a)]))" using Cons.prems(2) a(3) by auto
    from IH [OF this] obtain answers where
      "per_group qc q rs (acc @ [(reg_group r, a)]) s = Some (answers, s)" "distinct (map fst answers)"
      and all: "\<And>g. map_of answers g =
        (case map_of (acc @ [(reg_group r, a)]) g of Some a \<Rightarrow> Some a | None \<Rightarrow> votes qc ans rs g)"
      by blast
    moreover have "map_of answers g = (case map_of acc g of Some a \<Rightarrow> Some a | None \<Rightarrow> votes qc ans (r # rs) g)" for g
      unfolding all using a by (auto simp: votes_def map_add_def split: option.splits)
    ultimately show ?thesis using a by (simp add: here)
  qed
qed

lemma agreeing_voters:
  assumes "distinct (map fst answers)"
  shows "agreeing qc answers v = card (voters qc (map_of answers) v)"
proof -
  let ?votes = "filter (\<lambda>(_, a). quorum_eq qc a v) answers"
  have "distinct (map fst ?votes)" using assms by (rule distinct_map_filter)
  then have "agreeing qc answers v = card (set (map fst ?votes))"
    by (metis agreeing_def distinct_card length_map)
  also have "set (map fst ?votes) = voters qc (map_of answers) v"
    using assms by (auto simp: voters_def image_iff split_def)
  finally show ?thesis .
qed

lemma quorum_read_votes:
  assumes "\<And>r. r \<in> set regs \<Longrightarrow> q (pr_source (reg_provider r)) s = Some (ans r, s)"
  shows "case quorum_read qc n q regs s of
      Some (Inr v, t) \<Rightarrow> t = s \<and> v \<in> ran (votes qc ans regs) \<and> n \<le> card (voters qc (votes qc ans regs) v)
    | Some (Inl e, t) \<Rightarrow> t = s \<and> e = CNoProvider \<and>
        (\<forall>v \<in> ran (votes qc ans regs). card (voters qc (votes qc ans regs) v) < n)
    | None \<Rightarrow> False"
proof -
  obtain answers where run: "per_group qc q regs [] s = Some (answers, s)" and d: "distinct (map fst answers)"
    and m: "map_of answers = votes qc ans regs"
    using per_group_votes [of regs q s ans "[]" qc, OF assms] by fastforce
  have ran: "v \<in> ran (votes qc ans regs) \<longleftrightarrow> v \<in> snd ` set answers" for v
    using d by (simp add: m [symmetric] ran_distinct)
  show ?thesis
  proof (cases "List.find (\<lambda>c. n \<le> agreeing qc answers c) (map snd answers)")
    case None
    then have "\<forall>v \<in> snd ` set answers. card (voters qc (votes qc ans regs) v) < n"
      using d by (auto simp: find_None_iff agreeing_voters m not_le)
    then have "\<forall>v \<in> ran (votes qc ans regs). card (voters qc (votes qc ans regs) v) < n"
      by (simp only: ran Ball_def)
    then show ?thesis using None run by (simp add: quorum_read_def)
  next
    case (Some v)
    then have "v \<in> snd ` set answers" "n \<le> agreeing qc answers v"
      by (auto simp: find_Some_iff)
    then show ?thesis using run d Some by (simp add: quorum_read_def ran agreeing_voters m)
  qed
qed

text \<open>The laws of a comparison, and what they give a quorum: when at most three groups vote, two
  values with two voters each agree, so the order of registration cannot decide between them.\<close>

locale comparable_laws =
  fixes qc :: "'a quorum_comparable"
  assumes eq_refl: "quorum_eq qc a a"
    and eq_sym: "quorum_eq qc a b \<Longrightarrow> quorum_eq qc b a"
    and eq_trans: "quorum_eq qc a b \<Longrightarrow> quorum_eq qc b c \<Longrightarrow> quorum_eq qc a c"
begin

lemma one_winner:
  assumes "finite (dom vote)" "card (dom vote) \<le> 3"
    "2 \<le> card (voters qc vote v)" "2 \<le> card (voters qc vote w)"
  shows "quorum_eq qc v w"
proof -
  have "voters qc vote v \<union> voters qc vote w \<subseteq> dom vote" by (auto simp: voters_def)
  then have "card (voters qc vote v \<union> voters qc vote w) \<le> 3"
    using assms(1,2) card_mono le_trans by blast
  moreover have "finite (voters qc vote u)" for u
    using assms(1) by (rule rev_finite_subset) (auto simp: voters_def)
  ultimately have "voters qc vote v \<inter> voters qc vote w \<noteq> {}"
    using assms(3,4) card_Un_disjoint [of "voters qc vote v" "voters qc vote w"] by auto
  then obtain a where "quorum_eq qc a v" "quorum_eq qc a w" by (auto simp: voters_def)
  then show ?thesis using eq_sym eq_trans by blast
qed

end

interpretation plain: comparable_laws via_partial_eq
  by unfold_locales (auto simp: via_partial_eq_def)

interpretation lists: comparable_laws "record_list cid" for cid
  by unfold_locales (auto simp: record_list_def)

lemma finite_votes: "finite (dom (votes qc ans regs))"
proof (rule finite_subset)
  show "dom (votes qc ans regs) \<subseteq> reg_group ` set regs"
    by (auto simp: votes_def find_Some_iff split: option.splits)
qed simp

text \<open>C35: A quorum implements the vote. Where each registration's answer during the read is fixed, a
  quorum read of a list returns a value that at least the threshold of groups voted for, a group's
  vote being the first answer within bounds of its registrations; it fails with \<open>NoProvider\<close>
  exactly when no vote has that many voters; and with a threshold of two and at most three groups
  voting, any other value with two voters is the same list.\<close>

theorem quorum_implements_vote:
  assumes "\<And>r. r \<in> set regs \<Longrightarrow> q (pr_source (reg_provider r)) s = Some (ans r, s)"
  shows "case quorum_read (record_list cid) n q regs s of
      None \<Rightarrow> False
    | Some (Inl e, t) \<Rightarrow> t = s \<and> e = CNoProvider \<and>
        (\<forall>v \<in> ran (votes (record_list cid) ans regs).
           card (voters (record_list cid) (votes (record_list cid) ans regs) v) < n)
    | Some (Inr v, t) \<Rightarrow> t = s \<and> v \<in> ran (votes (record_list cid) ans regs) \<and>
        n \<le> card (voters (record_list cid) (votes (record_list cid) ans regs) v) \<and>
        (n = 2 \<and> card (dom (votes (record_list cid) ans regs)) \<le> 3 \<longrightarrow>
          (\<forall>w. 2 \<le> card (voters (record_list cid) (votes (record_list cid) ans regs) w) \<longrightarrow>
             quorum_eq (record_list cid) v w))"
proof -
  note spec = quorum_read_votes [where qc = "record_list cid" and n = n and q = q and regs = regs and s = s
      and ans = ans, OF assms]
  show ?thesis
  proof (cases "quorum_read (record_list cid) n q regs s")
    case None
    with spec show ?thesis by simp
  next
    case (Some rt)
    obtain r t where rt: "rt = (r, t)" by fastforce
    show ?thesis
    proof (cases r)
      case (Inl e)
      with spec Some rt show ?thesis by simp
    next
      case (Inr v)
      with spec Some rt show ?thesis
        using lists.one_winner [where cid = cid and vote = "votes (record_list cid) ans regs" and v = v,
            OF finite_votes] by simp
    qed
  qed
qed

text \<open>Agreement on a list is agreement on the records it holds. Two lists that a quorum finds
  equal hold the same records as often; and two that hold the same records, each coin at most once,
  are found equal in whatever order they come.\<close>

theorem list_agreement_is_of_records:
  "(quorum_eq (record_list cid) a b \<longrightarrow> mset a = mset b) \<and>
   (distinct (map (\<lambda>r. cid (ic_coin r)) a) \<longrightarrow> mset a = mset b \<longrightarrow> quorum_eq (record_list cid) a b)"
proof (intro conjI impI)
  have snd_keyed: "image_mset snd (mset (canonical_order cid x)) = mset x" for x
    by (simp add: canonical_order_def multiset.map_comp comp_def)
  show "mset a = mset b" if "quorum_eq (record_list cid) a b"
    using that snd_keyed [of a] snd_keyed [of b] by (simp add: record_list_def)
  show "quorum_eq (record_list cid) a b" if "distinct (map (\<lambda>r. cid (ic_coin r)) a)" "mset a = mset b"
  proof -
    let ?k = "\<lambda>x. map (\<lambda>r. (cid (ic_coin r), r)) x"
    have "mset (?k a) = mset (?k b)" using that(2) by (simp add: mset_map)
    moreover have "inj_on fst (set (?k a))"
      using that(1) by (auto simp: inj_on_def distinct_map)
    ultimately have "sort_key fst (?k a) = sort_key fst (?k b)"
      by (intro sort_key_inj_key_eq) simp_all
    then show ?thesis by (simp add: record_list_def canonical_order_def)
  qed
qed

section \<open>Sources that answer from a table\<close>

definition fixed_source :: "iface_record list \<Rightarrow> (unit, nat) chain_source" where
  "fixed_source rs =
     \<lparr>src_coin_record = (\<lambda>_. src_ret (Inr (case rs of [] \<Rightarrow> None | r # _ \<Rightarrow> Some r))),
      src_by_puzzle_hash = (\<lambda>_ _. src_ret (Inr rs)), src_by_parent = (\<lambda>_. src_ret (Inr rs)),
      src_coin_spend = (\<lambda>_. src_ret (Inr None)), src_lineage = (\<lambda>_. src_ret (Inr None)),
      src_peak_height = src_ret (Inr None), src_block_timestamp = (\<lambda>_. src_ret (Inr None))\<rparr>"

definition public_quorum :: "(string \<times> iface_record list) list \<Rightarrow> (unit, nat) registry" where
  "public_quorum tables =
     fold (\<lambda>(grp, rs). register (custom_provider grp 10 (fixed_source rs)) None grp) tables
       (allow_public_quorum_custody True registry_new)"

lemma public_quorum_read:
  "providers (public_quorum tables) =
     map (\<lambda>(grp, rs). \<lparr>reg_provider = custom_provider grp 10 (fixed_source rs), reg_trust = Untrusted,
       reg_group = grp\<rparr>) tables"
  "allow_quorum (public_quorum tables)"
proof -
  have "providers (fold (\<lambda>(grp, rs). register (custom_provider grp 10 (fixed_source rs)) None grp) tables reg) =
      providers reg @ map (\<lambda>(grp, rs). \<lparr>reg_provider = custom_provider grp 10 (fixed_source rs),
        reg_trust = Untrusted, reg_group = grp\<rparr>) tables \<and>
    allow_quorum (fold (\<lambda>(grp, rs). register (custom_provider grp 10 (fixed_source rs)) None grp) tables reg) =
      allow_quorum reg" for reg
    by (induction tables arbitrary: reg) (simp_all add: register_def custom_provider_def kinded_provider_def split_def)
  then show
    "providers (public_quorum tables) =
       map (\<lambda>(grp, rs). \<lparr>reg_provider = custom_provider grp 10 (fixed_source rs), reg_trust = Untrusted,
         reg_group = grp\<rparr>) tables"
    "allow_quorum (public_quorum tables)"
    by (simp_all add: public_quorum_def registry_new_def allow_public_quorum_custody_def)
qed

definition table_record :: "u8 \<Rightarrow> u64 option \<Rightarrow> iface_record" where
  "table_record tag t =
     \<lparr>ic_coin = \<lparr>pc_parent_coin_info = [tag], pc_puzzle_hash = [0], pc_amount = 1\<rparr>,
      confirmed_height = Some 100, ic_spent_height = None, ic_timestamp = t, ic_coinbase = False\<rparr>"

lemma custody_public:
  "custody_read qc (public_quorum tables) q s = quorum_read qc 2 q (providers (public_quorum tables)) s"
  by (auto simp: custody_read_def Let_def public_quorum_read PUBLIC_QUORUM_THRESHOLD_def by_priority_def
      filter_empty_conv)

lemma two_mirrors_agree:
  "custody_read via_partial_eq
     (public_quorum [(''coinset.org'', [table_record 1 (Some 7)]), (''mirror'', [table_record 1 (Some 7)])])
     (\<lambda>p. src_coin_record p [1]) () = Some (Inr (Some (table_record 1 (Some 7))), ())"
  by (simp add: custody_public) (simp add: public_quorum_read quorum_read_def agreeing_def via_partial_eq_def is_err_def
      custom_provider_def kinded_provider_def fixed_source_def src_ret_def)

lemma custody_witness:
  "\<exists>r1 r2. reg_group r1 \<noteq> reg_group r2 \<and>
     r1 \<in> set (providers (public_quorum [(''coinset.org'', [table_record 1 (Some 7)]), (''mirror'', [table_record 1 (Some 7)])])) \<and>
     r2 \<in> set (providers (public_quorum [(''coinset.org'', [table_record 1 (Some 7)]), (''mirror'', [table_record 1 (Some 7)])]))"
  using custody_is_vouched [OF two_mirrors_agree] by (auto simp: answers_with_def public_quorum_read)

lemma fixed_answers:
  "r \<in> set (providers (public_quorum tables)) \<Longrightarrow>
     \<exists>rs. (reg_group r, rs) \<in> set tables \<and> pr_source (reg_provider r) = fixed_source rs"
  by (auto simp: public_quorum_read custom_provider_def kinded_provider_def)

definition two_coins :: "iface_record list" where
  "two_coins = [table_record 1 None, table_record 2 None]"

definition shuffled :: "(unit, nat) registry" where
  "shuffled = public_quorum [(''coinset.org'', two_coins), (''mirror'', rev two_coins)]"

definition listed :: "(unit, nat) registration \<Rightarrow> iface_record list sourced" where
  "listed r = (case src_by_parent (pr_source (reg_provider r)) [1] () of Some (x, _) \<Rightarrow> x | None \<Rightarrow> Inl CTimeout)"

lemma listed_fixed:
  assumes "r \<in> set (providers shuffled)"
  shows "src_by_parent (pr_source (reg_provider r)) [1] () = Some (listed r, ())"
  using fixed_answers [OF assms [unfolded shuffled_def]] by (auto simp: listed_def fixed_source_def src_ret_def)

lemma list_agreement_witness: "quorum_eq (record_list named) two_coins (rev two_coins)"
  using list_agreement_is_of_records [of named two_coins "rev two_coins"]
  by (simp add: two_coins_def table_record_def named_def)

lemma record_list_eq: "quorum_eq (record_list cid) a b \<longleftrightarrow> canonical_order cid a = canonical_order cid b"
  by (simp add: record_list_def)

lemma shuffled_votes:
  "votes (record_list named) listed (providers shuffled) =
     [''coinset.org'' \<mapsto> two_coins, ''mirror'' \<mapsto> rev two_coins]"
  by (rule ext) (simp add: votes_def shuffled_def public_quorum_read listed_def custom_provider_def
      kinded_provider_def fixed_source_def src_ret_def record_list_def two_coins_def is_err_def MAX_QUORUM_RECORDS_def)

lemma quorum_witness:
  "\<exists>v. quorum_read (record_list named) 2 (\<lambda>p. src_by_parent p [1]) (providers shuffled) () = Some (Inr v, ())"
proof -
  have same: "canonical_order named two_coins = canonical_order named (rev two_coins)"
    by (simp add: canonical_order_def two_coins_def table_record_def named_def)
  have voters: "voters (record_list named) (votes (record_list named) listed (providers shuffled)) two_coins
      = {''coinset.org'', ''mirror''}"
    by (auto simp: voters_def shuffled_votes record_list_eq same split: if_splits)
  have "two_coins \<in> ran (votes (record_list named) listed (providers shuffled))"
    by (simp add: shuffled_votes ran_def) (metis (full_types))
  with quorum_implements_vote [where q = "\<lambda>p. src_by_parent p [1]" and s = "()" and ans = listed
      and cid = named and n = 2 and regs = "providers shuffled", OF listed_fixed]
  show ?thesis
    by (auto simp: voters split: option.splits prod.splits sum.splits)
qed

section \<open>What the quorum's comparison costs\<close>

text \<open>So its source has none to give, and two sources whose records differ leave the quorum without an
  answer.\<close>

lemma peer_source_has_no_timestamp:
  assumes "cqp_independence_group p = CHIA_PEERS_INDEPENDENCE_GROUP"
    and "src_coin_record (chia_query_source hx walk p) k s = Some (Inr (Some r), s')"
  shows "ic_timestamp r = None"
proof -
  obtain z where read: "q_get_coin_record_by_name_opt (cqp_inner p) (bytes32_to_hex hx k) s = Some (Inr (Some z), s')"
    and r: "coin_record_from_chq hx z = Inr r"
    using assms(2) by (auto simp: chia_query_source_def cqp_coin_record_def with_result_Inr asking_Inr transpose_opt_Some)
  have "cr_timestamp z = 0"
    using assms(1) read by (intro peer_record_has_no_timestamp) (simp_all add: cqp_independence_group_def)
  with r show ?thesis
    by (auto simp: coin_record_from_chq_def rbind_def none_if_zero_def split: sum.splits)
qed

lemma two_records_disagree:
  assumes "providers reg = [a, b]" "reg_trust a = Untrusted" "reg_trust b = Untrusted"
    and "src_coin_record (pr_source (reg_provider a)) k s = Some (Inr (Some ra), s1)"
    and "src_coin_record (pr_source (reg_provider b)) k s1 = Some (Inr (Some rb), s2)"
    and "ra \<noteq> rb" "reg_group a \<noteq> reg_group b" "allow_quorum reg"
  shows "src_coin_record (trusted_view cid reg) k s = Some (Inl CNoProvider, s2)"
  using assms by (simp add: trusted_view_def custody_read_def by_priority_def Let_def PUBLIC_QUORUM_THRESHOLD_def
        quorum_read_def agreeing_def via_partial_eq_def is_err_def)

text \<open>C36: A client without the fallback and coinset never agree that a coin exists. A record a peer
  reported carries no timestamp, coinset's carries the one of its block, and the quorum compares
  whole records: with the two sources registered, each under its own group and neither trusted, a
  custody read of a coin both report fails with \<open>NoProvider\<close>, whatever they report of it.\<close>

theorem peers_and_coinset_never_agree:
  assumes "providers reg = [a, b]" "reg_trust a = Untrusted" "reg_trust b = Untrusted" "allow_quorum reg"
    and "pr_source (reg_provider a) = chia_query_source hx walk p" "reg_group a = cqp_independence_group p"
    and "pr_source (reg_provider b) = coinset_source hy c" "reg_group b = COINSET_INDEPENDENCE_GROUP"
    and "reg_group a = CHIA_PEERS_INDEPENDENCE_GROUP"
    and "src_coin_record (pr_source (reg_provider a)) k s = Some (Inr (Some ra), s1)"
    and "src_coin_record (pr_source (reg_provider b)) k s1 = Some (Inr (Some rb), s2)" "ic_timestamp rb \<noteq> None"
  shows "src_coin_record (trusted_view cid reg) k s = Some (Inl CNoProvider, s2)"
proof -
  have "ic_timestamp ra = None"
    using assms(6,9,10) unfolding assms(5) by (intro peer_source_has_no_timestamp) simp_all
  with assms(12) have "ra \<noteq> rb" by auto
  moreover have "reg_group a \<noteq> reg_group b"
    unfolding assms(8,9) by (simp add: CHIA_PEERS_INDEPENDENCE_GROUP_def COINSET_INDEPENDENCE_GROUP_def)
  ultimately show ?thesis
    by (rule two_records_disagree [OF assms(1-3,10,11) _ _ assms(4)])
qed

text \<open>With four groups split two against two, the pair registered first is believed.\<close>

lemma split_quorum_answers:
  assumes "x \<noteq> y"
  shows "src_coin_record (trusted_view cid (public_quorum
      [(''a'', [x]), (''b'', [y]), (''c'', [x]), (''d'', [y])])) k () = Some (Inr (Some x), ())"
  using assms by (simp add: trusted_view_def custody_public public_quorum_read quorum_read_def agreeing_def
      via_partial_eq_def is_err_def custom_provider_def kinded_provider_def fixed_source_def src_ret_def)

text \<open>Two records of one coin make the order of a list matter again.\<close>

lemma one_coin_twice_disagrees:
  "\<not> quorum_eq (record_list named) [table_record 1 None, table_record 1 (Some 7)]
       [table_record 1 (Some 7), table_record 1 None]"
  by (simp add: record_list_def canonical_order_def table_record_def named_def)

text \<open>Two public sources over one world: the client whose peers answer, and coinset serving the same
  coin with its block's timestamp.\<close>

definition peers_provider :: "(nat, ctree, nat) chia_query_provider" where
  "peers_provider =
     \<lparr>cqp_inner = timed_client, cqp_ambient = NoRuntime,
      cqp_info = \<lparr>pi_id = ''chia-peers'', pi_kind = DigPeers, pi_priority = 10, trustless = False\<rparr>\<rparr>"

definition serving_coinset :: "(nat, nat) world coinset_chain_source" where
  "serving_coinset =
     \<lparr>ccs_client = \<lparr>transport_post = (\<lambda>_ _. ret (Inr (JObject [(''coin_record'', JBool True), (''success'', JBool True)]))),
        base_url = DEFAULT_COINSET_URL\<rparr>,
      ccs_serde = example_serde\<lparr>de_coin_record := \<lambda>_. Inr (wire_record\<lparr>cr_timestamp := 1700000000\<rparr>)\<rparr>,
      ccs_ambient = NoRuntime\<rparr>"

definition no_lineage :: "((nat, nat) world, nat) lineage_walk" where
  "no_lineage = (\<lambda>_ _ _. src_ret (Inr None))"

definition peers_and_coinset :: "((nat, nat) world, nat) registry" where
  "peers_and_coinset =
     register (coinset_provider ''coinset.org'' COINSET_PROVIDER_PRIORITY (coinset_source example_codec serving_coinset))
         None COINSET_INDEPENDENCE_GROUP
       (register (dig_peers_provider ''chia-peers'' 10 (chia_query_source example_codec no_lineage peers_provider))
         None (cqp_independence_group peers_provider)
       (allow_public_quorum_custody True registry_new))"

lemma peers_and_coinset_read:
  "providers peers_and_coinset =
     [\<lparr>reg_provider = dig_peers_provider ''chia-peers'' 10 (chia_query_source example_codec no_lineage peers_provider),
       reg_trust = Untrusted, reg_group = cqp_independence_group peers_provider\<rparr>,
      \<lparr>reg_provider = coinset_provider ''coinset.org'' COINSET_PROVIDER_PRIORITY
         (coinset_source example_codec serving_coinset),
       reg_trust = Untrusted, reg_group = COINSET_INDEPENDENCE_GROUP\<rparr>]"
  "allow_quorum peers_and_coinset"
  by (simp_all add: peers_and_coinset_def register_def registry_new_def allow_public_quorum_custody_def
      kinded_provider_def dig_peers_provider_def coinset_provider_def)

lemma wire_record_converts:
  "coin_record_from_chq example_codec (wire_record\<lparr>cr_timestamp := t\<rparr>) =
     Inr \<lparr>ic_coin = \<lparr>pc_parent_coin_info = replicate 32 2, pc_puzzle_hash = replicate 32 7, pc_amount = 1\<rparr>,
       confirmed_height = Some 3, ic_spent_height = Some 9, ic_timestamp = none_if_zero t, ic_coinbase = False\<rparr>"
proof -
  let ?st = "\<lparr>cst_coin = \<lparr>pc_parent_coin_info = replicate 32 2, pc_puzzle_hash = replicate 32 7, pc_amount = 1\<rparr>,
      spent_height = Some 9, created_height = Some 3\<rparr>"
  have "coin_record_from_chq hx (r\<lparr>cr_timestamp := t\<rparr>) =
      map_ok (\<lambda>i. i\<lparr>ic_timestamp := none_if_zero t\<rparr>) (coin_record_from_chq hx r)" for hx r
    by (auto simp: coin_record_from_chq_def rbind_def map_ok_def split: sum.split)
  then show ?thesis
    using coin_state_reaches_interface [OF example_codec_ok, of ?st] by (simp add: wire_record_def map_ok_def)
qed

lemma wire_id: "bytes32_to_hex example_codec (replicate 32 5) = example_id"
  by (simp add: example_id_def hex32_def bytes32_to_hex_def)

lemma peers_report:
  "\<exists>ra. src_coin_record (chia_query_source example_codec walk peers_provider) (replicate 32 5) (voting_pool, 0) =
     Some (Inr (Some ra), (voting_pool\<lparr>next_idx := 1\<rparr>, 0))"
proof -
  have "q_get_coin_record_by_name_opt timed_client example_id (voting_pool, 0) =
      Some (Inr (Some wire_record), (voting_pool\<lparr>next_idx := 1\<rparr>, 0))"
    by (simp add: q_get_coin_record_by_name_opt_def timed_client_def
        rt_get_coin_record_by_name_opt_def peer_then_coinset_opt_def match_call_def on_peer_def
        try_get_coin_record_by_name_opt_def example_setting_def wire_record_found settle_peer_answer_def ret_def)
  moreover have "wire_record = wire_record\<lparr>cr_timestamp := 0\<rparr>"
    by (simp add: wire_record_def coin_state_to_record_def)
  then have "coin_record_from_chq example_codec wire_record =
      coin_record_from_chq example_codec (wire_record\<lparr>cr_timestamp := 0\<rparr>)" by (rule arg_cong)
  ultimately show ?thesis
    by (simp add: chia_query_source_def cqp_coin_record_def with_result_Inr asking_Inr transpose_opt_Some
        peers_provider_def wire_id wire_record_converts)
qed

lemma coinset_reports:
  "\<exists>rb. src_coin_record (coinset_source example_codec serving_coinset) (replicate 32 5) s = Some (Inr (Some rb), s) \<and>
     ic_timestamp rb \<noteq> None"
  by (simp add: coinset_source_def ccs_coin_record_def with_result_Inr asking_Inr transpose_opt_Some
      serving_coinset_def cs_get_coin_record_by_name_opt_def post_extract_opt_def post_def post_raw_def
      bind_call_def match_call_def ret_def optional_field_def json_get_def bt_get_def as_bool_def map_ok_def
      map_err_def wire_record_converts none_if_zero_def)

lemma peers_and_coinset_witness:
  "src_coin_record (trusted_view named peers_and_coinset) (replicate 32 5) (voting_pool, 0) =
     Some (Inl CNoProvider, (voting_pool\<lparr>next_idx := 1\<rparr>, 0))"
proof -
  have group: "cqp_independence_group peers_provider = CHIA_PEERS_INDEPENDENCE_GROUP"
    by (simp add: cqp_independence_group_def peers_provider_def peers_group_fallback timed_client_def)
  obtain ra where a: "src_coin_record (chia_query_source example_codec no_lineage peers_provider)
      (replicate 32 5) (voting_pool, 0) = Some (Inr (Some ra), (voting_pool\<lparr>next_idx := 1\<rparr>, 0))"
    using peers_report by blast
  obtain rb where b: "src_coin_record (coinset_source example_codec serving_coinset :: ((nat, nat) world, nat) chain_source)
      (replicate 32 5) (voting_pool\<lparr>next_idx := 1\<rparr>, 0) = Some (Inr (Some rb), (voting_pool\<lparr>next_idx := 1\<rparr>, 0))"
    "ic_timestamp rb \<noteq> None"
    using coinset_reports by blast
  show ?thesis
    by (rule peers_and_coinset_never_agree [where p = peers_provider and hx = example_codec and hy = example_codec
          and walk = no_lineage and c = serving_coinset and ra = ra and rb = rb,
        OF peers_and_coinset_read(1)])
      (use a b group in \<open>simp_all add: peers_and_coinset_read kinded_provider_def dig_peers_provider_def
        coinset_provider_def\<close>)
qed

end
