(* ===== verification/Drift.thy ===== *)
theory Drift
  imports Coinset
begin

text \<open>
  \<open>src/drift.rs\<close> and the monitor over it, \<open>src/bin/coinset_drift.rs\<close>: the shape of a response, the
  comparison of two shapes, and the probes whose shapes are collected and compared with the
  committed ones. The specification is a relation on the responses themselves, \<open>same_contract\<close>: the
  theorem is that the comparison of their shapes reports nothing exactly when it holds.
\<close>

section \<open>Shapes\<close>

definition is_integer :: "int \<Rightarrow> bool" where
  "is_integer n \<longleftrightarrow> - (2 ^ 63) \<le> n \<and> n < 2 ^ 64"

fun shape_of :: "json \<Rightarrow> json" where
  "shape_of (JObject m) = JObject (bt_collect (map (\<lambda>(k, v). (k, shape_of v)) m))"
| "shape_of (JArray []) = JArray []"
| "shape_of (JArray (x # xs)) = JArray [shape_of x]"
| "shape_of (JString _) = JString ''string''"
| "shape_of (JNumber n) = JString (if is_integer n then ''integer'' else ''number'')"
| "shape_of (JFloat _) = JString ''number''"
| "shape_of (JBool _) = JString ''boolean''"
| "shape_of JNull = JString ''null''"

section \<open>Comparing shapes\<close>

fun kind :: "json \<Rightarrow> string" where
  "kind (JObject _) = ''object''"
| "kind (JArray _) = ''array''"
| "kind _ = ''scalar''"

definition join :: "string \<Rightarrow> string \<Rightarrow> string" where
  "join path key = (if path = [] then key else path @ ''.'' @ key)"

definition keys_added :: "string \<Rightarrow> (string \<times> json) list \<Rightarrow> (string \<times> json) list \<Rightarrow> string list" where
  "keys_added path base cur =
     map (\<lambda>k. join path k @ '': key added'') (filter (\<lambda>k. \<not> bt_contains_key base k) (map fst cur))"

text \<open>The two loops of \<open>diff_objects\<close> are \<open>diff_keys\<close> and \<open>keys_added\<close>.\<close>

definition structure_changed :: "string \<Rightarrow> json \<Rightarrow> json \<Rightarrow> string" where
  "structure_changed path b c = path @ '': structure changed '' @ kind b @ '' -> '' @ kind c"

fun diff_shapes :: "string \<Rightarrow> json \<Rightarrow> json \<Rightarrow> string list"
  and diff_keys :: "string \<Rightarrow> (string \<times> json) list \<Rightarrow> (string \<times> json) list \<Rightarrow> string list"
where
  "diff_shapes path (JObject base) current =
     (case current of
        JObject cur \<Rightarrow> diff_keys path base cur @ keys_added path base cur
      | _ \<Rightarrow> [structure_changed path (JObject base) current])"
| "diff_shapes path (JArray base) current =
     (case current of
        JArray cur \<Rightarrow>
          (case base of
             [] \<Rightarrow> []
           | b # _ \<Rightarrow> (case cur of [] \<Rightarrow> [] | c # _ \<Rightarrow> diff_shapes (path @ ''[]'') b c))
      | _ \<Rightarrow> [structure_changed path (JArray base) current])"
| "diff_shapes path (JString b) current =
     (case current of
        JString c \<Rightarrow> if b \<noteq> c then [path @ '': type changed '' @ b @ '' -> '' @ c] else []
      | _ \<Rightarrow> [structure_changed path (JString b) current])"
| "diff_shapes path baseline current = [structure_changed path baseline current]"
| "diff_keys path [] cur = []"
| "diff_keys path ((key, v) # rest) cur =
     (case bt_get cur key of
        Some w \<Rightarrow> diff_shapes (join path key) v w
      | None \<Rightarrow> [join path key @ '': key removed'']) @ diff_keys path rest cur"

definition diff_objects :: "string \<Rightarrow> (string \<times> json) list \<Rightarrow> (string \<times> json) list \<Rightarrow> string list" where
  "diff_objects path base cur = diff_keys path base cur @ keys_added path base cur"

section \<open>The monitor\<close>

record probe =
  pb_name :: string
  pb_endpoint :: string
  pb_body :: json

definition probes :: "probe list" where
  "probes =
     [\<lparr>pb_name = ''get_blockchain_state'', pb_endpoint = ''get_blockchain_state'', pb_body = obj []\<rparr>,
      \<lparr>pb_name = ''get_network_info'', pb_endpoint = ''get_network_info'', pb_body = obj []\<rparr>,
      \<lparr>pb_name = ''get_block_record_by_height'', pb_endpoint = ''get_block_record_by_height'',
       pb_body = obj [(''height'', JNumber 1)]\<rparr>,
      \<lparr>pb_name = ''get_coin_record_by_name__error'', pb_endpoint = ''get_coin_record_by_name'',
       pb_body = obj [(''name'', JString (''0x'' @ replicate 64 CHR ''0''))]\<rparr>]"

definition drop_volatile_peak :: "json \<Rightarrow> json" where
  "drop_volatile_peak shape =
     (case shape of
        JObject m \<Rightarrow>
          (case bt_get m ''blockchain_state'' of
             Some (JObject state) \<Rightarrow> JObject (bt_insert ''blockchain_state'' (JObject (bt_remove ''peak'' state)) m)
           | _ \<Rightarrow> shape)
      | _ \<Rightarrow> shape)"

definition probe_shape :: "probe \<Rightarrow> json \<Rightarrow> json" where
  "probe_shape p response =
     (let shape = shape_of response
      in if pb_name p = ''get_blockchain_state'' then drop_volatile_peak shape else shape)"

fun collect_from ::
  "'s coinset_client \<Rightarrow> probe list \<Rightarrow> (string, json) btree_map \<Rightarrow> ('s, json) call" where
  "collect_from c [] shapes = ret (Inr (JObject shapes))"
| "collect_from c (p # ps) shapes =
     bind_call (post_raw c (pb_endpoint p) (pb_body p))
       (\<lambda>response. collect_from c ps (bt_insert (pb_name p) (probe_shape p response) shapes))"

definition collect_shapes :: "'s coinset_client query \<Rightarrow> ('s, json) call" where
  "collect_shapes built =
     (case built of Inl e \<Rightarrow> ret (Inl e) | Inr c \<Rightarrow> collect_from c probes bt_empty)"

text \<open>The two files and their formats are arguments: the committed snapshot as read and parsed, and
  what writing one returns. An exit code and the lines printed.\<close>

datatype exit_code = SUCCESS | FAILURE | ExitCode u8

definition SNAPSHOT_PATH :: string where
  "SNAPSHOT_PATH = ''tests/fixtures/coinset-api-snapshot.json''"

definition drift_report :: "json \<Rightarrow> json \<Rightarrow> exit_code \<times> string list" where
  "drift_report baseline live =
     (case diff_shapes '''' baseline live of
        [] \<Rightarrow> (SUCCESS, [''no drift: coinset.org matches the committed snapshot''])
      | drifts \<Rightarrow> (FAILURE, (''DRIFT DETECTED against '' @ SNAPSHOT_PATH @ '':'') # map (\<lambda>l. ''- '' @ l) drifts))"

definition drift_run ::
  "'s coinset_client query \<Rightarrow> (json \<Rightarrow> string + unit) \<Rightarrow> string + json \<Rightarrow> string \<Rightarrow> 's \<Rightarrow>
   ((string + exit_code \<times> string list) \<times> 's) option" where
  "drift_run built write snapshot mode s =
     (case collect_shapes built s of
        None \<Rightarrow> None
      | Some (Inl e, s') \<Rightarrow> Some (Inl (error_to_string e), s')
      | Some (Inr live, s') \<Rightarrow> Some
          (if mode = ''update'' then map_ok (\<lambda>_. (SUCCESS, [''wrote '' @ SNAPSHOT_PATH])) (write live)
           else if mode = ''check'' then map_ok (\<lambda>baseline. drift_report baseline live) snapshot
           else Inl (''unknown mode `'' @ mode @ ''` (expected `check` or `update`)''), s'))"

definition drift_main ::
  "'s coinset_client query \<Rightarrow> (json \<Rightarrow> string + unit) \<Rightarrow> string + json \<Rightarrow> string option \<Rightarrow> 's \<Rightarrow>
   ((exit_code \<times> string list) \<times> 's) option" where
  "drift_main built write snapshot arg s =
     map_option (\<lambda>(r, s'). (case r of Inr out \<Rightarrow> out | Inl e \<Rightarrow> (ExitCode 2, [''coinset_drift: '' @ e]), s'))
       (drift_run built write snapshot (case arg of None \<Rightarrow> ''check'' | Some m \<Rightarrow> m) s)"

section \<open>What a comparison reports\<close>

text \<open>A value of \<open>serde_json\<close>, and when two of them keep one contract: the same keys, with values that
  keep it, the same kind of every scalar, and lists whose first elements keep it.\<close>

fun json_ok :: "json \<Rightarrow> bool" where
  "json_ok (JObject m) \<longleftrightarrow> bt_inv m \<and> (\<forall>v \<in> snd ` set m. json_ok v)"
| "json_ok (JArray xs) \<longleftrightarrow> (\<forall>x \<in> set xs. json_ok x)"
| "json_ok (JNumber n) \<longleftrightarrow> is_integer n"
| "json_ok _ \<longleftrightarrow> True"

inductive same_contract :: "json \<Rightarrow> json \<Rightarrow> bool" where
  "same_contract JNull JNull"
| "same_contract (JBool a) (JBool b)"
| "same_contract (JNumber a) (JNumber b)"
| "same_contract (JFloat a) (JFloat b)"
| "same_contract (JString a) (JString b)"
| "xs = [] \<or> ys = [] \<Longrightarrow> same_contract (JArray xs) (JArray ys)"
| "same_contract x y \<Longrightarrow> same_contract (JArray (x # xs)) (JArray (y # ys))"
| "fst ` set m = fst ` set n \<Longrightarrow>
     (\<And>k v w. (k, v) \<in> set m \<Longrightarrow> (k, w) \<in> set n \<Longrightarrow> same_contract v w) \<Longrightarrow>
     same_contract (JObject m) (JObject n)"

inductive_simps same_contract_simps:
  "same_contract JNull b" "same_contract (JBool x) b" "same_contract (JNumber n) b"
  "same_contract (JFloat f) b" "same_contract (JString t) b" "same_contract (JArray xs) b"
  "same_contract (JObject m) b"

lemma bt_collect_id:
  assumes "bt_inv m"
  shows "bt_collect m = m"
proof (rule btree.get_ext [OF bt_collect_inv assms])
  have "distinct (map fst m)" using assms by (simp add: bt_inv_def strict_sorted_iff)
  then have "map_of (rev m) k = Some v \<longleftrightarrow> map_of m k = Some v" for k v
    by (simp add: rev_map [symmetric])
  then have "map_of (rev m) k = map_of m k" for k by (metis not_None_eq)
  then show "bt_get (bt_collect m) = bt_get m"
    by (simp add: fun_eq_iff bt_get_collect) (simp add: bt_get_def)
qed

lemma bt_inv_map: "bt_inv (map (\<lambda>(k, v). (k, f v)) m) \<longleftrightarrow> bt_inv m"
  by (simp add: bt_inv_def comp_def split_def)

lemma shape_of_object: "bt_inv m \<Longrightarrow> shape_of (JObject m) = JObject (map (\<lambda>(k, v). (k, shape_of v)) m)"
  by (simp add: bt_collect_id bt_inv_map)

lemma bt_get_iff: "bt_inv m \<Longrightarrow> bt_get m k = Some v \<longleftrightarrow> (k, v) \<in> set m"
  using btree.entries_iff [of m k v] by blast

lemma keys_added_Nil: "keys_added path base cur = [] \<longleftrightarrow> fst ` set cur \<subseteq> fst ` set base"
  by (auto simp: keys_added_def filter_empty_conv bt_contains_key_def bt_get_def map_of_eq_None_iff
      simp del: not_None_eq)

lemma bt_get_distinct: "bt_inv m \<Longrightarrow> (k, v) \<in> set m \<Longrightarrow> (k, w) \<in> set m \<Longrightarrow> v = w"
  by (metis bt_get_iff option.inject)

lemma diff_keys_Nil:
  assumes "bt_inv cur"
  shows "diff_keys path base cur = [] \<longleftrightarrow>
     (\<forall>(k, v) \<in> set base. k \<in> fst ` set cur \<and> (\<forall>w. (k, w) \<in> set cur \<longrightarrow> diff_shapes (join path k) v w = []))"
proof (induction base)
  case (Cons p base)
  obtain k v where p: "p = (k, v)" by fastforce
  show ?case
  proof (cases "bt_get cur k")
    case None
    then have "k \<notin> fst ` set cur" by (simp add: bt_get_def map_of_eq_None_iff)
    with None show ?thesis by (simp add: p)
  next
    case (Some w)
    then have "(k, w) \<in> set cur" using assms by (simp add: bt_get_iff)
    then have u: "(k, u) \<in> set cur \<longleftrightarrow> u = w" for u using bt_get_distinct [OF assms] by blast
    then have "k \<in> fst ` set cur" by force
    with Some Cons u show ?thesis by (simp add: p)
  qed
qed simp

lemma shared_keys:
  "(\<forall>(k, v) \<in> A. k \<in> fst ` B \<and> (\<forall>w. (k, w) \<in> B \<longrightarrow> D k v w)) \<and> fst ` B \<subseteq> fst ` A \<longleftrightarrow>
     fst ` A = fst ` B \<and> (\<forall>k v w. (k, v) \<in> A \<longrightarrow> (k, w) \<in> B \<longrightarrow> D k v w)"
proof -
  have "(\<forall>(k, v) \<in> A. k \<in> fst ` B \<and> (\<forall>w. (k, w) \<in> B \<longrightarrow> D k v w)) \<longleftrightarrow>
      fst ` A \<subseteq> fst ` B \<and> (\<forall>k v w. (k, v) \<in> A \<longrightarrow> (k, w) \<in> B \<longrightarrow> D k v w)"
    unfolding image_subset_iff split_def by (metis fst_conv prod.collapse snd_conv)
  then show ?thesis by (auto simp: set_eq_subset)
qed

text \<open>C40: The comparison of two shapes reports nothing exactly when the responses keep one contract:
  the same keys at every level with values that do, scalars of the same kind, integers told from
  other numbers, and lists of which one is empty or whose first elements do. What the values are and
  the path the comparison starts from do not matter.\<close>

theorem drift_is_exact:
  assumes "json_ok a" "json_ok b"
  shows "diff_shapes path (shape_of a) (shape_of b) = [] \<longleftrightarrow> same_contract a b"
  using assms
proof (induction a arbitrary: b path rule: shape_of.induct)
  case (1 m)
  then have m: "bt_inv m" by simp
  show ?case
  proof (cases b)
    case (JObject n)
    with 1 have n: "bt_inv n" by simp
    let ?s = "map (\<lambda>(k, v). (k, shape_of v))"
    have keys: "fst ` set (?s x) = fst ` set x" for x :: "(string \<times> json) list" by force
    have IH: "diff_shapes p (shape_of v) (shape_of w) = [] \<longleftrightarrow> same_contract v w"
      if "(k, v) \<in> set m" "(k, w) \<in> set n" for k v w p
    proof (rule "1.IH" [OF that(1) refl])
      show "json_ok v" using "1.prems"(1) that(1) by force
      show "json_ok w" using "1.prems"(2) that(2) JObject by force
    qed
    have elems: "(\<forall>(k, v) \<in> set (?s m). P k v) \<longleftrightarrow> (\<forall>(k, v) \<in> set m. P k (shape_of v))" for P
      by (simp add: split_def)
    have shapes: "(\<forall>w. (k, w) \<in> set (?s n) \<longrightarrow> Q w) \<longleftrightarrow> (\<forall>w. (k, w) \<in> set n \<longrightarrow> Q (shape_of w))" for k Q
      by force
    have "diff_shapes path (shape_of (JObject m)) (shape_of (JObject n)) = [] \<longleftrightarrow>
        diff_keys path (?s m) (?s n) = [] \<and> keys_added path (?s m) (?s n) = []"
      by (simp only: shape_of_object [OF m] shape_of_object [OF n] diff_shapes.simps json.case append_is_Nil_conv)
    also have "\<dots> \<longleftrightarrow>
        (\<forall>(k, v) \<in> set m. k \<in> fst ` set n \<and> (\<forall>w. (k, w) \<in> set n \<longrightarrow>
           diff_shapes (join path k) (shape_of v) (shape_of w) = [])) \<and>
        fst ` set n \<subseteq> fst ` set m"
      by (simp only: diff_keys_Nil [OF bt_inv_map [THEN iffD2, OF n]] keys_added_Nil keys elems shapes)
    also have "\<dots> \<longleftrightarrow> fst ` set m = fst ` set n \<and>
        (\<forall>k v w. (k, v) \<in> set m \<longrightarrow> (k, w) \<in> set n \<longrightarrow>
           diff_shapes (join path k) (shape_of v) (shape_of w) = [])"
      by (rule shared_keys)
    also have "\<dots> \<longleftrightarrow> fst ` set m = fst ` set n \<and>
        (\<forall>k v w. (k, v) \<in> set m \<longrightarrow> (k, w) \<in> set n \<longrightarrow> same_contract v w)"
      by (simp add: IH cong: imp_cong)
    also have "\<dots> \<longleftrightarrow> same_contract (JObject m) (JObject n)"
      by (auto simp: same_contract_simps)
    finally show ?thesis using JObject by simp
  next
    case (JArray ys)
    then show ?thesis by (cases ys) (auto simp: same_contract_simps)
  qed (auto simp: same_contract_simps)
next
  case 2
  then show ?case by (cases b rule: shape_of.cases) (auto simp: same_contract_simps)
next
  case (3 x xs)
  then show ?case by (cases b rule: shape_of.cases) (auto simp: same_contract_simps)
next
  case 4
  then show ?case by (cases b rule: shape_of.cases) (auto simp: same_contract_simps)
next
  case 5
  then show ?case by (cases b rule: shape_of.cases) (auto simp: same_contract_simps)
next
  case 6
  then show ?case by (cases b rule: shape_of.cases) (auto simp: same_contract_simps)
next
  case 7
  then show ?case by (cases b rule: shape_of.cases) (auto simp: same_contract_simps)
next
  case 8
  then show ?case by (cases b rule: shape_of.cases) (auto simp: same_contract_simps)
qed

definition response_then :: json where
  "response_then = JObject [(''fees'', JNumber 3), (''items'', JArray [JObject [(''amount'', JNumber 1)]])]"

definition response_now :: json where
  "response_now = JObject [(''fees'', JNumber 9), (''items'', JArray [JObject [(''amount'', JFloat 0)]])]"

lemma responses_ok: "json_ok response_then" "json_ok response_now"
  by (simp_all add: response_then_def response_now_def bt_inv_def is_integer_def)

lemma drift_witness:
  "diff_shapes ''ep'' (shape_of response_then) (shape_of response_now) \<noteq> [] \<and>
   diff_shapes ''ep'' (shape_of response_then) (shape_of response_then) = []"
proof -
  have "\<not> same_contract response_then response_now"
    by (auto simp: response_then_def response_now_def same_contract_simps)
  moreover have "same_contract response_then response_then"
    by (auto simp: response_then_def same_contract_simps)
  ultimately show ?thesis
    using drift_is_exact [OF responses_ok] drift_is_exact [OF responses_ok(1,1)] by simp
qed

text \<open>The monitor drops the peak of the chain state and nothing else.\<close>

lemma drop_volatile_peak_exact:
  assumes "bt_inv m" "bt_get m ''blockchain_state'' = Some (JObject state)"
  shows "\<exists>m'. drop_volatile_peak (JObject m) = JObject m' \<and>
    bt_get m' = (bt_get m)(''blockchain_state'' \<mapsto> JObject (bt_remove ''peak'' state)) \<and>
    bt_get (bt_remove ''peak'' state) = (bt_get state)(''peak'' := None)"
  using assms by (simp add: drop_volatile_peak_def bt_get_insert bt_get_remove)

end
