(* ===== verification/Transport.thy ===== *)
theory Transport
  imports Client
begin

text \<open>
  What \<open>src/peer/connect.rs\<close> makes of the TLS and websocket libraries: the connector from a
  generated certificate or from files, one connection attempt under its deadline, and the dial that
  excludes nothing. The libraries' results are arguments. The lemmas show that a failure of either
  is an error of the client and that what is dialled is what answered.
\<close>

section \<open>TLS\<close>

definition generated_tls :: "string + 'c \<Rightarrow> ('c \<Rightarrow> string + 't) \<Rightarrow> 't query" where
  "generated_tls generate connector =
     rbind (map_err TlsError generate) (\<lambda>cert. map_err TlsError (connector cert))"

text \<open>\<open>Path::to_str\<close> is \<open>None\<close> for a path that is not UTF-8.\<close>

definition tls_from_files ::
  "(string \<Rightarrow> string \<Rightarrow> string + 'c) \<Rightarrow> ('c \<Rightarrow> string + 't) \<Rightarrow> string option \<Rightarrow> string option \<Rightarrow> 't query" where
  "tls_from_files load_cert connector cert_path key_path =
     rbind (ok_or (TlsError ''cert path is not valid UTF-8'') cert_path) (\<lambda>cert_str.
     rbind (ok_or (TlsError ''key path is not valid UTF-8'') key_path) (\<lambda>key_str.
     rbind (map_err TlsError (load_cert cert_str key_str)) (\<lambda>cert.
     map_err TlsError (connector cert))))"

section \<open>Connecting\<close>

text \<open>How an attempt ends: connected, refused with a reason, or out of time.\<close>

datatype 'c attempt = Connected 'c | Refused string | Elapsed

fun try_connect :: "'c attempt \<Rightarrow> 'c query" where
  "try_connect (Connected c) = Inr c"
| "try_connect (Refused e) = Inl (PeerConnection e)"
| "try_connect Elapsed = Inl (PeerConnection ''timed out'')"

text \<open>A dial moves on from an address whose attempt failed, for whatever reason.\<close>

definition dial_with :: "(socket_addr \<Rightarrow> 'c attempt) \<Rightarrow> socket_addr \<Rightarrow> 'c option" where
  "dial_with connect a = (case try_connect (connect a) of Inr c \<Rightarrow> Some c | Inl _ \<Rightarrow> None)"

definition connect_random_peer ::
  "network_type \<Rightarrow> ip_addr option \<Rightarrow> (socket_addr \<Rightarrow> 'c attempt) \<Rightarrow> socket_addr list \<Rightarrow>
   (socket_addr list \<Rightarrow> socket_addr list) \<Rightarrow> (socket_addr list \<Rightarrow> socket_addr list) \<Rightarrow>
   ('c \<times> socket_addr) query" where
  "connect_random_peer net trusted connect lookup shuffle finish =
     map_ok (\<lambda>(c, a, _). (c, a))
       (connect_random_peer_excluding net trusted (dial_with connect) lookup shuffle finish [])"

section \<open>What they return\<close>

lemma tls_from_files_Inr:
  "tls_from_files load_cert connector cert_path key_path = Inr t \<longleftrightarrow>
     (\<exists>c k cert. cert_path = Some c \<and> key_path = Some k \<and> load_cert c k = Inr cert \<and> connector cert = Inr t)"
  by (auto simp: tls_from_files_def rbind_Inr ok_or_Inr map_err_Inr)

lemma dial_with_Some: "dial_with connect a = Some c \<longleftrightarrow> connect a = Connected c"
  by (cases "connect a") (auto simp: dial_with_def)

lemma a_tls_failure_is_a_tls_error:
  "generated_tls generate connector = Inl e \<Longrightarrow> \<exists>m. e = TlsError m"
  "tls_from_files load_cert connector cert_path key_path = Inl e \<Longrightarrow> \<exists>m. e = TlsError m"
  by (auto simp: generated_tls_def tls_from_files_def rbind_def map_err_def ok_or_def split: sum.splits option.splits)

lemma connect_random_peer_Inr:
  assumes "permuting shuffle" "permuting finish"
    "connect_random_peer net trusted connect lookup shuffle finish = Inr (c, a)"
  shows "connect a = Connected c"
proof -
  obtain org where
    "connect_random_peer_excluding net trusted (dial_with connect) lookup shuffle finish [] = Inr (c, a, org)"
    using assms(3) by (auto simp: connect_random_peer_def map_ok_Inr)
  from connect_Inr [OF assms(1,2) this] show ?thesis by (simp add: dial_with_Some)
qed

end
