(* ===== verification/Wasm.thy ===== *)
theory Wasm
  imports Coinset
begin

text \<open>
  The browser build: the transport of \<open>src/coinset/transport.rs\<close> over an injected \<open>fetch\<close>, and the
  client of \<open>src/wasm_api.rs\<close>. The JavaScript host is a record: its values are of a type of their own,
  a call that throws or a promise that rejects is a left. The lemmas show that whatever the host does
  a failure is a rejection carrying a client error, and which of the two requests keeps the success
  check.
\<close>

section \<open>The host\<close>

text \<open>The members \<open>js_set\<close> to \<open>js_await\<close> are \<open>Reflect::set\<close>, \<open>Reflect::get\<close>, \<open>dyn_into\<close> a function, the
  calls of \<open>fetch\<close> and of a method without arguments, and awaiting a promise; the last members are
  \<open>serde_wasm_bindgen\<close>, \<open>serde_json::to_string\<close>, \<open>JsValue::from_str\<close> and \<open>Error::new\<close>.\<close>

record ('s, 'v) js_host =
  js_object :: 'v
  js_set :: "'v \<Rightarrow> string \<Rightarrow> 'v \<Rightarrow> 'v + 'v"
  js_get :: "'v \<Rightarrow> string \<Rightarrow> 'v + 'v"
  js_function :: "'v \<Rightarrow> 'v + 'v"
  js_fetch :: "'v \<Rightarrow> 'v \<Rightarrow> 's \<Rightarrow> ('v + 'v) \<times> 's"
  js_call0 :: "'v \<Rightarrow> 'v \<Rightarrow> 's \<Rightarrow> ('v + 'v) \<times> 's"
  js_await :: "'v \<Rightarrow> 's \<Rightarrow> (('v + 'v) \<times> 's) option"
  js_as_string :: "'v \<Rightarrow> string option"
  js_nullish :: "'v \<Rightarrow> bool"
  js_from_value :: "'v \<Rightarrow> string + json"
  js_to_value :: "json \<Rightarrow> string + 'v"
  js_payload :: "json \<Rightarrow> string + string"
  js_string :: "string \<Rightarrow> 'v"
  js_error :: "string \<Rightarrow> 'v"

section \<open>The transport\<close>

definition fetch_err :: "('s, 'v) js_host \<Rightarrow> string \<Rightarrow> 'v \<Rightarrow> chia_query_error" where
  "fetch_err js context value =
     CoinsetHttp (context @ '': '' @ (case js_as_string js value of None \<Rightarrow> ''js error'' | Some m \<Rightarrow> m))"

text \<open>The four properties of the init object, and what is sent.\<close>

definition fetch_init :: "('s, 'v) js_host \<Rightarrow> json \<Rightarrow> 'v query" where
  "fetch_init js body =
     rbind (map_err (fetch_err js ''set method'') (js_set js (js_object js) ''method'' (js_string js ''POST''))) (\<lambda>init.
     rbind (map_err (fetch_err js ''set header'')
       (js_set js (js_object js) ''Content-Type'' (js_string js ''application/json''))) (\<lambda>headers.
     rbind (map_err (fetch_err js ''set headers'') (js_set js init ''headers'' headers)) (\<lambda>init.
     rbind (map_err CoinsetHttp (js_payload js body)) (\<lambda>payload.
     map_err (fetch_err js ''set body'') (js_set js init ''body'' (js_string js payload))))))"

definition host_call :: "('s, 'v) js_host \<Rightarrow> string \<Rightarrow> ('s \<Rightarrow> ('v + 'v) \<times> 's) \<Rightarrow> ('s, 'v) call" where
  "host_call js context f s = (case f s of (r, s') \<Rightarrow> Some (map_err (fetch_err js context) r, s'))"

definition host_await :: "('s, 'v) js_host \<Rightarrow> string \<Rightarrow> 'v \<Rightarrow> ('s, 'v) call" where
  "host_await js context promise s =
     map_option (\<lambda>(r, s'). (map_err (fetch_err js context) r, s')) (js_await js promise s)"

definition fetch_post_json :: "('s, 'v) js_host \<Rightarrow> string \<Rightarrow> json \<Rightarrow> ('s, json) call" where
  "fetch_post_json js url body =
     bind_call (ret (fetch_init js body)) (\<lambda>init.
     bind_call (host_call js ''call fetch'' (js_fetch js (js_string js url) init)) (\<lambda>promise.
     bind_call (host_await js ''await fetch'' promise) (\<lambda>response.
     bind_call (ret (map_err (fetch_err js ''get json()'') (js_get js response ''json''))) (\<lambda>member.
     bind_call (ret (map_err (fetch_err js ''json not callable'') (js_function js member))) (\<lambda>json_fn.
     bind_call (host_call js ''call json()'' (js_call0 js json_fn response)) (\<lambda>json_promise.
     bind_call (host_await js ''await json()'' json_promise) (\<lambda>value.
     ret (map_err (\<lambda>e. CoinsetHttp (''parse json: '' @ e)) (js_from_value js value)))))))))"

section \<open>The client\<close>

definition to_json :: "('s, 'v) js_host \<Rightarrow> 'v \<Rightarrow> 'v + json" where
  "to_json js value =
     (if js_nullish js value then Inr (JObject []) else map_err (js_string js) (js_from_value js value))"

definition to_js :: "('s, 'v) js_host \<Rightarrow> json \<Rightarrow> 'v + 'v" where
  "to_js js value = map_err (js_string js) (js_to_value js value)"

definition to_js_error :: "('s, 'v) js_host \<Rightarrow> chia_query_error \<Rightarrow> 'v" where
  "to_js_error js e = js_error js (error_to_string e)"

definition wasm_client_new :: "('s, 'v) js_host \<Rightarrow> string \<Rightarrow> 's coinset_client" where
  "wasm_client_new js url = with_transport url (fetch_post_json js)"

definition wasm_call ::
  "('s, 'v) js_host \<Rightarrow> (json \<Rightarrow> ('s, json) call) \<Rightarrow> 'v \<Rightarrow> 's \<Rightarrow> (('v + 'v) \<times> 's) option" where
  "wasm_call js send_body body s =
     (case to_json js body of
        Inl e \<Rightarrow> Some (Inl e, s)
      | Inr j \<Rightarrow> map_option (\<lambda>(r, s'). (rbind (map_err (to_js_error js) r) (to_js js), s')) (send_body j s))"

definition wasm_request ::
  "('s, 'v) js_host \<Rightarrow> 's coinset_client \<Rightarrow> string \<Rightarrow> 'v \<Rightarrow> 's \<Rightarrow> (('v + 'v) \<times> 's) option" where
  "wasm_request js c endpoint = wasm_call js (post c endpoint)"

definition wasm_request_raw ::
  "('s, 'v) js_host \<Rightarrow> 's coinset_client \<Rightarrow> string \<Rightarrow> 'v \<Rightarrow> 's \<Rightarrow> (('v + 'v) \<times> 's) option" where
  "wasm_request_raw js c endpoint = wasm_call js (post_raw c endpoint)"

section \<open>What a caller sees\<close>

definition http_only :: "('s, 'a) call \<Rightarrow> bool" where
  "http_only c \<longleftrightarrow> (\<forall>s e s'. c s = Some (Inl e, s') \<longrightarrow> (\<exists>m. e = CoinsetHttp m))"

lemma http_only_bind: "http_only m \<Longrightarrow> (\<And>x. http_only (f x)) \<Longrightarrow> http_only (bind_call m f)"
  unfolding http_only_def bind_call_def by (auto split: option.splits sum.splits)

lemma map_err_Inl: "map_err f r = Inl e \<longleftrightarrow> (\<exists>x. r = Inl x \<and> e = f x)"
  by (cases r) auto

lemma http_only_steps:
  "http_only (ret (map_err (fetch_err js context) r))"
  "http_only (ret (map_err (\<lambda>e. CoinsetHttp (g e)) t))"
  "http_only (host_call js context call0)"
  "http_only (host_await js context promise)"
  by (auto simp: http_only_def ret_def host_call_def host_await_def fetch_err_def map_err_Inl
      split: prod.splits)

lemma http_only_init: "http_only (ret (fetch_init js body))"
  by (auto simp: http_only_def ret_def fetch_init_def fetch_err_def rbind_def map_err_def split: sum.splits)

lemma fetch_failure_is_http: "http_only (fetch_post_json js url body)"
  unfolding fetch_post_json_def by (intro http_only_bind http_only_init http_only_steps)

text \<open>A request resolves only when coinset said \<open>success: true\<close>; the raw one has no such check.\<close>

lemma wasm_request_is_checked:
  assumes "wasm_request js c endpoint body s = Some (Inr v, s')"
  shows "\<exists>b j. to_json js body = Inr b \<and> js_to_value js j = Inr v \<and>
    post_raw c endpoint b s = Some (Inr j, s') \<and> Option.bind (json_get j ''success'') as_bool = Some True"
  using assms by (auto simp: wasm_request_def wasm_call_def rbind_Inr map_err_Inr to_js_def post_Inr
      split: sum.splits)

end
